(* ===== verification/Prelude.thy ===== *)
theory Prelude
  imports Main "HOL-Library.Word"
begin

text \<open>
  Shared vocabulary of the development: the machine types of the program (LP64 Linux, as the
  Makefile's targets assume), the ways a C function can fail to have a result, the sequencing of
  fallible calls, C strings, and the in-memory bytes of a \<^verbatim>\<open>size_t\<close>.

  Conventions used by every theory:
  \<^item> a pointer is a natural number and \<open>NULL\<close> is 0; what it points to lives in an explicit store;
  \<^item> a byte (\<^verbatim>\<open>char\<close>) is a HOL \<open>char\<close>; a buffer is a list of them;
  \<^item> a call that has no defined result is \<open>Inl fault\<close>: an access outside an object, a null
    pointer dereference, a loop that never ends, a blocking call that has not returned, a mutex
    locked twice by one thread, or \<^verbatim>\<open>exit\<close>;
  \<^item> allocation never fails, and what is printed on the terminal for diagnosis is not modelled.
\<close>

section \<open>Machine types and faults\<close>

type_synonym ptr = nat
type_synonym size_t = "64 word"

abbreviation (input) NULL :: ptr where "NULL \<equiv> 0"

datatype fault = Out_of_bounds | Null_deref | Diverges | Blocks | Deadlock | Exits int

type_synonym 'a res = "fault + 'a"

named_theorems res_simps \<open>how a sequence of fallible calls computes\<close>

definition bindr :: "'a res \<Rightarrow> ('a \<Rightarrow> 'b res) \<Rightarrow> 'b res" where
  "bindr m f = (case m of Inl e \<Rightarrow> Inl e | Inr x \<Rightarrow> f x)"

lemma bindr_Inl [simp, res_simps]: "bindr (Inl e) f = Inl e"
  by (simp add: bindr_def)

lemma bindr_Inr [simp, res_simps]: "bindr (Inr x) f = f x"
  by (simp add: bindr_def)

lemma bindr_cong [fundef_cong]:
  "m = m' \<Longrightarrow> (\<And>x. m' = Inr x \<Longrightarrow> f x = f' x) \<Longrightarrow> bindr m f = bindr m' f'"
  by (cases m') simp_all

lemma bindr_eq_Inr: "bindr m f = Inr y \<longleftrightarrow> (\<exists>x. m = Inr x \<and> f x = Inr y)"
  by (cases m) simp_all

lemma bindr_eq_Inl: "bindr m f = Inl e \<longleftrightarrow> m = Inl e \<or> (\<exists>x. m = Inr x \<and> f x = Inl e)"
  by (cases m) simp_all

lemma bindr_assoc: "bindr (bindr m f) g = bindr m (\<lambda>x. bindr (f x) g)"
  by (cases m) simp_all

lemma bindr_split:
  "P (bindr m f) \<longleftrightarrow> (\<forall>e. m = Inl e \<longrightarrow> P (Inl e)) \<and> (\<forall>x. m = Inr x \<longrightarrow> P (f x))"
  by (cases m) simp_all

definition or_fault :: "fault \<Rightarrow> 'a option \<Rightarrow> 'a res" where
  "or_fault e x = (case x of None \<Rightarrow> Inl e | Some y \<Rightarrow> Inr y)"

lemma or_fault_simps [simp, res_simps]: "or_fault e None = Inl e" "or_fault e (Some y) = Inr y"
  by (simp_all add: or_fault_def)

lemma or_fault_Inr: "or_fault e x = Inr y \<longleftrightarrow> x = Some y"
  by (cases x) simp_all

text \<open>Reading through a pointer: an object of the heap, or a fault.\<close>

definition deref :: "(ptr \<Rightarrow> 'a option) \<Rightarrow> ptr \<Rightarrow> 'a res" where
  "deref h p = (if p = NULL then Inl Null_deref else or_fault Out_of_bounds (h p))"

lemma deref_Some [simp, res_simps]: "p \<noteq> NULL \<Longrightarrow> h p = Some x \<Longrightarrow> deref h p = Inr x"
  by (simp add: deref_def)

lemma deref_NULL [simp, res_simps]: "deref h NULL = Inl Null_deref"
  by (simp add: deref_def)

lemma deref_Inr: "deref h p = Inr x \<longleftrightarrow> p \<noteq> NULL \<and> h p = Some x"
  by (simp add: deref_def or_fault_Inr)

section \<open>Lists\<close>

text \<open>The list without the first element that has the property.\<close>

fun remove_first :: "('a \<Rightarrow> bool) \<Rightarrow> 'a list \<Rightarrow> 'a list" where
  "remove_first q [] = []"
| "remove_first q (x # xs) = (if q x then xs else x # remove_first q xs)"

lemma remove_first_None: "List.find q xs = None \<Longrightarrow> remove_first q xs = xs"
  by (induction xs) (auto split: if_splits)

lemma set_remove_first: "set (remove_first q xs) \<subseteq> set xs"
  by (induction xs) auto

lemma find_parts:
  "List.find q xs = Some x \<Longrightarrow> xs = takeWhile (\<lambda>y. \<not> q y) xs @ x # tl (dropWhile (\<lambda>y. \<not> q y) xs)
    \<and> q x \<and> remove_first q xs = takeWhile (\<lambda>y. \<not> q y) xs @ tl (dropWhile (\<lambda>y. \<not> q y) xs)"
  by (induction xs) (auto split: if_splits)

lemma find_split:
  assumes "List.find q xs = Some x"
  obtains ys zs where "xs = ys @ x # zs" "takeWhile (\<lambda>y. \<not> q y) xs = ys" "q x"
    "\<forall>y\<in>set ys. \<not> q y" "remove_first q xs = ys @ zs"
proof
  show "\<forall>y\<in>set (takeWhile (\<lambda>y. \<not> q y) xs). \<not> q y" by (blast dest: set_takeWhileD)
qed (use find_parts[OF assms] in auto)

section \<open>Words\<close>

lemma unat_bound: "unat w < 2 ^ LENGTH('a)" for w :: "'a::len word"
  by simp

lemma unat_suc: "i < n \<Longrightarrow> unat (i + 1) = Suc (unat i)" for i n :: "'a::len word"
  by unat_arith

lemma unat_add_small:
  "unat a + unat b < 2 ^ LENGTH('a) \<Longrightarrow> unat (a + b) = unat a + unat b" for a b :: "'a::len word"
  by (simp add: unat_word_ariths)

lemma unat_mult_small:
  "unat a * unat b < 2 ^ LENGTH('a) \<Longrightarrow> unat (a * b) = unat a * unat b" for a b :: "'a::len word"
  by (simp add: unat_word_ariths)

lemma unat_sub_small: "b \<le> a \<Longrightarrow> unat (a - b) = unat a - unat b" for a b :: "'a::len word"
  by (simp add: unat_sub word_le_nat_alt)

lemma unat_of_nat_small: "n < 2 ^ LENGTH('a) \<Longrightarrow> unat (of_nat n :: 'a::len word) = n"
  by (simp add: unat_of_nat take_bit_nat_eq_self)

lemma unat_pow2: "k < LENGTH('a) \<Longrightarrow> unat (2 ^ k :: 'a::len word) = 2 ^ k"
  using unat_of_nat_small[of "2 ^ k", where 'a='a] by simp

lemma sint_small:
  assumes "n < 2 ^ 63"
  shows "sint (of_nat n :: size_t) = int n"
proof -
  have "take_bit 64 n = n" using assms by (intro take_bit_nat_eq_self) simp
  then show ?thesis using assms
    by (simp add: sint_uint unsigned_of_nat signed_take_bit_int_eq_self)
qed

section \<open>C strings\<close>

abbreviation (input) NUL :: char where "NUL \<equiv> CHR 0x00"
abbreviation (input) NEWLINE :: char where "NEWLINE \<equiv> CHR 0x0A"
abbreviation (input) SPACE :: char where "SPACE \<equiv> CHR 0x20"

text \<open>The string a \<^verbatim>\<open>char\<close> buffer holds: its bytes before the first null byte. With
  no null byte in the buffer, \<^verbatim>\<open>strlen\<close> and its kin read past the end of it.\<close>

definition cstr :: "char list \<Rightarrow> string" where
  "cstr buf = takeWhile (\<lambda>c. c \<noteq> NUL) buf"

definition c_string :: "char list \<Rightarrow> string res" where
  "c_string buf = (if NUL \<in> set buf then Inr (cstr buf) else Inl Out_of_bounds)"

lemma cstr_no_NUL [simp]: "NUL \<notin> set (cstr buf)"
  unfolding cstr_def using set_takeWhileD by fastforce

lemma cstr_terminated: "NUL \<notin> set s \<Longrightarrow> cstr (s @ NUL # rest) = s"
  by (induction s) (auto simp: cstr_def)

lemma cstr_id: "NUL \<notin> set s \<Longrightarrow> cstr s = s"
  by (induction s) (auto simp: cstr_def)

lemma length_cstr_le: "length (cstr buf) \<le> length buf"
  by (simp add: cstr_def length_takeWhile_le)

text \<open>\<^verbatim>\<open>strncmp(lit, s, strlen(lit)) == 0\<close> for a literal and a string.\<close>

definition starts_with :: "string \<Rightarrow> string \<Rightarrow> bool" where
  "starts_with lit s \<longleftrightarrow> take (length lit) s = lit"

lemma starts_with_simps [simp]:
  "starts_with [] s" "\<not> starts_with (a # lit) []"
  "starts_with (a # lit) (b # s) \<longleftrightarrow> a = b \<and> starts_with lit s"
  by (auto simp: starts_with_def)

lemma cstr_padding [simp]: "cstr (s @ replicate n NUL) = cstr s"
  by (induction s) (auto simp: cstr_def takeWhile_eq_Nil_iff)

lemma c_string_padded: "0 < n \<Longrightarrow> c_string (s @ replicate n NUL) = Inr (cstr s)"
  by (simp add: c_string_def)

lemma starts_with_append [simp]: "starts_with lit (lit @ s)"
  by (simp add: starts_with_def)

section \<open>The bytes of a size\_t\<close>

text \<open>Little-endian: byte \<open>i\<close> has weight \<open>256 ^ i\<close>.\<close>

fun le_digits :: "nat \<Rightarrow> nat \<Rightarrow> char list" where
  "le_digits 0 n = []"
| "le_digits (Suc k) n = char_of (n mod 256) # le_digits k (n div 256)"

fun le_value :: "char list \<Rightarrow> nat" where
  "le_value [] = 0"
| "le_value (b # bs) = of_char b + 256 * le_value bs"

definition size_bytes :: "size_t \<Rightarrow> char list" where
  "size_bytes w = le_digits 8 (unat w)"

definition bytes_size :: "char list \<Rightarrow> size_t" where
  "bytes_size bs = of_nat (le_value bs)"

lemma length_le_digits [simp]: "length (le_digits k n) = k"
  by (induction k arbitrary: n) auto

lemma length_size_bytes [simp]: "length (size_bytes w) = 8"
  by (simp add: size_bytes_def)

lemma le_value_digits: "le_value (le_digits k n) = n mod 256 ^ k"
proof (induction k arbitrary: n)
  case (Suc k)
  have "le_value (le_digits (Suc k) n) = n mod 256 + 256 * (n div 256 mod 256 ^ k)"
    by (simp add: Suc)
  also have "\<dots> = n mod (256 * 256 ^ k)"
    by (simp add: mod_mult2_eq)
  finally show ?case by simp
qed simp

lemma of_char_lt_256: "(of_char c :: nat) < 256"
proof -
  have "(of_char c :: nat) = of_char c mod 256" by simp
  then show ?thesis by (metis mod_less_divisor zero_less_numeral)
qed

lemma le_digits_value: "length bs = k \<Longrightarrow> le_digits k (le_value bs) = bs"
proof (induction bs arbitrary: k)
  case (Cons b bs)
  have "(of_char b + 256 * le_value bs) mod 256 = (of_char b :: nat)"
    using of_char_lt_256[of b] by simp
  moreover have "(of_char b + 256 * le_value bs) div 256 = le_value bs"
    using of_char_lt_256[of b] by simp
  ultimately show ?case using Cons by (auto simp: char_of_char)
qed simp

lemma digit_lt: "a < 256 \<Longrightarrow> a + 256 * v < 256 * Suc v" for a v :: nat
  by simp

lemma le_value_lt: "le_value bs < 256 ^ length bs"
proof (induction bs)
  case (Cons b bs)
  have "of_char b + 256 * le_value bs < 256 * Suc (le_value bs)"
    by (rule digit_lt) (rule of_char_lt_256)
  also have "\<dots> \<le> 256 * 256 ^ length bs"
    using Cons by (intro mult_le_mono2) simp
  finally show ?case by simp
qed simp

lemma bytes_size_bytes [simp]: "bytes_size (size_bytes w) = w"
proof -
  have "unat w < 256 ^ 8" using unsigned_less[of w] by simp
  then show ?thesis by (simp add: bytes_size_def size_bytes_def le_value_digits)
qed

lemma size_bytes_size: "length bs = 8 \<Longrightarrow> size_bytes (bytes_size bs) = bs"
proof -
  assume len: "length bs = 8"
  have "le_value bs < 2 ^ 64" using le_value_lt[of bs] len by simp
  then have "unat (bytes_size bs) = le_value bs"
    by (simp add: bytes_size_def unat_of_nat_small)
  then show ?thesis using len by (simp add: size_bytes_def le_digits_value)
qed

text \<open>\<^verbatim>\<open>((char* )&n)[i] = b\<close>: one byte of a \<^verbatim>\<open>size_t\<close> is overwritten.\<close>

definition set_size_byte :: "nat \<Rightarrow> char \<Rightarrow> size_t \<Rightarrow> size_t" where
  "set_size_byte i b w = bytes_size ((size_bytes w)[i := b])"

lemma size_bytes_set: "i < 8 \<Longrightarrow> size_bytes (set_size_byte i b w) = (size_bytes w)[i := b]"
  by (simp add: set_size_byte_def size_bytes_size)

end
