(* ===== verification/Sys_IO.thy ===== *)
theory Sys_IO
  imports Prelude
begin

text \<open>
  The system calls the program makes on descriptors: \<^verbatim>\<open>read\<close>, \<^verbatim>\<open>write\<close>, \<^verbatim>\<open>open\<close>, \<^verbatim>\<open>lseek\<close>,
  \<^verbatim>\<open>close\<close>. The kernel's choices are data of the state: for each descriptor, what will arrive on
  it (chunks of bytes, failures, the end of the stream) and what its next writes will do (accept
  some bytes, refuse with an error; after that list everything is accepted). A theorem about a
  function of the program quantifies over these lists, so it covers every short read, short
  write, interruption and error the kernel can report in a finite run.

  \<^item> A read takes at most \<open>n\<close> bytes of the first chunk; the end of the stream is reported for
    ever; with nothing there a non-blocking socket says \<^verbatim>\<open>EAGAIN\<close> and a blocking one blocks.
  \<^item> A regular file reads and overwrites at its offset; a pending failure is reported first.
  \<^item> A descriptor that is not open (as -1) says \<^verbatim>\<open>EBADF\<close>.
\<close>

section \<open>Descriptors, files and what the kernel will do\<close>

datatype errno = EINTR | EAGAIN | EBADF | EPIPE | EOTHER

datatype arrival = Chunk "char list" | Fail errno | Eof

datatype acceptance = Accept nat | Refuse errno

datatype fd_kind = Sock bool \<comment> \<open>non-blocking?\<close> | File string nat \<comment> \<open>name and offset\<close>

record osys =
  fds :: "int \<Rightarrow> fd_kind option"
  incoming :: "int \<Rightarrow> arrival list"
  wplan :: "int \<Rightarrow> acceptance list"
  sent :: "int \<Rightarrow> char list"
  disk :: "string \<Rightarrow> char list option"
  denied :: "string \<Rightarrow> bool"
  next_fd :: int

datatype rd = RData "char list" | RErr errno | RBlock

named_theorems io_simps \<open>how system calls compute\<close>

definition file_bytes :: "osys \<Rightarrow> string \<Rightarrow> char list" where
  "file_bytes os f = (case disk os f of None \<Rightarrow> [] | Some c \<Rightarrow> c)"

definition set_incoming :: "osys \<Rightarrow> int \<Rightarrow> arrival list \<Rightarrow> osys" where
  "set_incoming os fd es = os\<lparr>incoming := (incoming os)(fd := es)\<rparr>"

definition set_wplan :: "osys \<Rightarrow> int \<Rightarrow> acceptance list \<Rightarrow> osys" where
  "set_wplan os fd ps = os\<lparr>wplan := (wplan os)(fd := ps)\<rparr>"

section \<open>Reading\<close>

fun take_arrival :: "bool \<Rightarrow> nat \<Rightarrow> arrival list \<Rightarrow> rd \<times> arrival list" where
  "take_arrival nb n [] = (if nb then RErr EAGAIN else RBlock, [])"
| "take_arrival nb n (Chunk bs # es) =
     (if bs = [] then take_arrival nb n es
      else (RData (take n bs), if length bs \<le> n then es else Chunk (drop n bs) # es))"
| "take_arrival nb n (Fail e # es) = (RErr e, es)"
| "take_arrival nb n (Eof # es) = (RData [], Eof # es)"

definition sys_read :: "osys \<Rightarrow> int \<Rightarrow> nat \<Rightarrow> rd \<times> osys" where
  "sys_read os fd n =
     (case fds os fd of
        None \<Rightarrow> (RErr EBADF, os)
      | Some (Sock nb) \<Rightarrow>
          if n = 0 then (RData [], os)
          else (let (r, es) = take_arrival nb n (incoming os fd) in (r, set_incoming os fd es))
      | Some (File f off) \<Rightarrow>
          (case incoming os fd of
             Fail e # es \<Rightarrow> (RErr e, set_incoming os fd es)
           | _ \<Rightarrow> (let bs = take n (drop off (file_bytes os f)) in
                  (RData bs, os\<lparr>fds := (fds os)(fd \<mapsto> File f (off + length bs))\<rparr>))))"

section \<open>Writing\<close>

definition overwrite :: "char list \<Rightarrow> nat \<Rightarrow> char list \<Rightarrow> char list" where
  "overwrite c off bs =
     take off c @ replicate (off - length c) NUL @ bs @ drop (off + length bs) c"

text \<open>The bytes go to the peer of a socket, or into the file at its offset.\<close>

definition accept_bytes :: "osys \<Rightarrow> int \<Rightarrow> char list \<Rightarrow> osys" where
  "accept_bytes os fd bs =
     (case fds os fd of
        None \<Rightarrow> os
      | Some (Sock _) \<Rightarrow> os\<lparr>sent := (sent os)(fd := sent os fd @ bs)\<rparr>
      | Some (File f off) \<Rightarrow>
          os\<lparr>disk := (disk os)(f \<mapsto> overwrite (file_bytes os f) off bs),
             fds := (fds os)(fd \<mapsto> File f (off + length bs))\<rparr>)"

datatype wr = WCount nat | WErr errno

definition sys_write :: "osys \<Rightarrow> int \<Rightarrow> char list \<Rightarrow> wr \<times> osys" where
  "sys_write os fd bs =
     (if fds os fd = None then (WErr EBADF, os)
      else (case wplan os fd of
        [] \<Rightarrow> (WCount (length bs), accept_bytes os fd bs)
      | Accept k # ps \<Rightarrow>
          (let n = min k (length bs) in
           (WCount n, accept_bytes (set_wplan os fd ps) fd (take n bs)))
      | Refuse e # ps \<Rightarrow> (WErr e, set_wplan os fd ps)))"

section \<open>Opening, positioning, closing\<close>

text \<open>\<^verbatim>\<open>open(name, O_CREAT | O_RDWR | O_TRUNC, mode)\<close>, the one form the program uses: the file is
  created or emptied. It fails where the name is not permitted.\<close>

definition sys_open_trunc :: "osys \<Rightarrow> string \<Rightarrow> int \<times> osys" where
  "sys_open_trunc os f =
     (if denied os f then (- 1, os)
      else (next_fd os,
            os\<lparr>disk := (disk os)(f \<mapsto> []), fds := (fds os)(next_fd os \<mapsto> File f 0),
               incoming := (incoming os)(next_fd os := []),
               wplan := (wplan os)(next_fd os := []), next_fd := next_fd os + 1\<rparr>))"

definition sys_close :: "osys \<Rightarrow> int \<Rightarrow> osys" where
  "sys_close os fd = os\<lparr>fds := (fds os)(fd := None)\<rparr>"

definition seek_start :: "osys \<Rightarrow> int \<Rightarrow> osys" where
  "seek_start os fd =
     (case fds os fd of
        Some (File f off) \<Rightarrow> os\<lparr>fds := (fds os)(fd \<mapsto> File f 0)\<rparr>
      | _ \<Rightarrow> os)"

text \<open>\<^verbatim>\<open>lseek(fd, 0, SEEK_END)\<close>: the size of the file, or -1.\<close>

definition seek_end :: "osys \<Rightarrow> int \<Rightarrow> int \<times> osys" where
  "seek_end os fd =
     (case fds os fd of
        Some (File f off) \<Rightarrow>
          (int (length (file_bytes os f)),
           os\<lparr>fds := (fds os)(fd \<mapsto> File f (length (file_bytes os f)))\<rparr>)
      | _ \<Rightarrow> (- 1, os))"

section \<open>What a call leaves alone\<close>

lemma set_incoming_simps [simp]:
  "fds (set_incoming os fd es) = fds os" "wplan (set_incoming os fd es) = wplan os"
  "sent (set_incoming os fd es) = sent os" "disk (set_incoming os fd es) = disk os"
  "denied (set_incoming os fd es) = denied os" "next_fd (set_incoming os fd es) = next_fd os"
  "incoming (set_incoming os fd es) = (incoming os)(fd := es)"
  "file_bytes (set_incoming os fd es) = file_bytes os"
  by (simp_all add: set_incoming_def file_bytes_def fun_eq_iff)

lemma set_wplan_simps [simp]:
  "fds (set_wplan os fd ps) = fds os" "incoming (set_wplan os fd ps) = incoming os"
  "sent (set_wplan os fd ps) = sent os" "disk (set_wplan os fd ps) = disk os"
  "denied (set_wplan os fd ps) = denied os" "next_fd (set_wplan os fd ps) = next_fd os"
  "wplan (set_wplan os fd ps) = (wplan os)(fd := ps)"
  "file_bytes (set_wplan os fd ps) = file_bytes os"
  by (simp_all add: set_wplan_def file_bytes_def fun_eq_iff)

lemma set_incoming_twice [simp]:
  "set_incoming (set_incoming os fd es) fd es' = set_incoming os fd es'"
  by (simp add: set_incoming_def)

lemma set_incoming_same: "incoming os fd = es \<Longrightarrow> set_incoming os fd es = os"
  by (simp add: set_incoming_def fun_upd_idem)

lemma set_wplan_twice [simp]: "set_wplan (set_wplan os fd ps) fd ps' = set_wplan os fd ps'"
  by (simp add: set_wplan_def)

lemma set_wplan_same: "wplan os fd = ps \<Longrightarrow> set_wplan os fd ps = os"
  by (simp add: set_wplan_def fun_upd_idem)

lemma accept_bytes_simps [simp]:
  "incoming (accept_bytes os fd bs) = incoming os" "wplan (accept_bytes os fd bs) = wplan os"
  "denied (accept_bytes os fd bs) = denied os" "next_fd (accept_bytes os fd bs) = next_fd os"
  "fds (accept_bytes os fd bs) fd' = None \<longleftrightarrow> fds os fd' = None"
  by (auto simp: accept_bytes_def split: option.splits fd_kind.splits)

lemma accept_bytes_sock [io_simps]:
  "fds os fd = Some (Sock nb) \<Longrightarrow>
    accept_bytes os fd bs = os\<lparr>sent := (sent os)(fd := sent os fd @ bs)\<rparr>"
  by (simp add: accept_bytes_def)

lemma accept_bytes_set_wplan:
  "set_wplan (accept_bytes os fd bs) fd' ps = accept_bytes (set_wplan os fd' ps) fd bs"
  by (cases os)
    (auto simp: accept_bytes_def set_wplan_def file_bytes_def split: option.splits fd_kind.splits)

lemma overwrite_nil [simp]: "off \<le> length c \<Longrightarrow> overwrite c off [] = c"
  by (simp add: overwrite_def)

lemma overwrite_append:
  "overwrite (overwrite c off bs) (off + length bs) cs = overwrite c off (bs @ cs)"
  by (simp add: overwrite_def min_def add.assoc add.commute add.left_commute) linarith

lemma length_overwrite: "length (overwrite c off bs) = max (length c) (off + length bs)"
  by (simp add: overwrite_def)

lemma overwrite_end: "overwrite c (length c) bs = c @ bs"
  by (simp add: overwrite_def)

lemma accept_bytes_append:
  "accept_bytes (accept_bytes os fd bs) fd cs = accept_bytes os fd (bs @ cs)"
  by (auto simp: accept_bytes_def file_bytes_def overwrite_append add.assoc
      split: option.splits fd_kind.splits)

text \<open>Offsets never pass the end of the file when nothing else shrinks it; this is what lets a
  write of no bytes change nothing.\<close>

definition offset_ok :: "osys \<Rightarrow> int \<Rightarrow> bool" where
  "offset_ok os fd \<longleftrightarrow> (case fds os fd of
     Some (File f off) \<Rightarrow> (\<exists>c. disk os f = Some c \<and> off \<le> length c) | _ \<Rightarrow> True)"

lemma accept_bytes_nil [simp]: "offset_ok os fd \<Longrightarrow> accept_bytes os fd [] = os"
  by (auto simp: accept_bytes_def offset_ok_def file_bytes_def fun_upd_idem
      split: option.splits fd_kind.splits)

lemma offset_ok_accept: "offset_ok os fd \<Longrightarrow> offset_ok (accept_bytes os fd bs) fd"
  by (auto simp: accept_bytes_def offset_ok_def length_overwrite
      split: option.splits fd_kind.splits)

lemma offset_ok_set_wplan [simp]: "offset_ok (set_wplan os fd' ps) fd = offset_ok os fd"
  by (simp add: offset_ok_def split: option.split fd_kind.split)

lemma offset_ok_set_incoming [simp]: "offset_ok (set_incoming os fd' es) fd = offset_ok os fd"
  by (simp add: offset_ok_def split: option.split fd_kind.split)

section \<open>Progress of reads and writes\<close>

text \<open>Every chunk byte and every event counts; a call that is retried uses one up.\<close>

fun arrivals_size :: "arrival list \<Rightarrow> nat" where
  "arrivals_size [] = 0"
| "arrivals_size (Chunk bs # es) = Suc (length bs) + arrivals_size es"
| "arrivals_size (_ # es) = Suc (arrivals_size es)"

definition readable :: "osys \<Rightarrow> int \<Rightarrow> nat" where
  "readable os fd = arrivals_size (incoming os fd)
     + (case fds os fd of Some (File f off) \<Rightarrow> length (file_bytes os f) - off | _ \<Rightarrow> 0)"

lemma take_arrival_data:
  "take_arrival nb n es = (RData bs, es') \<Longrightarrow> bs \<noteq> [] \<Longrightarrow> arrivals_size es' < arrivals_size es"
  by (induction nb n es rule: take_arrival.induct) (auto split: if_splits)

lemma take_arrival_retry:
  "take_arrival nb n es = (RErr e, es') \<Longrightarrow> e \<noteq> EAGAIN \<Longrightarrow> arrivals_size es' < arrivals_size es"
  by (induction nb n es rule: take_arrival.induct) (auto split: if_splits)

lemma sys_read_data_progress:
  "sys_read os fd n = (RData bs, os') \<Longrightarrow> bs \<noteq> [] \<Longrightarrow> readable os' fd < readable os fd"
  by (auto simp: sys_read_def readable_def Let_def file_bytes_def dest: take_arrival_data
      split: option.splits fd_kind.splits list.splits arrival.splits prod.splits if_splits)

lemma sys_read_retry_progress:
  "sys_read os fd n = (RErr EINTR, os') \<Longrightarrow> readable os' fd < readable os fd"
  by (auto simp: sys_read_def readable_def Let_def file_bytes_def dest: take_arrival_retry
      split: option.splits fd_kind.splits list.splits arrival.splits prod.splits if_splits)

lemma sys_read_length: "sys_read os fd n = (RData bs, os') \<Longrightarrow> length bs \<le> n"
proof -
  have "take_arrival nb n es = (RData bs, es') \<Longrightarrow> length bs \<le> n" for nb es es'
    by (induction nb n es rule: take_arrival.induct) (auto split: if_splits)
  then show "sys_read os fd n = (RData bs, os') \<Longrightarrow> length bs \<le> n"
    by (auto simp: sys_read_def Let_def
        split: option.splits fd_kind.splits list.splits arrival.splits prod.splits if_splits)
qed

lemma sys_write_progress:
  "sys_write os fd bs = (WErr e, os') \<Longrightarrow> e \<noteq> EBADF \<or> fds os fd \<noteq> None \<Longrightarrow>
    length (wplan os' fd) < length (wplan os fd)"
  by (auto simp: sys_write_def Let_def split: if_splits list.splits acceptance.splits)

lemma sys_write_count:
  "sys_write os fd bs = (WCount n, os') \<Longrightarrow> n \<le> length bs \<and>
    (length (wplan os' fd) < length (wplan os fd) \<or> wplan os' fd = [] \<and> n = length bs)"
  by (auto simp: sys_write_def Let_def split: if_splits list.splits acceptance.splits)

end
