(* ===== verification/Framing.thy ===== *)
theory Framing
  imports Sys_IO
begin

text \<open>
  The contracts of the transfer loops. Master, worker and interface each have their own loop
  that writes a whole buffer and their own loop that reads a given number of bytes; they differ
  in which errors they retry and in how they notice that they are done. \<open>full_writer\<close> and
  \<open>full_reader\<close> say what all of them promise, and the lemmas on messages (header, size, body)
  are proved here once, from the contract.
\<close>

section \<open>What a descriptor delivers and accepts\<close>

text \<open>The writes still planned on a descriptor make progress: each accepts a byte or more, or
  fails with an error the caller retries.\<close>

definition willing :: "(errno \<Rightarrow> bool) \<Rightarrow> acceptance list \<Rightarrow> bool" where
  "willing retried ps \<longleftrightarrow>
     list_all (\<lambda>a. case a of Accept k \<Rightarrow> 0 < k | Refuse e \<Rightarrow> retried e) ps"

lemma willing_Nil [simp]: "willing retried []"
  by (simp add: willing_def)

lemma willing_Cons [simp]:
  "willing retried (a # ps) \<longleftrightarrow>
    (case a of Accept k \<Rightarrow> 0 < k | Refuse e \<Rightarrow> retried e) \<and> willing retried ps"
  by (simp add: willing_def)

text \<open>The bytes a descriptor delivers to a caller that retries some errors, up to the first
  other failure or the end of the stream.\<close>

fun stream :: "(errno \<Rightarrow> bool) \<Rightarrow> arrival list \<Rightarrow> char list" where
  "stream retried [] = []"
| "stream retried (Chunk bs # es) = bs @ stream retried es"
| "stream retried (Fail e # es) = (if retried e then stream retried es else [])"
| "stream retried (Eof # es) = []"

lemma take_arrival_stream:
  assumes "take_arrival nb n es = (r, es')" "0 < n" "stream retried es \<noteq> []"
  shows "(\<exists>e. r = RErr e \<and> retried e \<and> stream retried es' = stream retried es
            \<and> arrivals_size es' < arrivals_size es)
       \<or> (\<exists>bs. r = RData bs \<and> bs \<noteq> [] \<and> length bs \<le> n
            \<and> stream retried es = bs @ stream retried es')"
  using assms
proof (induction nb n es rule: take_arrival.induct)
  case (2 nb n bs es)
  then show ?case by (cases "bs = []") (auto split: if_splits)
qed (auto split: if_splits)

lemma sys_read_stream:
  assumes "sys_read os fd n = (r, os')" "fds os fd = Some (Sock nb)" "0 < n"
    "stream retried (incoming os fd) \<noteq> []"
  obtains (retry) e es where "r = RErr e" "retried e" "os' = set_incoming os fd es"
      "stream retried es = stream retried (incoming os fd)"
      "arrivals_size es < arrivals_size (incoming os fd)"
  | (bytes) bs es where "r = RData bs" "bs \<noteq> []" "length bs \<le> n" "os' = set_incoming os fd es"
      "stream retried (incoming os fd) = bs @ stream retried es"
proof -
  obtain es where es: "take_arrival nb n (incoming os fd) = (r, es)"
    "os' = set_incoming os fd es"
    using assms(1-3) by (auto simp: sys_read_def Let_def split: prod.splits)
  from take_arrival_stream[OF es(1) assms(3,4)] es(2) show ?thesis
    by (auto intro: that)
qed

text \<open>One byte at a time, as the header and size readers go.\<close>

lemma sys_read_byte:
  assumes "sys_read os fd 1 = (r, os')" "fds os fd = Some (Sock nb)"
    "stream retried (incoming os fd) = b # bs"
  obtains (retry) e es where "r = RErr e" "retried e" "os' = set_incoming os fd es"
      "stream retried es = b # bs" "arrivals_size es < arrivals_size (incoming os fd)"
  | (byte) es where "r = RData [b]" "os' = set_incoming os fd es" "stream retried es = bs"
proof -
  have ne: "stream retried (incoming os fd) \<noteq> []" using assms(3) by simp
  from assms(1,2) zero_less_one ne show ?thesis
  proof (cases rule: sys_read_stream)
    case (retry e es)
    then show ?thesis using assms(3) by (intro that(1)) auto
  next
    case (bytes cs es)
    then obtain c where "cs = [c]" by (cases cs) auto
    with bytes assms(3) show ?thesis by (intro that(2)) auto
  qed
qed

text \<open>What one write does on an open descriptor.\<close>

lemma sys_write_cases:
  assumes "sys_write os fd bs = (r, os')" "fds os fd \<noteq> None"
  obtains (refused) e ps where "r = WErr e" "os' = set_wplan os fd ps"
      "wplan os fd = Refuse e # ps"
  | (counted) n ps where "r = WCount n" "n \<le> length bs"
      "os' = accept_bytes (set_wplan os fd ps) fd (take n bs)"
      "\<And>retried. willing retried (wplan os fd) \<Longrightarrow> willing retried ps \<and> (bs \<noteq> [] \<longrightarrow> 0 < n)"
proof (cases "wplan os fd")
  case Nil
  then have "r = WCount (length bs)" "os' = accept_bytes (set_wplan os fd []) fd bs"
    using assms by (auto simp: sys_write_def set_wplan_same)
  then show ?thesis by (intro counted[of "length bs" "[]"]) auto
next
  case (Cons a ps)
  show ?thesis
  proof (cases a)
    case (Accept k)
    then show ?thesis using assms Cons
      by (intro counted[of "min k (length bs)" ps]) (auto simp: sys_write_def Let_def)
  next
    case (Refuse e)
    then show ?thesis using assms Cons by (intro refused[of e ps]) (auto simp: sys_write_def)
  qed
qed

section \<open>More data arrives\<close>

text \<open>\<open>feed os fd es\<close>: \<open>es\<close> arrives on \<open>fd\<close> after what is already there. A call that did not stop
  for want of data does the same with more data behind; one that did, goes on with it.\<close>

definition feed :: "osys \<Rightarrow> int \<Rightarrow> arrival list \<Rightarrow> osys" where
  "feed os fd es = set_incoming os fd (incoming os fd @ es)"

lemma feed_simps [simp]:
  "fds (feed os fd es) = fds os" "wplan (feed os fd es) = wplan os" "sent (feed os fd es) = sent os"
  "disk (feed os fd es) = disk os" "denied (feed os fd es) = denied os"
  "next_fd (feed os fd es) = next_fd os" "file_bytes (feed os fd es) = file_bytes os"
  "offset_ok (feed os fd es) fd' = offset_ok os fd'"
  "incoming (feed os fd es) = (incoming os)(fd := incoming os fd @ es)"
  by (simp_all add: feed_def)

lemma feed_twice [simp]: "feed (feed os fd es) fd fs = feed os fd (es @ fs)"
  by (simp add: feed_def)

lemma feed_Nil [simp]: "feed os fd [] = os"
  by (simp add: feed_def set_incoming_same)

lemma accept_bytes_feed: "accept_bytes (feed os fd es) fd' bs = feed (accept_bytes os fd' bs) fd es"
  by (auto simp: feed_def accept_bytes_def set_incoming_def file_bytes_def
      split: option.split fd_kind.split)

lemma sys_write_feed:
  "sys_write (feed os fd es) fd' bs = (let (r, os') = sys_write os fd' bs in (r, feed os' fd es))"
proof -
  have w: "set_wplan (feed os fd es) fd' ps = feed (set_wplan os fd' ps) fd es" for ps
    by (simp add: feed_def set_wplan_def set_incoming_def)
  show ?thesis
    by (auto simp: sys_write_def accept_bytes_feed Let_def w split: list.split acceptance.split)
qed

lemma sys_open_feed:
  "next_fd os \<noteq> fd \<Longrightarrow> sys_open_trunc (feed os fd es) f
    = (let (r, os') = sys_open_trunc os f in (r, feed os' fd es))"
  by (simp add: sys_open_trunc_def feed_def set_incoming_def fun_upd_twist)

text \<open>Nothing on the descriptor claims that there is nothing on it.\<close>

definition no_false_empty :: "osys \<Rightarrow> int \<Rightarrow> bool" where
  "no_false_empty os fd \<longleftrightarrow> Fail EAGAIN \<notin> set (incoming os fd)"

lemma take_arrival_feed:
  assumes "take_arrival True n es = (r, es')" "Fail EAGAIN \<notin> set es"
  shows "(r = RErr EAGAIN \<and> es' = [] \<and> take_arrival True n (es @ fs) = take_arrival True n fs)
       \<or> (r \<noteq> RErr EAGAIN \<and> take_arrival True n (es @ fs) = (r, es' @ fs)
          \<and> Fail EAGAIN \<notin> set es')"
  using assms
proof (induction True n es rule: take_arrival.induct)
  case (2 n bs es)
  then show ?case by (cases "bs = []") (auto split: if_splits)
qed (auto split: if_splits)

lemma sys_read_feed:
  assumes "sys_read os fd n = (r, os')" "fds os fd = Some (Sock True)" "no_false_empty os fd" "0 < n"
  obtains (empty) "r = RErr EAGAIN" "sys_read (feed os fd es) fd n = sys_read (feed os' fd es) fd n"
      "fds os' fd = Some (Sock True)" "no_false_empty os' fd"
  | (same) "r \<noteq> RErr EAGAIN" "sys_read (feed os fd es) fd n = (r, feed os' fd es)"
      "fds os' fd = Some (Sock True)" "no_false_empty os' fd"
proof -
  obtain fs where fs: "take_arrival True n (incoming os fd) = (r, fs)" "os' = set_incoming os fd fs"
    using assms(1,2,4) by (auto simp: sys_read_def Let_def split: prod.splits)
  from take_arrival_feed[OF fs(1), of es] assms(3) fs(2) assms(2,4) show ?thesis
    by (auto simp: no_false_empty_def sys_read_def feed_def split: prod.splits
        intro: empty same)
qed

section \<open>Loops that write a whole buffer\<close>

locale full_writer =
  fixes wr :: "osys \<Rightarrow> int \<Rightarrow> char list \<Rightarrow> int \<times> osys"
    and retried :: "errno \<Rightarrow> bool"
  assumes complete: "fds os fd \<noteq> None \<Longrightarrow> offset_ok os fd \<Longrightarrow> willing retried (wplan os fd) \<Longrightarrow>
        \<exists>ps. wr os fd bs = (int (length bs), accept_bytes (set_wplan os fd ps) fd bs)
           \<and> willing retried ps"
    and prefix: "fds os fd \<noteq> None \<Longrightarrow> offset_ok os fd \<Longrightarrow> wr os fd bs = (r, os') \<Longrightarrow>
        \<exists>n ps. n \<le> length bs \<and> os' = accept_bytes (set_wplan os fd ps) fd (take n bs)
           \<and> (r = - 1 \<or> r = int n)"
begin

text \<open>A full return value means that every byte went out, whatever the kernel did.\<close>

lemma full_count:
  assumes "fds os fd \<noteq> None" "offset_ok os fd" "wr os fd bs = (int (length bs), os')"
  shows "\<exists>ps. os' = accept_bytes (set_wplan os fd ps) fd bs"
  using prefix[OF assms] by auto

text \<open>Two buffers, one after the other.\<close>

lemma complete_two:
  assumes "fds os fd \<noteq> None" "offset_ok os fd" "willing retried (wplan os fd)"
  shows "\<exists>os1 ps. wr os fd as = (int (length as), os1)
    \<and> wr os1 fd bs = (int (length bs), accept_bytes (set_wplan os fd ps) fd (as @ bs))
    \<and> fds os1 fd \<noteq> None \<and> offset_ok os1 fd \<and> willing retried ps"
proof -
  obtain ps where ps: "wr os fd as = (int (length as), accept_bytes (set_wplan os fd ps) fd as)"
    "willing retried ps" using complete[OF assms] by blast
  let ?os = "accept_bytes (set_wplan os fd ps) fd as"
  have ok: "fds ?os fd \<noteq> None" "offset_ok ?os fd" "willing retried (wplan ?os fd)"
    using assms(1,2) ps(2) by (auto simp: offset_ok_accept)
  obtain qs where "wr ?os fd bs = (int (length bs), accept_bytes (set_wplan ?os fd qs) fd bs)"
    "willing retried qs" using complete[OF ok] by blast
  with ps(1) ok show ?thesis
    by (intro exI[of _ ?os] exI[of _ qs])
      (simp_all add: accept_bytes_set_wplan accept_bytes_append)
qed

end

section \<open>Loops that read a given number of bytes\<close>

locale full_reader =
  fixes rdr :: "osys \<Rightarrow> int \<Rightarrow> nat \<Rightarrow> (int \<times> char list \<times> osys) res"
    and retried :: "errno \<Rightarrow> bool"
  assumes complete: "fds os fd = Some (Sock nb) \<Longrightarrow> n \<le> length (stream retried (incoming os fd)) \<Longrightarrow>
        \<exists>es. rdr os fd n = Inr (int n, take n (stream retried (incoming os fd)), set_incoming os fd es)
           \<and> stream retried es = drop n (stream retried (incoming os fd))"
    and bounded: "rdr os fd n = Inr (r, bs, os') \<Longrightarrow> length bs \<le> n \<and> (r = - 1 \<or> r = int (length bs))"
begin

text \<open>A field of fixed width followed by the rest of the message.\<close>

lemma read_field:
  assumes "fds os fd = Some (Sock nb)" "stream retried (incoming os fd) = as @ bs"
  shows "\<exists>es. rdr os fd (length as) = Inr (int (length as), as, set_incoming os fd es)
    \<and> stream retried es = bs"
  using complete[OF assms(1), of "length as"] assms(2) by auto

text \<open>A size and then that many bytes: the frame all three programs use.\<close>

lemma read_frame:
  assumes "fds os fd = Some (Sock nb)"
    "stream retried (incoming os fd) = size_bytes w @ bs @ rest" "unat w = length bs"
  shows "\<exists>es es'. rdr os fd 8 = Inr (8, size_bytes w, set_incoming os fd es)
    \<and> rdr (set_incoming os fd es) fd (length bs)
        = Inr (int (length bs), bs, set_incoming os fd es')
    \<and> stream retried es' = rest"
proof -
  obtain es where es: "rdr os fd 8 = Inr (8, size_bytes w, set_incoming os fd es)"
    "stream retried es = bs @ rest"
    using read_field[OF assms(1,2)] by auto
  have "fds (set_incoming os fd es) fd = Some (Sock nb)"
    "stream retried (incoming (set_incoming os fd es) fd) = bs @ rest"
    using assms(1) es(2) by simp_all
  from read_field[OF this] es(1) show ?thesis by auto
qed

end

end
