(* ===== verification/Vector.thy ===== *)
theory Vector
  imports Prelude
begin

text \<open>
  \<^verbatim>\<open>vector.c\<close>: the growable array of \<^verbatim>\<open>void*\<close>. A vector is a record with the fields of the C
  struct; the array is the list of its cells, as many as were allocated. The three callbacks of
  the client (copy constructor, destructor, default constructor) act on a client state of any
  type \<open>'s\<close>, which the operations thread in the order in which the code makes the calls.
  Sizes and positions are 64-bit words, so that \<^verbatim>\<open>n-1\<close> wraps where the code lets it wrap. An
  access outside the array is the fault \<open>Out_of_bounds\<close>, and the doubling loop of
  \<^verbatim>\<open>get_new_capacity\<close>, which does not always end, has an optional result.

  After the operations come the contract of a vector (\<open>vec_ok\<close>, and what each operation does to
  the list \<open>vlist v\<close> of its elements) and the interface \<open>sequence\<close> that the other components use.
\<close>

section \<open>The struct and its memory\<close>

record 's vector =
  copy_constructor :: "ptr \<Rightarrow> 's \<Rightarrow> ptr \<times> 's"
  destructor :: "ptr \<Rightarrow> 's \<Rightarrow> 's"
  default_constructor :: "'s \<Rightarrow> ptr \<times> 's"
  array :: "ptr list"
  v_size :: size_t
  capacity :: size_t

definition shallow_copy_constructor :: "ptr \<Rightarrow> 's \<Rightarrow> ptr \<times> 's" where
  "shallow_copy_constructor elem s = (elem, s)"

definition shallow_destructor :: "ptr \<Rightarrow> 's \<Rightarrow> 's" where
  "shallow_destructor elem s = s"

definition shallow_default_constructor :: "'s \<Rightarrow> ptr \<times> 's" where
  "shallow_default_constructor s = (NULL, s)"

definition INITIAL_CAPACITY :: size_t where "INITIAL_CAPACITY = 10"
definition GROWTH_FACTOR :: size_t where "GROWTH_FACTOR = 2"

text \<open>Reading and writing \<^verbatim>\<open>array[i]\<close>.\<close>

definition cell :: "'s vector \<Rightarrow> size_t \<Rightarrow> ptr res" where
  "cell v i = (if unat i < length (array v) then Inr (array v ! unat i) else Inl Out_of_bounds)"

definition set_cell :: "'s vector \<Rightarrow> size_t \<Rightarrow> ptr \<Rightarrow> 's vector res" where
  "set_cell v i p =
     (if unat i < length (array v) then Inr (v\<lparr>array := (array v)[unat i := p]\<rparr>)
      else Inl Out_of_bounds)"

text \<open>\<^verbatim>\<open>realloc(array, bytes)\<close>. The contents of fresh cells are indeterminate in C; the code writes
  \<open>NULL\<close> to each of them before anything reads it, so the value chosen here is never seen.\<close>

definition realloc_cells :: "size_t \<Rightarrow> ptr list \<Rightarrow> ptr list" where
  "realloc_cells bytes xs =
     (let k = unat bytes div 8 in take k xs @ replicate (k - length xs) NULL)"

text \<open>\<^verbatim>\<open>memmove(array + dst, array + src, bytes)\<close>: both blocks must lie inside the array.\<close>

definition memmove_cells :: "nat \<Rightarrow> nat \<Rightarrow> size_t \<Rightarrow> ptr list \<Rightarrow> ptr list res" where
  "memmove_cells dst src bytes xs =
     (let k = unat bytes div 8 in
      if src + k \<le> length xs \<and> dst + k \<le> length xs
      then Inr (take dst xs @ take k (drop src xs) @ drop (dst + k) xs)
      else Inl Out_of_bounds)"

text \<open>\<^verbatim>\<open>for (i = from; i < to; i++) array[i] = 0;\<close>\<close>

function null_cells :: "size_t \<Rightarrow> size_t \<Rightarrow> ptr list \<Rightarrow> ptr list res" where
  "null_cells i n xs =
     (if i < n then
        if unat i < length xs then null_cells (i + 1) n (xs[unat i := NULL])
        else Inl Out_of_bounds
      else Inr xs)"
  by pat_completeness auto
termination
  by (relation "measure (\<lambda>(i, n, xs). unat n - unat i)")
    (auto simp: unat_suc word_less_nat_alt)

declare null_cells.simps [simp del]

section \<open>The operations\<close>

subsection \<open>Capacity\<close>

text \<open>\<^verbatim>\<open>while (new_capacity < target) new_capacity *= GROWTH_FACTOR;\<close>\<close>

partial_function (option) new_capacity_loop :: "size_t \<Rightarrow> size_t \<Rightarrow> size_t option" where
  "new_capacity_loop new_capacity target =
     (if new_capacity < target then new_capacity_loop (new_capacity * GROWTH_FACTOR) target
      else Some new_capacity)"

definition get_new_capacity :: "size_t \<Rightarrow> size_t option" where
  "get_new_capacity target = new_capacity_loop 1 target"

definition vector_reserve :: "'s vector \<Rightarrow> size_t \<Rightarrow> 's vector res" where
  "vector_reserve this n =
     (if capacity this < n then
        bindr (or_fault Diverges (get_new_capacity n)) (\<lambda>newcap.
        bindr (null_cells (capacity this) newcap (realloc_cells (newcap * 8) (array this))) (\<lambda>xs.
        Inr (this\<lparr>array := xs, capacity := newcap\<rparr>)))
      else Inr this)"

subsection \<open>Creation and destruction\<close>

definition vector_create ::
  "(ptr \<Rightarrow> 's \<Rightarrow> ptr \<times> 's) option \<Rightarrow> (ptr \<Rightarrow> 's \<Rightarrow> 's) option \<Rightarrow> ('s \<Rightarrow> ptr \<times> 's) option
    \<Rightarrow> 's vector res" where
  "vector_create copy destr deflt =
     bindr (null_cells 0 INITIAL_CAPACITY (realloc_cells (INITIAL_CAPACITY * 8) [])) (\<lambda>xs.
     Inr \<lparr>copy_constructor = (case copy of None \<Rightarrow> shallow_copy_constructor | Some f \<Rightarrow> f),
          destructor = (case destr of None \<Rightarrow> shallow_destructor | Some f \<Rightarrow> f),
          default_constructor =
            (case deflt of None \<Rightarrow> shallow_default_constructor | Some f \<Rightarrow> f),
          array = xs, v_size = 0, capacity = INITIAL_CAPACITY\<rparr>)"

text \<open>\<^verbatim>\<open>for (i = 0; i < size; i++) destructor(array[i]);\<close> The vector itself is freed afterwards, so
  what is left is the client's state.\<close>

function destroy_loop :: "'s vector \<Rightarrow> size_t \<Rightarrow> 's \<Rightarrow> 's res" where
  "destroy_loop this i s =
     (if i < v_size this then
        bindr (cell this i) (\<lambda>p. destroy_loop this (i + 1) (destructor this p s))
      else Inr s)"
  by pat_completeness auto
termination
  by (relation "measure (\<lambda>(this, i, s). unat (v_size this) - unat i)")
    (auto simp: unat_suc word_less_nat_alt)

declare destroy_loop.simps [simp del]

definition vector_destroy :: "'s vector \<Rightarrow> 's \<Rightarrow> 's res" where
  "vector_destroy this s = destroy_loop this 0 s"

subsection \<open>Positions\<close>

text \<open>A \<^verbatim>\<open>void**\<close> into the array is the index of its cell; \<^verbatim>\<open>array - 1\<close> is index \<open>2 ^ 64 - 1\<close>.\<close>

definition vector_begin :: "'s vector \<Rightarrow> size_t" where "vector_begin this = 0"
definition vector_end :: "'s vector \<Rightarrow> size_t" where "vector_end this = v_size this"
definition vector_size :: "'s vector \<Rightarrow> size_t" where "vector_size this = v_size this"
definition vector_capacity :: "'s vector \<Rightarrow> size_t" where "vector_capacity this = capacity this"
definition vector_empty :: "'s vector \<Rightarrow> bool" where "vector_empty this \<longleftrightarrow> v_size this = 0"
definition vector_at :: "'s vector \<Rightarrow> size_t \<Rightarrow> size_t" where "vector_at this position = position"
definition vector_front :: "'s vector \<Rightarrow> size_t" where "vector_front this = 0"
definition vector_back :: "'s vector \<Rightarrow> size_t" where "vector_back this = v_size this - 1"

subsection \<open>Elements\<close>

definition vector_get :: "'s vector \<Rightarrow> size_t \<Rightarrow> ptr res" where
  "vector_get this position = cell this position"

definition vector_set :: "'s vector \<Rightarrow> size_t \<Rightarrow> ptr \<Rightarrow> 's \<Rightarrow> ('s vector \<times> 's) res" where
  "vector_set this position element s =
     bindr (cell this position) (\<lambda>old.
       let (p, s') = copy_constructor this element (destructor this old s) in
       bindr (set_cell this position p) (\<lambda>this'. Inr (this', s')))"

definition vector_push_back :: "'s vector \<Rightarrow> ptr \<Rightarrow> 's \<Rightarrow> ('s vector \<times> 's) res" where
  "vector_push_back this element s =
     (let newsize = v_size this + 1 in
      bindr (if capacity this < newsize then vector_reserve this newsize else Inr this) (\<lambda>this.
        let (p, s') = copy_constructor this element s in
        bindr (set_cell this (vector_end this) p) (\<lambda>this.
        Inr (this\<lparr>v_size := v_size this + 1\<rparr>, s'))))"

definition vector_pop_back :: "'s vector \<Rightarrow> 's \<Rightarrow> ('s vector \<times> 's) res" where
  "vector_pop_back this s =
     (if vector_empty this then Inr (this, s)
      else bindr (cell this (v_size this - 1)) (\<lambda>p.
        bindr (set_cell this (v_size this - 1) NULL) (\<lambda>this'.
        Inr (this'\<lparr>v_size := v_size this' - 1\<rparr>, destructor this p s))))"

definition vector_insert :: "'s vector \<Rightarrow> size_t \<Rightarrow> ptr \<Rightarrow> 's \<Rightarrow> ('s vector \<times> 's) res" where
  "vector_insert this position element s =
     (let newsize = v_size this + 1 in
      bindr (if capacity this < newsize then vector_reserve this newsize else Inr this) (\<lambda>this.
      bindr (if position < v_size this
             then bindr (memmove_cells (unat position + 1) (unat position)
                           ((v_size this - position) * 8) (array this))
                    (\<lambda>xs. Inr (this\<lparr>array := xs\<rparr>))
             else Inr this) (\<lambda>this.
        let (p, s') = copy_constructor this element s in
        bindr (set_cell this position p) (\<lambda>this.
        Inr (this\<lparr>v_size := v_size this + 1\<rparr>, s')))))"

definition vector_erase :: "'s vector \<Rightarrow> size_t \<Rightarrow> 's \<Rightarrow> ('s vector \<times> 's) res" where
  "vector_erase this position s =
     (if position = v_size this - 1 then vector_pop_back this s
      else bindr (cell this position) (\<lambda>p.
        bindr (set_cell this position NULL) (\<lambda>this.
        bindr (memmove_cells (unat position) (unat position + 1)
                 ((v_size this - position - 1) * 8) (array this)) (\<lambda>xs.
        bindr (set_cell (this\<lparr>array := xs\<rparr>) (v_size this - 1) NULL) (\<lambda>this.
        Inr (this\<lparr>v_size := v_size this - 1\<rparr>, destructor this p s))))))"

subsection \<open>Bulk operations\<close>

text \<open>\<^verbatim>\<open>for (i = size - 1; i > n-1; i--) { destructor(array[i]); array[i] = 0; }\<close>, with
  \<open>bound\<close> for \<^verbatim>\<open>n-1\<close>.\<close>

function shrink_loop :: "size_t \<Rightarrow> size_t \<Rightarrow> 's vector \<Rightarrow> 's \<Rightarrow> ('s vector \<times> 's) res" where
  "shrink_loop i bound this s =
     (if bound < i then
        bindr (cell this i) (\<lambda>p.
        bindr (set_cell this i NULL) (\<lambda>this'.
        shrink_loop (i - 1) bound this' (destructor this p s)))
      else Inr (this, s))"
  by pat_completeness auto
termination
  by (relation "measure (\<lambda>(i, bound, this, s). unat i)") (auto intro!: measure_unat)

declare shrink_loop.simps [simp del]

text \<open>\<^verbatim>\<open>for (i = size; i < n; i++) array[i] = default_constructor();\<close>\<close>

function extend_loop :: "size_t \<Rightarrow> size_t \<Rightarrow> 's vector \<Rightarrow> 's \<Rightarrow> ('s vector \<times> 's) res" where
  "extend_loop i n this s =
     (if i < n then
        let (p, s') = default_constructor this s in
        bindr (set_cell this i p) (\<lambda>this'. extend_loop (i + 1) n this' s')
      else Inr (this, s))"
  by pat_completeness auto
termination
  by (relation "measure (\<lambda>(i, n, this, s). unat n - unat i)")
    (auto simp: unat_suc word_less_nat_alt)

declare extend_loop.simps [simp del]

definition vector_resize :: "'s vector \<Rightarrow> size_t \<Rightarrow> 's \<Rightarrow> ('s vector \<times> 's) res" where
  "vector_resize this n s =
     (if n = v_size this then Inr (this, s)
      else bindr
        (if n < v_size this then shrink_loop (v_size this - 1) (n - 1) this s
         else bindr (if capacity this < n then vector_reserve this n else Inr this) (\<lambda>this.
              extend_loop (v_size this) n this s))
        (\<lambda>(this, s). Inr (this\<lparr>v_size := n\<rparr>, s)))"

text \<open>\<^verbatim>\<open>for (i = 0; i < size; i++) { destructor(array[i]); array[i] = 0; }\<close>\<close>

function clear_loop :: "size_t \<Rightarrow> 's vector \<Rightarrow> 's \<Rightarrow> ('s vector \<times> 's) res" where
  "clear_loop i this s =
     (if i < v_size this then
        bindr (cell this i) (\<lambda>p.
        bindr (set_cell this i NULL) (\<lambda>this'.
        clear_loop (i + 1) this' (destructor this p s)))
      else Inr (this, s))"
  by pat_completeness auto
termination
  by (relation "measure (\<lambda>(i, this, s). unat (v_size this) - unat i)")
    (auto simp: unat_suc word_less_nat_alt set_cell_def split: if_splits)

declare clear_loop.simps [simp del]

definition vector_clear :: "'s vector \<Rightarrow> 's \<Rightarrow> ('s vector \<times> 's) res" where
  "vector_clear this s = bindr (clear_loop 0 this s) (\<lambda>(this, s). Inr (this\<lparr>v_size := 0\<rparr>, s))"

section \<open>Capacity: least power of two, or no end\<close>

lemma new_capacity_loop_ends:
  assumes "j \<le> 63" "unat target \<le> 2 ^ 63"
  shows "\<exists>k. j \<le> k \<and> k \<le> 63 \<and> new_capacity_loop (2 ^ j) target = Some (2 ^ k)
    \<and> unat target \<le> 2 ^ k \<and> (k = j \<or> 2 ^ (k - 1) < unat target)"
  using assms
proof (induction "63 - j" arbitrary: j)
  case 0
  then have "j = 63" by simp
  moreover have "\<not> (2 ^ 63 :: size_t) < target"
    using 0 by (simp add: word_less_nat_alt)
  ultimately show ?case
    using 0 by (subst new_capacity_loop.simps) auto
next
  case (Suc d)
  have pow: "unat (2 ^ j :: size_t) = 2 ^ j"
    using Suc.hyps by (simp add: unat_pow2)
  show ?case
  proof (cases "(2 ^ j :: size_t) < target")
    case True
    have "d = 63 - Suc j" "Suc j \<le> 63" using Suc.hyps(2) by simp_all
    from Suc.hyps(1)[OF this Suc.prems(2)] obtain k where k: "Suc j \<le> k" "k \<le> 63"
      "new_capacity_loop (2 ^ Suc j) target = Some (2 ^ k)" "unat target \<le> 2 ^ k"
      "k = Suc j \<or> 2 ^ (k - 1) < unat target" by blast
    have "2 ^ j < unat target" using True pow by (simp add: word_less_nat_alt)
    with k True show ?thesis
      by (subst new_capacity_loop.simps)
        (auto simp: GROWTH_FACTOR_def mult.commute intro!: exI[of _ k])
  next
    case False
    then have "unat target \<le> 2 ^ j" using pow by (simp add: word_less_nat_alt)
    with False show ?thesis
      using Suc.prems by (subst new_capacity_loop.simps) auto
  qed
qed

lemma pow2_word_cases:
  "(c :: size_t) = 0 \<or> (\<exists>k<64. c = 2 ^ k) \<Longrightarrow> c * 2 = 0 \<or> (\<exists>k<64. c * 2 = 2 ^ k)"
proof (elim disjE exE conjE)
  fix k :: nat assume "k < 64" "c = 2 ^ k"
  then show ?thesis
    by (cases "k = 63") (auto intro!: exI[of _ "Suc k"])
qed simp

lemma new_capacity_loop_returns:
  assumes "new_capacity_loop c t = Some r"
  shows "c = 0 \<or> (\<exists>k<64. c = 2 ^ k) \<longrightarrow> unat t \<le> 2 ^ 63"
proof (rule new_capacity_loop.raw_induct
    [where P = "\<lambda>c t r. c = 0 \<or> (\<exists>k<64. c = 2 ^ k) \<longrightarrow> unat t \<le> 2 ^ 63", OF _ assms])
  fix f :: "size_t \<Rightarrow> size_t \<Rightarrow> size_t option" and c t r
  assume IH: "\<And>c t r. f c t = Some r \<Longrightarrow> c = 0 \<or> (\<exists>k<64. c = 2 ^ k) \<longrightarrow> unat t \<le> 2 ^ 63"
    and eq: "(if c < t then f (c * GROWTH_FACTOR) t else Some c) = Some r"
  show "c = 0 \<or> (\<exists>k<64. c = 2 ^ k) \<longrightarrow> unat t \<le> 2 ^ 63"
  proof (cases "c < t")
    case True
    with eq IH have "c * 2 = 0 \<or> (\<exists>k<64. c * 2 = 2 ^ k) \<longrightarrow> unat t \<le> 2 ^ 63"
      by (simp add: GROWTH_FACTOR_def)
    then show ?thesis using pow2_word_cases[of c] by blast
  next
    case False
    then have le: "unat t \<le> unat c" by (simp add: word_less_nat_alt)
    have "unat c \<le> 2 ^ 63" if "k < 64" "c = 2 ^ k" for k
    proof -
      have "unat c = 2 ^ k" using that by (simp add: unat_pow2)
      also have "\<dots> \<le> 2 ^ 63" using that by (intro power_increasing) auto
      finally show ?thesis .
    qed
    then show ?thesis using le by force
  qed
qed

lemma get_new_capacity_least:
  assumes "unat target \<le> 2 ^ 63"
  obtains k where "get_new_capacity target = Some (2 ^ k)" "k \<le> 63"
    "unat target \<le> 2 ^ k" "k = 0 \<or> 2 ^ (k - 1) < unat target"
  using new_capacity_loop_ends[of 0 target] assms by (auto simp: get_new_capacity_def)

lemma get_new_capacity_None: "2 ^ 63 < unat target \<Longrightarrow> get_new_capacity target = None"
proof (rule ccontr)
  assume big: "2 ^ 63 < unat target" and "get_new_capacity target \<noteq> None"
  then obtain r where "new_capacity_loop 1 target = Some r"
    by (auto simp: get_new_capacity_def)
  from new_capacity_loop_returns[OF this] have "unat target \<le> 2 ^ 63"
    by (auto intro: exI[of _ 0])
  with big show False by simp
qed

section \<open>The contract of a vector\<close>

text \<open>The elements are the first \<open>v_size\<close> cells. A well-formed vector owns exactly \<open>capacity\<close>
  cells, few enough that the byte count of the array does not wrap, and the cells after the last
  element hold \<open>NULL\<close>.\<close>

definition vlist :: "'s vector \<Rightarrow> ptr list" where
  "vlist v = take (unat (v_size v)) (array v)"

definition vec_ok :: "'s vector \<Rightarrow> bool" where
  "vec_ok v \<longleftrightarrow> length (array v) = unat (capacity v) \<and> unat (v_size v) \<le> unat (capacity v)
     \<and> unat (capacity v) \<le> 2 ^ 60
     \<and> (\<forall>p \<in> set (drop (unat (v_size v)) (array v)). p = NULL)"

definition same_callbacks :: "'s vector \<Rightarrow> 's vector \<Rightarrow> bool" where
  "same_callbacks v v' \<longleftrightarrow> copy_constructor v' = copy_constructor v
     \<and> destructor v' = destructor v \<and> default_constructor v' = default_constructor v"

lemma same_callbacks_refl [simp]: "same_callbacks v v"
  by (simp add: same_callbacks_def)

lemma same_callbacks_upd [simp]:
  "same_callbacks v (v'\<lparr>array := xs\<rparr>) = same_callbacks v v'"
  "same_callbacks v (v'\<lparr>v_size := n\<rparr>) = same_callbacks v v'"
  "same_callbacks v (v'\<lparr>capacity := n\<rparr>) = same_callbacks v v'"
  by (simp_all add: same_callbacks_def)

lemma vec_okE:
  assumes "vec_ok v"
  obtains m where "array v = vlist v @ replicate m NULL" "unat (v_size v) = length (vlist v)"
    "unat (capacity v) = length (vlist v) + m" "length (vlist v) + m \<le> 2 ^ 60"
proof -
  let ?n = "unat (v_size v)" and ?m = "unat (capacity v) - unat (v_size v)"
  have "drop ?n (array v) = replicate ?m NULL"
    using assms by (auto simp: vec_ok_def intro!: replicate_eqI)
  then have "array v = vlist v @ replicate ?m NULL"
    by (metis append_take_drop_id vlist_def)
  moreover have "?n = length (vlist v)" using assms by (simp add: vec_ok_def vlist_def)
  ultimately show ?thesis using assms by (intro that[of ?m]) (auto simp: vec_ok_def)
qed

lemma vec_okI:
  assumes "array v = xs @ replicate m NULL" "unat (v_size v) = length xs"
    "unat (capacity v) = length xs + m" "length xs + m \<le> 2 ^ 60"
  shows "vec_ok v" "vlist v = xs"
  using assms by (auto simp: vec_ok_def vlist_def)

lemma vec_ok_size: "vec_ok v \<Longrightarrow> unat (v_size v) = length (vlist v)"
  by (auto elim: vec_okE)

lemma vec_ok_length: "vec_ok v \<Longrightarrow> length (vlist v) \<le> 2 ^ 60"
  by (auto elim: vec_okE)

text \<open>Cells of a well-formed vector.\<close>

lemma cell_elem: "vec_ok v \<Longrightarrow> unat i < length (vlist v) \<Longrightarrow> cell v i = Inr (vlist v ! unat i)"
  by (erule vec_okE) (simp add: cell_def nth_append)

lemma null_cells_run:
  "unat i \<le> unat n \<Longrightarrow> unat n \<le> length xs \<Longrightarrow>
    null_cells i n xs =
      Inr (take (unat i) xs @ replicate (unat n - unat i) NULL @ drop (unat n) xs)"
proof (induction i n xs rule: null_cells.induct)
  case (1 i n xs)
  show ?case
  proof (cases "i < n")
    case True
    then have lt: "unat i < unat n" by (simp add: word_less_nat_alt)
    with "1.prems" have inb: "unat i < length xs" by simp
    have su: "unat (i + 1) = Suc (unat i)" using True by (rule unat_suc)
    have "null_cells i n xs = null_cells (i + 1) n (xs[unat i := NULL])"
      using True inb by (subst null_cells.simps) simp
    also have "\<dots> = Inr (take (Suc (unat i)) (xs[unat i := NULL])
        @ replicate (unat n - Suc (unat i)) NULL @ drop (unat n) (xs[unat i := NULL]))"
      using "1.IH"[OF True inb] lt "1.prems" su by simp
    also have "take (Suc (unat i)) (xs[unat i := NULL]) = take (unat i) xs @ [NULL]"
      using inb by (simp add: take_Suc_conv_app_nth)
    also have "drop (unat n) (xs[unat i := NULL]) = drop (unat n) xs"
      using lt by simp
    also have "(take (unat i) xs @ [NULL]) @ replicate (unat n - Suc (unat i)) NULL
        @ drop (unat n) xs =
      take (unat i) xs @ replicate (Suc (unat n - Suc (unat i))) NULL @ drop (unat n) xs"
      by simp
    also have "Suc (unat n - Suc (unat i)) = unat n - unat i" using lt by simp
    finally show ?thesis .
  next
    case False
    with "1.prems" have "unat i = unat n" by (simp add: word_less_nat_alt)
    with False show ?thesis by (subst null_cells.simps) simp
  qed
qed

lemma null_cells_out_of_bounds:
  "length xs \<le> unat i \<Longrightarrow> i < n \<Longrightarrow> null_cells i n xs = Inl Out_of_bounds"
  by (subst null_cells.simps) simp

text \<open>\<^verbatim>\<open>vector_reserve\<close>: up to \<open>2 ^ 60\<close> elements it succeeds and keeps the elements; past that the
  byte count wraps to 0 and the clearing loop writes outside the array.\<close>

lemma vector_reserve_ok:
  assumes "vec_ok v" "unat n \<le> 2 ^ 60"
  obtains v' where "vector_reserve v n = Inr v'" "vec_ok v'" "vlist v' = vlist v"
    "v_size v' = v_size v" "unat n \<le> unat (capacity v')" "same_callbacks v v'"
proof (cases "capacity v < n")
  case False
  then show ?thesis using assms by (intro that[of v]) (auto simp: vector_reserve_def word_less_nat_alt)
next
  case True
  have "unat n \<le> 2 ^ 63" using assms(2) by simp
  then obtain k where k: "get_new_capacity n = Some (2 ^ k)" "unat n \<le> 2 ^ k"
    "k = 0 \<or> 2 ^ (k - 1) < unat n" and "k \<le> 63"
    by (rule get_new_capacity_least)
  have k60: "k \<le> 60"
  proof (rule ccontr)
    assume "\<not> k \<le> 60"
    then have "(2::nat) ^ 60 \<le> 2 ^ (k - 1)" by (intro power_increasing) auto
    with k(3) assms(2) \<open>\<not> k \<le> 60\<close> show False by auto
  qed
  let ?c = "2 ^ k :: size_t"
  have uc: "unat ?c = 2 ^ k" using k60 by (simp add: unat_pow2)
  have le60: "(2::nat) ^ k \<le> 2 ^ 60" using k60 by (intro power_increasing) auto
  then have bytes: "unat (?c * 8) div 8 = 2 ^ k"
    using uc by (subst unat_mult_small) auto
  obtain m where m: "array v = vlist v @ replicate m NULL" "unat (v_size v) = length (vlist v)"
    "unat (capacity v) = length (vlist v) + m" "length (vlist v) + m \<le> 2 ^ 60"
    using assms(1) by (rule vec_okE)
  have cap: "length (vlist v) + m < 2 ^ k"
    using True k(2) m(3) by (simp add: word_less_nat_alt)
  obtain r where r: "2 ^ k = length (vlist v) + m + r"
    using less_imp_le_nat[OF cap] by (auto simp: le_iff_add)
  have xs: "realloc_cells (?c * 8) (array v) = array v @ replicate r NULL"
    using r by (simp add: realloc_cells_def Let_def bytes m(1))
  have uc': "unat ?c = length (vlist v) + m + r" using uc r by simp
  have "null_cells (capacity v) ?c (array v @ replicate r NULL)
      = Inr (take (unat (capacity v)) (array v @ replicate r NULL)
          @ replicate (unat ?c - unat (capacity v)) NULL
          @ drop (unat ?c) (array v @ replicate r NULL))"
    by (rule null_cells_run) (simp_all only: m(1,3) uc', simp_all)
  also have "\<dots> = Inr (vlist v @ replicate (m + r) NULL)"
    by (simp only: m(1,3) uc') (simp add: replicate_add)
  finally have "null_cells (capacity v) ?c (array v @ replicate r NULL)
      = Inr (vlist v @ replicate (m + r) NULL)" .
  then have res: "vector_reserve v n
      = Inr (v\<lparr>array := vlist v @ replicate (m + r) NULL, capacity := ?c\<rparr>)"
    using True k(1) xs by (simp add: vector_reserve_def)
  let ?v = "v\<lparr>array := vlist v @ replicate (m + r) NULL, capacity := ?c\<rparr>"
  have "vec_ok ?v"
    by (rule vec_okI(1)[where m = "m + r"]) (use m(2) uc le60 r in auto)
  moreover have "vlist ?v = vlist v"
    by (rule vec_okI(2)[where m = "m + r"]) (use m(2) uc le60 r in auto)
  ultimately show ?thesis using res k(2) uc by (intro that[of ?v]) auto
qed

lemma drop_length_last: "ys \<noteq> [] \<Longrightarrow> drop (length ys) (x # ys @ zs) = last ys # zs"
  by (cases ys rule: rev_cases) auto

lemma memmove_down:
  "unat bytes = length ys * 8 \<Longrightarrow> ys \<noteq> [] \<Longrightarrow>
    memmove_cells (length xs) (length xs + 1) bytes (xs @ x # ys @ zs)
      = Inr (xs @ ys @ last ys # zs)"
  by (simp add: memmove_cells_def drop_length_last)

lemma unat_size_suc: "vec_ok v \<Longrightarrow> unat (v_size v + 1) = Suc (length (vlist v))"
  using vec_ok_length[of v] by (subst unat_add_small) (auto simp: vec_ok_size)

text \<open>Making room for one element, as \<^verbatim>\<open>vector_push_back\<close> and \<^verbatim>\<open>vector_insert\<close> do.\<close>

lemma make_room:
  assumes "vec_ok v" "length (vlist v) < 2 ^ 60"
  obtains v' m where
    "(if capacity v < v_size v + 1 then vector_reserve v (v_size v + 1) else Inr v) = Inr v'"
    "same_callbacks v v'" "v_size v' = v_size v"
    "array v' = vlist v @ NULL # replicate m NULL"
    "unat (capacity v') = Suc (length (vlist v) + m)" "Suc (length (vlist v) + m) \<le> 2 ^ 60"
proof -
  let ?n = "v_size v + 1"
  have n: "unat ?n = Suc (length (vlist v))" using assms(1) by (rule unat_size_suc)
  have "\<exists>v'. (if capacity v < ?n then vector_reserve v ?n else Inr v) = Inr v' \<and> vec_ok v'
    \<and> vlist v' = vlist v \<and> v_size v' = v_size v \<and> unat ?n \<le> unat (capacity v')
    \<and> same_callbacks v v'"
  proof (cases "capacity v < ?n")
    case True
    from n assms(2) have "unat ?n \<le> 2 ^ 60" by simp
    with assms(1) show ?thesis
      by (rule vector_reserve_ok[of v ?n]) (use True in auto)
  next
    case False
    with assms(1) show ?thesis by (auto simp: word_less_nat_alt)
  qed
  then obtain v' where v': "(if capacity v < ?n then vector_reserve v ?n else Inr v) = Inr v'"
    "vec_ok v'" "vlist v' = vlist v" "v_size v' = v_size v" "unat ?n \<le> unat (capacity v')"
    "same_callbacks v v'" by blast
  obtain m where m: "array v' = vlist v' @ replicate m NULL"
    "unat (capacity v') = length (vlist v') + m" "length (vlist v') + m \<le> 2 ^ 60"
    using v'(2) by (rule vec_okE)
  obtain k where "m = Suc k" using m v'(3,5) n by (cases m) auto
  with m v' that[of v' k] show ?thesis by auto
qed

lemma vector_push_back_ok:
  assumes "vec_ok v" "length (vlist v) < 2 ^ 60"
  obtains v' where
    "vector_push_back v x s = Inr (v', snd (copy_constructor v x s))"
    "vec_ok v'" "vlist v' = vlist v @ [fst (copy_constructor v x s)]" "same_callbacks v v'"
proof -
  obtain w m where w:
    "(if capacity v < v_size v + 1 then vector_reserve v (v_size v + 1) else Inr v) = Inr w"
    "same_callbacks v w" "v_size w = v_size v"
    "array w = vlist v @ NULL # replicate m NULL"
    "unat (capacity w) = Suc (length (vlist v) + m)" "Suc (length (vlist v) + m) \<le> 2 ^ 60"
    using assms by (rule make_room)
  obtain p s' where ps: "copy_constructor v x s = (p, s')" by fastforce
  let ?v = "w\<lparr>array := vlist v @ p # replicate m NULL, v_size := v_size w + 1\<rparr>"
  have cc: "copy_constructor w = copy_constructor v" using w(2) by (simp add: same_callbacks_def)
  have sz: "unat (v_size w) = length (vlist v)" using w(3) assms(1) by (simp add: vec_ok_size)
  have sz': "unat (v_size w + 1) = Suc (length (vlist v))"
    using w(3) assms(1) by (simp add: unat_size_suc)
  have "set_cell w (v_size w) p = Inr (w\<lparr>array := vlist v @ p # replicate m NULL\<rparr>)"
    by (simp add: set_cell_def sz w(4))
  then have "vector_push_back v x s = Inr (?v, s')"
    using w(1) by (simp add: vector_push_back_def vector_end_def cc ps)
  moreover have "vec_ok ?v" "vlist ?v = vlist v @ [p]"
    by (rule vec_okI[where m = m and xs = "vlist v @ [p]"]; use w(5,6) sz' in simp)+
  ultimately show ?thesis using w(2) ps by (intro that[of ?v]) auto
qed

text \<open>At \<open>2 ^ 60\<close> elements the new byte count wraps to 0: the append writes outside the array.\<close>

lemma vector_push_back_full:
  assumes "vec_ok v" "length (vlist v) = 2 ^ 60"
  shows "vector_push_back v x s = Inl Out_of_bounds"
proof -
  have sz: "unat (v_size v) = 2 ^ 60" "unat (capacity v) = 2 ^ 60"
    using assms by (auto elim: vec_okE)
  have next_sz: "unat (v_size v + 1) = 2 ^ 60 + 1"
    using unat_size_suc[OF assms(1)] assms(2) by simp
  have more: "capacity v < v_size v + 1" using sz next_sz by (simp add: word_less_nat_alt)
  obtain k where k: "get_new_capacity (v_size v + 1) = Some (2 ^ k)" "k \<le> 63"
    "unat (v_size v + 1) \<le> 2 ^ k" "k = 0 \<or> 2 ^ (k - 1) < unat (v_size v + 1)"
    using get_new_capacity_least[of "v_size v + 1"] next_sz by auto
  have "(2::nat) ^ 60 < 2 ^ k" using k(3) next_sz by linarith
  then have "60 < k" by (rule power_less_imp_less_exp[rotated]) simp
  moreover have "k \<le> 61"
  proof (rule ccontr)
    assume "\<not> k \<le> 61"
    then have "(2::nat) ^ 61 \<le> 2 ^ (k - 1)" by (intro power_increasing) auto
    moreover have "(2::nat) ^ (k - 1) < 2 ^ 60 + 1" using k(4) next_sz \<open>60 < k\<close> by simp
    ultimately show False by simp
  qed
  ultimately have k61: "k = 61" by simp
  have wrap: "(2 ^ 61 * 8 :: size_t) = 0" by simp
  have "realloc_cells (2 ^ 61 * 8) (array v) = []"
    unfolding wrap by (simp add: realloc_cells_def)
  moreover have "capacity v < 2 ^ 61"
    using sz(2) unat_pow2[of 61, where 'a = 64] by (simp add: word_less_nat_alt)
  ultimately have "vector_reserve v (v_size v + 1) = Inl Out_of_bounds"
    using more k(1) k61 null_cells_out_of_bounds[of "[]" "capacity v" "2 ^ 61"]
    by (simp only: vector_reserve_def if_True or_fault_simps bindr_Inr bindr_Inl) simp
  then show ?thesis using more by (simp add: vector_push_back_def)
qed

lemma vector_pop_back_ok:
  assumes "vec_ok v" "vlist v = xs @ [p]"
  obtains v' where "vector_pop_back v s = Inr (v', destructor v p s)"
    "vec_ok v'" "vlist v' = xs" "same_callbacks v v'"
proof -
  obtain m where m: "array v = vlist v @ replicate m NULL" "unat (v_size v) = length (vlist v)"
    "unat (capacity v) = length (vlist v) + m" "length (vlist v) + m \<le> 2 ^ 60"
    using assms(1) by (rule vec_okE)
  have nz: "v_size v \<noteq> 0" using m(2) assms(2) by auto
  then have last: "unat (v_size v - 1) = length xs"
    using m(2) assms(2) by (simp add: unat_minus_one)
  let ?v = "v\<lparr>array := xs @ NULL # replicate m NULL, v_size := v_size v - 1\<rparr>"
  have "vector_pop_back v s = Inr (?v, destructor v p s)"
    using nz last m(1) assms(2)
    by (simp add: vector_pop_back_def vector_empty_def cell_def set_cell_def nth_append)
  moreover have "vec_ok ?v" "vlist ?v = xs"
    by (rule vec_okI[where m = "Suc m" and xs = xs]; use last m assms(2) in simp)+
  ultimately show ?thesis by (intro that[of ?v]) auto
qed

lemma vector_pop_back_empty: "vec_ok v \<Longrightarrow> vlist v = [] \<Longrightarrow> vector_pop_back v s = Inr (v, s)"
  using vec_ok_size[of v] by (simp add: vector_pop_back_def vector_empty_def unat_eq_0)

lemma vector_erase_ok:
  assumes "vec_ok v" "vlist v = xs @ p # ys" "unat i = length xs"
  obtains v' where "vector_erase v i s = Inr (v', destructor v p s)"
    "vec_ok v'" "vlist v' = xs @ ys" "same_callbacks v v'"
proof (cases "ys = []")
  case True
  have "unat (v_size v - 1) = length xs"
    using assms(1,2) vec_ok_size[of v] True by (subst unat_minus_one) auto
  then have "i = v_size v - 1" using assms(3) by (metis word_unat_eq_iff)
  with True assms(1,2) show ?thesis
    by (elim vector_pop_back_ok[of v xs p s]) (auto simp: vector_erase_def intro: that)
next
  case False
  obtain m where m: "array v = vlist v @ replicate m NULL" "unat (v_size v) = length (vlist v)"
    "unat (capacity v) = length (vlist v) + m" "length (vlist v) + m \<le> 2 ^ 60"
    using assms(1) by (rule vec_okE)
  let ?n = "length xs + length ys"
  have nz: "v_size v \<noteq> 0" using m(2) assms(2) by auto
  then have last: "unat (v_size v - 1) = ?n" using m(2) assms(2) by (simp add: unat_minus_one)
  have ne: "i \<noteq> v_size v - 1" using last assms(3) False by auto
  have lt: "i \<le> v_size v - 1" using last assms(3) by (simp add: word_le_nat_alt)
  have eq: "v_size v - i - 1 = v_size v - 1 - i" by simp
  have cnt: "unat ((v_size v - i - 1) * 8) = length ys * 8"
    using lt last assms(3) m(4) assms(2) unfolding eq
    by (subst unat_mult_small) (auto simp: unat_sub_small)
  have mv: "memmove_cells (length xs) (length xs + 1) ((v_size v - i - 1) * 8)
      (xs @ NULL # ys @ replicate m NULL) = Inr (xs @ ys @ last ys # replicate m NULL)"
    using cnt False by (rule memmove_down)
  let ?v = "v\<lparr>array := xs @ ys @ NULL # replicate m NULL, v_size := v_size v - 1\<rparr>"
  have "vector_erase v i s = Inr (?v, destructor v p s)"
    using ne m(1) assms(2,3) mv last
    by (simp add: vector_erase_def cell_def set_cell_def nth_append list_update_append)
  moreover have "vec_ok ?v" "vlist ?v = xs @ ys"
    by (rule vec_okI[where m = "Suc m" and xs = "xs @ ys"]; use last m assms(2) in simp)+
  ultimately show ?thesis by (intro that[of ?v]) auto
qed

text \<open>An erase past the last element is out of bounds: either the position is outside the array, or
  the count of the \<^verbatim>\<open>memmove\<close>, \<^verbatim>\<open>(size - position - 1) * sizeof(void* )\<close>, wraps around.\<close>

lemma unat_uminus_of_nat:
  "0 < n \<Longrightarrow> n < 2 ^ LENGTH('a) \<Longrightarrow> unat (- of_nat n :: 'a::len word) = 2 ^ LENGTH('a) - n"
proof -
  assume n: "0 < n" "n < 2 ^ LENGTH('a)"
  have "(- of_nat n :: 'a word) = of_nat (2 ^ LENGTH('a) - n)"
    using n by (simp add: of_nat_diff)
  then show ?thesis using n by (simp only:) (rule unat_of_nat_small, simp)
qed

lemma vector_erase_past_end:
  assumes "vec_ok v" "length (vlist v) \<le> unat i" "i \<noteq> v_size v - 1"
  shows "vector_erase v i s = Inl Out_of_bounds"
proof (cases "unat i < length (array v)")
  case False
  then show ?thesis using assms(3) by (simp add: vector_erase_def cell_def)
next
  case True
  obtain m where m: "array v = vlist v @ replicate m NULL" "unat (v_size v) = length (vlist v)"
    "unat (capacity v) = length (vlist v) + m" "length (vlist v) + m \<le> 2 ^ 60"
    using assms(1) by (rule vec_okE)
  let ?d = "unat i + 1 - length (vlist v)"
  have len: "length (array v) \<le> 2 ^ 60" using m by simp
  have "v_size v = of_nat (length (vlist v))" "i = of_nat (unat i)"
    by (simp_all flip: m(2))
  then have "v_size v - i - 1 = of_nat (length (vlist v)) - of_nat (unat i + 1)"
    by simp
  also have "\<dots> = - of_nat ?d" using assms(2) by (simp add: of_nat_diff)
  finally have "(v_size v - i - 1) * 8 = - (of_nat (8 * ?d) :: size_t)" by simp
  then have cnt: "unat ((v_size v - i - 1) * 8) = 2 ^ 64 - 8 * ?d"
    using True len assms(2) by (simp only:) (subst unat_uminus_of_nat; simp)
  have "memmove_cells (unat i) (unat i + 1) ((v_size v - i - 1) * 8) xs = Inl Out_of_bounds"
    if "length xs \<le> 2 ^ 60" for xs
    using that cnt True len assms(2) by (simp add: memmove_cells_def Let_def)
  then show ?thesis
    using assms(3) True len by (simp add: vector_erase_def cell_def set_cell_def)
qed

lemma vector_create_ok:
  obtains v where "vector_create c d k = Inr v" "vec_ok v" "vlist v = []" "v_size v = 0"
    "copy_constructor v = (case c of None \<Rightarrow> shallow_copy_constructor | Some f \<Rightarrow> f)"
    "destructor v = (case d of None \<Rightarrow> shallow_destructor | Some f \<Rightarrow> f)"
    "default_constructor v = (case k of None \<Rightarrow> shallow_default_constructor | Some f \<Rightarrow> f)"
proof -
  have "null_cells 0 INITIAL_CAPACITY (realloc_cells (INITIAL_CAPACITY * 8) [])
      = Inr (replicate 10 NULL)"
    by (subst null_cells_run) (simp_all add: INITIAL_CAPACITY_def realloc_cells_def)
  then show ?thesis
    by (intro that[of "\<lparr>copy_constructor = (case c of None \<Rightarrow> shallow_copy_constructor | Some f \<Rightarrow> f),
          destructor = (case d of None \<Rightarrow> shallow_destructor | Some f \<Rightarrow> f),
          default_constructor =
            (case k of None \<Rightarrow> shallow_default_constructor | Some f \<Rightarrow> f),
          array = replicate 10 NULL, v_size = 0, capacity = INITIAL_CAPACITY\<rparr>"])
      (simp_all add: vector_create_def vec_ok_def vlist_def INITIAL_CAPACITY_def)
qed

lemma vector_get_ok: "vec_ok v \<Longrightarrow> unat i < length (vlist v) \<Longrightarrow>
    vector_get v i = Inr (vlist v ! unat i)"
  by (simp add: vector_get_def cell_elem)

text \<open>Between the size and the capacity a read succeeds and yields the null pointer.\<close>

lemma vector_get_spare:
  assumes "vec_ok v" "length (vlist v) \<le> unat i" "unat i < unat (capacity v)"
  shows "vector_get v i = Inr NULL"
  using assms(1) by (rule vec_okE) (use assms in \<open>simp add: vector_get_def cell_def nth_append\<close>)

lemma vector_set_ok:
  assumes "vec_ok v" "vlist v = xs @ p # ys" "unat i = length xs"
    "copy_constructor v e (destructor v p s) = (q, s')"
  obtains v' where "vector_set v i e s = Inr (v', s')" "vec_ok v'" "vlist v' = xs @ q # ys"
    "same_callbacks v v'"
proof -
  obtain m where m: "array v = vlist v @ replicate m NULL" "unat (v_size v) = length (vlist v)"
    "unat (capacity v) = length (vlist v) + m" "length (vlist v) + m \<le> 2 ^ 60"
    using assms(1) by (rule vec_okE)
  let ?v = "v\<lparr>array := (xs @ q # ys) @ replicate m NULL\<rparr>"
  have "vector_set v i e s = Inr (?v, s')"
    using m(1) assms(2-4) by (simp add: vector_set_def cell_def set_cell_def nth_append)
  moreover have "vec_ok ?v" "vlist ?v = xs @ q # ys"
    by (rule vec_okI[where m = m and xs = "xs @ q # ys"]; use m assms(2) in simp)+
  ultimately show ?thesis by (intro that[of ?v]) auto
qed

lemma memmove_up:
  "unat bytes = length ys * 8 \<Longrightarrow>
    memmove_cells (length xs + 1) (length xs) bytes (xs @ ys @ z # zs)
      = Inr (xs @ take 1 (ys @ [z]) @ ys @ zs)"
  by (cases ys) (simp_all add: memmove_cells_def)

lemma vector_insert_ok:
  assumes "vec_ok v" "vlist v = xs @ ys" "unat i = length xs" "length (vlist v) < 2 ^ 60"
    "copy_constructor v e s = (q, s')"
  obtains v' where "vector_insert v i e s = Inr (v', s')" "vec_ok v'" "vlist v' = xs @ q # ys"
    "same_callbacks v v'"
proof -
  obtain w m where w:
    "(if capacity v < v_size v + 1 then vector_reserve v (v_size v + 1) else Inr v) = Inr w"
    "same_callbacks v w" "v_size w = v_size v"
    "array w = vlist v @ NULL # replicate m NULL"
    "unat (capacity w) = Suc (length (vlist v) + m)" "Suc (length (vlist v) + m) \<le> 2 ^ 60"
    using assms(1,4) by (rule make_room)
  have cc: "copy_constructor w = copy_constructor v" using w(2) by (simp add: same_callbacks_def)
  have sz: "unat (v_size w) = length xs + length ys"
    using w(3) assms(1,2) by (simp add: vec_ok_size)
  have sz': "unat (v_size w + 1) = Suc (length (vlist v))"
    using w(3) assms(1) by (simp add: unat_size_suc)
  obtain zs where zs: "(if i < v_size w
       then bindr (memmove_cells (unat i + 1) (unat i) ((v_size w - i) * 8) (array w))
              (\<lambda>xs. Inr (w\<lparr>array := xs\<rparr>))
       else Inr w) = Inr (w\<lparr>array := xs @ zs\<rparr>)" "length zs = Suc (length ys + m)"
       "drop 1 zs = ys @ replicate m NULL"
  proof (cases "i < v_size w")
    case True
    have "unat ((v_size w - i) * 8) = length ys * 8"
      using True sz assms(2,3) w(6)
      by (subst unat_mult_small) (auto simp: unat_sub_small word_less_nat_alt word_le_nat_alt)
    from memmove_up[OF this, of xs NULL "replicate m NULL"] True show ?thesis
      using assms(2,3) w(4)
      by (intro that[of "take 1 (ys @ [NULL]) @ ys @ replicate m NULL"]) (cases ys; simp)+
  next
    case False
    then have "ys = []" using sz assms(3) by (simp add: word_less_nat_alt)
    with False show ?thesis
      using assms(2) w(4) by (intro that[of "NULL # replicate m NULL"]) auto
  qed
  let ?v = "w\<lparr>array := (xs @ q # ys) @ replicate m NULL, v_size := v_size w + 1\<rparr>"
  have "zs = hd zs # drop 1 zs" using zs(2) by (cases zs) auto
  then have "vector_insert v i e s = Inr (?v, s')"
    using w(1) zs assms(3,5) by (simp add: vector_insert_def cc set_cell_def list_update_append
      split: nat.split) (metis list_update_code(2) zs(3))
  moreover have "vec_ok ?v" "vlist ?v = xs @ q # ys"
    by (rule vec_okI[where m = m and xs = "xs @ q # ys"]; use w sz' assms(2) in simp)+
  ultimately show ?thesis using w(2) by (intro that[of ?v]) auto
qed

subsection \<open>Destroying, clearing and resizing\<close>

text \<open>The loops run over a list \<open>xs @ ys\<close>: \<open>xs\<close> is what they have passed, \<open>ys\<close> what is to come.\<close>

lemma destroy_loop_run:
  "vec_ok v \<Longrightarrow> vlist v = xs @ ys \<Longrightarrow> unat i = length xs \<Longrightarrow>
    destroy_loop v i s = Inr (fold (destructor v) ys s)"
proof (induction ys arbitrary: xs i s)
  case Nil
  then show ?case
    using vec_ok_size[of v] by (subst destroy_loop.simps) (simp add: word_less_nat_alt)
next
  case (Cons y ys)
  have lt: "i < v_size v"
    using Cons.prems vec_ok_size[of v] by (simp add: word_less_nat_alt)
  then have "unat (i + 1) = length (xs @ [y])" using Cons.prems by (simp add: unat_suc)
  from Cons.IH[OF Cons.prems(1) _ this] Cons.prems(2)
  have "destroy_loop v (i + 1) (destructor v y s) = Inr (fold (destructor v) ys (destructor v y s))"
    by simp
  moreover have "cell v i = Inr y"
    using cell_elem[of v i] Cons.prems by (simp add: nth_append)
  ultimately show ?case using lt by (subst destroy_loop.simps) simp
qed

lemma vector_destroy_ok: "vec_ok v \<Longrightarrow> vector_destroy v s = Inr (fold (destructor v) (vlist v) s)"
  using destroy_loop_run[of v "[]"] by (simp add: vector_destroy_def)

lemma clear_loop_run:
  "array v = replicate (k) NULL @ ys @ zs \<Longrightarrow>
   unat (v_size v) = k + length ys \<Longrightarrow> unat i = k \<Longrightarrow>
    clear_loop i v s =
      Inr (v\<lparr>array := replicate (k + length ys) NULL @ zs\<rparr>, fold (destructor v) ys s)"
proof (induction ys arbitrary: k v i s)
  case Nil
  then show ?case by (subst clear_loop.simps) (simp add: word_less_nat_alt)
next
  case (Cons y ys)
  have lt: "i < v_size v" using Cons.prems by (simp add: word_less_nat_alt)
  let ?v = "v\<lparr>array := replicate (Suc k) NULL @ ys @ zs\<rparr>"
  have "clear_loop (i + 1) ?v (destructor v y s) =
      Inr (?v\<lparr>array := replicate (Suc k + length ys) NULL @ zs\<rparr>,
           fold (destructor ?v) ys (destructor v y s))"
    using Cons.prems unat_suc[OF lt] by (intro Cons.IH) auto
  moreover have "cell v i = Inr y" "set_cell v i NULL = Inr ?v"
    using Cons.prems by (simp_all add: cell_def set_cell_def nth_append list_update_append
      replicate_append_same)
  ultimately show ?case using lt by (subst clear_loop.simps) simp
qed

lemma vector_clear_ok:
  assumes "vec_ok v"
  obtains v' where "vector_clear v s = Inr (v', fold (destructor v) (vlist v) s)"
    "vec_ok v'" "vlist v' = []" "same_callbacks v v'"
proof -
  obtain m where m: "array v = vlist v @ replicate m NULL" "unat (v_size v) = length (vlist v)"
    "unat (capacity v) = length (vlist v) + m" "length (vlist v) + m \<le> 2 ^ 60"
    using assms(1) by (rule vec_okE)
  let ?v = "v\<lparr>array := replicate (length (vlist v) + m) NULL, v_size := 0\<rparr>"
  have "vector_clear v s = Inr (?v, fold (destructor v) (vlist v) s)"
    using clear_loop_run[of v 0 "vlist v" "replicate m NULL" 0 s] m
    by (simp add: vector_clear_def replicate_add)
  moreover have "vec_ok ?v" "vlist ?v = []"
    by (rule vec_okI[where m = "length (vlist v) + m" and xs = "[]"]; use m in simp)+
  ultimately show ?thesis by (intro that[of ?v]) auto
qed

lemma shrink_loop_run:
  "array v = xs @ ys @ zs \<Longrightarrow> xs \<noteq> [] \<Longrightarrow> unat bound = length xs - 1 \<Longrightarrow>
   unat i = length xs + length ys - 1 \<Longrightarrow>
    shrink_loop i bound v s =
      Inr (v\<lparr>array := xs @ replicate (length ys) NULL @ zs\<rparr>, fold (destructor v) (rev ys) s)"
proof (induction ys arbitrary: zs v i s rule: rev_induct)
  case Nil
  then show ?case by (subst shrink_loop.simps) (simp add: word_less_nat_alt)
next
  case (snoc y ys)
  have i: "unat i = length xs + length ys" using snoc.prems by simp
  then have nz: "i \<noteq> 0" using snoc.prems(2) by auto
  have lt: "bound < i" using snoc.prems(2,3) i by (cases xs) (auto simp: word_less_nat_alt)
  let ?v = "v\<lparr>array := xs @ ys @ NULL # zs\<rparr>"
  have "shrink_loop (i - 1) bound ?v (destructor v y s) =
      Inr (?v\<lparr>array := xs @ replicate (length ys) NULL @ NULL # zs\<rparr>,
           fold (destructor ?v) (rev ys) (destructor v y s))"
    using snoc.prems i nz by (intro snoc.IH) (auto simp: unat_minus_one)
  moreover have "cell v i = Inr y" "set_cell v i NULL = Inr ?v"
    using snoc.prems(1) i by (simp_all add: cell_def set_cell_def nth_append list_update_append)
  ultimately show ?case
    using lt by (subst shrink_loop.simps) (simp flip: replicate_append_same)
qed

text \<open>The elements a growing \<^verbatim>\<open>vector_resize\<close> appends, and the client state after making them.\<close>

fun default_elements :: "('s \<Rightarrow> ptr \<times> 's) \<Rightarrow> nat \<Rightarrow> 's \<Rightarrow> ptr list \<times> 's" where
  "default_elements f 0 s = ([], s)"
| "default_elements f (Suc n) s =
     (let (p, s') = f s; (ps, s'') = default_elements f n s' in (p # ps, s''))"

lemma length_default_elements: "length (fst (default_elements f n s)) = n"
  by (induction n arbitrary: s) (auto simp: Let_def split: prod.splits, metis fst_conv)

lemma extend_loop_run:
  "array v = xs @ replicate (k + m) NULL \<Longrightarrow> unat i = length xs \<Longrightarrow>
   unat n = length xs + k \<Longrightarrow> default_elements (default_constructor v) k s = (ps, s') \<Longrightarrow>
    extend_loop i n v s = Inr (v\<lparr>array := xs @ ps @ replicate m NULL\<rparr>, s')"
proof (induction k arbitrary: xs v i s ps)
  case 0
  then show ?case by (subst extend_loop.simps) (simp add: word_less_nat_alt)
next
  case (Suc k)
  have lt: "i < n" using Suc.prems by (simp add: word_less_nat_alt)
  obtain p t qs where pt: "default_constructor v s = (p, t)"
    "default_elements (default_constructor v) k t = (qs, s')" "ps = p # qs"
    using Suc.prems(4) by (auto simp: Let_def split: prod.splits)
  let ?v = "v\<lparr>array := (xs @ [p]) @ replicate (k + m) NULL\<rparr>"
  have "extend_loop (i + 1) n ?v t = Inr (?v\<lparr>array := (xs @ [p]) @ qs @ replicate m NULL\<rparr>, s')"
    using Suc.prems pt unat_suc[OF lt] by (intro Suc.IH) auto
  moreover have "set_cell v i p = Inr ?v"
    using Suc.prems(1,2) by (simp add: set_cell_def list_update_append)
  ultimately show ?case using lt pt by (subst extend_loop.simps) simp
qed

lemma vector_resize_shrink:
  assumes "vec_ok v" "vlist v = xs @ ys" "xs \<noteq> []" "unat n = length xs"
  obtains v' where "vector_resize v n s = Inr (v', fold (destructor v) (rev ys) s)"
    "vec_ok v'" "vlist v' = xs" "same_callbacks v v'"
proof (cases "ys = []")
  case True
  then have "n = v_size v" using assms vec_ok_size[of v] by (metis append_Nil2 word_unat_eq_iff)
  with True assms show ?thesis by (intro that[of v]) (auto simp: vector_resize_def)
next
  case False
  obtain m where m: "array v = vlist v @ replicate m NULL" "unat (v_size v) = length (vlist v)"
    "unat (capacity v) = length (vlist v) + m" "length (vlist v) + m \<le> 2 ^ 60"
    using assms(1) by (rule vec_okE)
  have lt: "n < v_size v" using m(2) assms(2,4) False by (simp add: word_less_nat_alt)
  have "n \<noteq> 0" using assms(3,4) by auto
  then have bound: "unat (n - 1) = length xs - 1" using assms(4) by (simp add: unat_minus_one)
  have "v_size v \<noteq> 0" using lt by auto
  then have top: "unat (v_size v - 1) = length xs + length ys - 1"
    using m(2) assms(2) by (simp add: unat_minus_one)
  let ?v = "v\<lparr>array := xs @ replicate (length ys + m) NULL, v_size := n\<rparr>"
  have "vector_resize v n s = Inr (?v, fold (destructor v) (rev ys) s)"
    using lt m(1) assms(2)
      shrink_loop_run[of v xs ys "replicate m NULL", OF _ assms(3) bound top]
    by (auto simp: vector_resize_def replicate_add)
  moreover have "vec_ok ?v" "vlist ?v = xs"
    by (rule vec_okI[where m = "length ys + m" and xs = xs]; use m assms in simp)+
  ultimately show ?thesis by (intro that[of ?v]) auto
qed

lemma vector_resize_grow:
  assumes "vec_ok v" "unat n = length (vlist v) + k" "unat n \<le> 2 ^ 60"
    "default_elements (default_constructor v) k s = (ps, s')"
  obtains v' where "vector_resize v n s = Inr (v', s')" "vec_ok v'" "vlist v' = vlist v @ ps"
    "same_callbacks v v'"
proof (cases "k = 0")
  case True
  then have "n = v_size v" using assms vec_ok_size[of v] by (metis add.right_neutral word_unat_eq_iff)
  with True assms show ?thesis by (intro that[of v]) (auto simp: vector_resize_def)
next
  case False
  have gt: "v_size v < n" using assms(1,2) False by (simp add: word_less_nat_alt vec_ok_size)
  have "\<exists>w. (if capacity v < n then vector_reserve v n else Inr v) = Inr w \<and> vec_ok w
      \<and> vlist w = vlist v \<and> v_size w = v_size v \<and> unat n \<le> unat (capacity w) \<and> same_callbacks v w"
    using assms(1,3) by (cases "capacity v < n")
      (auto elim: vector_reserve_ok[of v n] simp: word_less_nat_alt)
  then obtain w where w: "(if capacity v < n then vector_reserve v n else Inr v) = Inr w"
    "vec_ok w" "vlist w = vlist v" "v_size w = v_size v" "unat n \<le> unat (capacity w)"
    "same_callbacks v w" by blast
  obtain m where m: "array w = vlist w @ replicate m NULL" "unat (v_size w) = length (vlist w)"
    "unat (capacity w) = length (vlist w) + m" "length (vlist w) + m \<le> 2 ^ 60"
    using w(2) by (rule vec_okE)
  obtain r where r: "m = k + r" using m(3) w(3,5) assms(2) by (auto simp: le_iff_add)
  have dc: "default_constructor w = default_constructor v" using w(6)
    by (simp add: same_callbacks_def)
  have len: "length ps = k"
    using length_default_elements[of "default_constructor v" k s] assms(4) by simp
  let ?v = "w\<lparr>array := (vlist v @ ps) @ replicate r NULL, v_size := n\<rparr>"
  have "extend_loop (v_size w) n w s = Inr (w\<lparr>array := vlist v @ ps @ replicate r NULL\<rparr>, s')"
    using m(1,2) r w(3,4) assms(2,4) dc by (intro extend_loop_run) auto
  then have "vector_resize v n s = Inr (?v, s')"
    using gt w(1) by (auto simp: vector_resize_def)
  moreover have "vec_ok ?v" "vlist ?v = vlist v @ ps"
    by (rule vec_okI[where m = r and xs = "vlist v @ ps"]; use m r w(3) assms(2) len in simp)+
  ultimately show ?thesis using w(6) by (intro that[of ?v]) auto
qed

text \<open>To size 0 the shrinking loop has the bound \<^verbatim>\<open>0 - 1\<close>, the largest word, and does nothing.\<close>

lemma vector_resize_zero: "vector_resize v 0 s = Inr (v\<lparr>v_size := 0\<rparr>, s)"
proof (cases "v_size v = 0")
  case True
  then show ?thesis by (simp add: vector_resize_def)
next
  case False
  then have "0 < v_size v" by (simp add: word_neq_0_conv)
  moreover have "shrink_loop (v_size v - 1) (0 - 1) v s = Inr (v, s)"
    by (subst shrink_loop.simps) (simp add: not_less)
  ultimately show ?thesis using False by (simp add: vector_resize_def)
qed

section \<open>The interface the other components use\<close>

text \<open>A container of pointers, read by position and changed by appending and removing. The
  scheduler of the master scans such containers: \<open>scan get p i n\<close> is the loop
  \<^verbatim>\<open>for (; i < n; i++) if (p(get(i))) { found; break; }\<close>.\<close>

function scan ::
  "(size_t \<Rightarrow> ptr res) \<Rightarrow> (ptr \<Rightarrow> bool res) \<Rightarrow> size_t \<Rightarrow> size_t \<Rightarrow> (size_t \<times> ptr) option res" where
  "scan get p i n =
     (if i < n then
        bindr (get i) (\<lambda>x. bindr (p x) (\<lambda>hit.
          if hit then Inr (Some (i, x)) else scan get p (i + 1) n))
      else Inr None)"
  by pat_completeness auto
termination
  by (relation "measure (\<lambda>(get, p, i, n). unat n - unat i)")
    (auto simp: unat_suc word_less_nat_alt)

declare scan.simps [simp del]

locale sequence =
  fixes inv :: "'v \<Rightarrow> bool"
    and elems :: "'v \<Rightarrow> ptr list"
    and count :: "'v \<Rightarrow> size_t"
    and get :: "'v \<Rightarrow> size_t \<Rightarrow> ptr res"
    and push :: "'v \<Rightarrow> ptr \<Rightarrow> 'v res"
    and erase :: "'v \<Rightarrow> size_t \<Rightarrow> 'v res"
  assumes count: "inv v \<Longrightarrow> unat (count v) = length (elems v)"
    and get: "inv v \<Longrightarrow> unat i < length (elems v) \<Longrightarrow> get v i = Inr (elems v ! unat i)"
    and push: "inv v \<Longrightarrow> length (elems v) < 2 ^ 60 \<Longrightarrow>
          \<exists>v'. push v x = Inr v' \<and> inv v' \<and> elems v' = elems v @ [x]"
    and erase: "inv v \<Longrightarrow> elems v = xs @ x # ys \<Longrightarrow> unat i = length xs \<Longrightarrow>
          \<exists>v'. erase v i = Inr v' \<and> inv v' \<and> elems v' = xs @ ys"
begin

lemma scan_step:
  assumes "inv v" "elems v = xs @ x # ys" "unat i = length xs"
  shows "scan (get v) p i (count v) = bindr (p x) (\<lambda>hit.
    if hit then Inr (Some (i, x)) else scan (get v) p (i + 1) (count v))"
    and "unat (i + 1) = length (xs @ [x])"
proof -
  have lt: "i < count v" using count[OF assms(1)] assms by (simp add: word_less_nat_alt)
  have "get v i = Inr x" using get[OF assms(1), of i] assms by simp
  with lt show "scan (get v) p i (count v) = bindr (p x) (\<lambda>hit.
    if hit then Inr (Some (i, x)) else scan (get v) p (i + 1) (count v))"
    by (subst scan.simps) simp
  show "unat (i + 1) = length (xs @ [x])" using unat_suc[OF lt] assms(3) by simp
qed

lemma scan_from:
  assumes "inv v" "elems v = xs @ ys" "unat i = length xs" "\<And>y. y \<in> set ys \<Longrightarrow> p y = Inr (q y)"
  shows "scan (get v) p i (count v) =
    (case dropWhile (\<lambda>y. \<not> q y) ys of
       [] \<Rightarrow> Inr None
     | y # _ \<Rightarrow> Inr (Some (i + of_nat (length (takeWhile (\<lambda>y. \<not> q y) ys)), y)))"
  using assms(2-4)
proof (induction ys arbitrary: xs i)
  case Nil
  then show ?case
    using count[OF assms(1)] by (subst scan.simps) (simp add: word_less_nat_alt)
next
  case (Cons y ys)
  note step = scan_step[OF assms(1) Cons.prems(1,2)]
  show ?case
  proof (cases "q y")
    case True
    then show ?thesis using step(1)[of p] Cons.prems(3)[of y] by simp
  next
    case False
    have "scan (get v) p (i + 1) (count v) =
      (case dropWhile (\<lambda>y. \<not> q y) ys of
         [] \<Rightarrow> Inr None
       | z # _ \<Rightarrow> Inr (Some (i + 1 + of_nat (length (takeWhile (\<lambda>y. \<not> q y) ys)), z)))"
      using Cons.prems step(2) by (intro Cons.IH[of "xs @ [y]"]) auto
    also have "\<dots> = (case dropWhile (\<lambda>y. \<not> q y) (y # ys) of
         [] \<Rightarrow> Inr None
       | z # _ \<Rightarrow> Inr (Some (i + of_nat (length (takeWhile (\<lambda>y. \<not> q y) (y # ys))), z)))"
      using False by (simp add: add.assoc cong: list.case_cong)
    finally show ?thesis using step(1)[of p] Cons.prems(3)[of y] False by simp
  qed
qed

text \<open>The scan finds the first element with the property, at its position, or nothing.\<close>

lemma scan_first:
  assumes "inv v" "elems v = xs @ x # ys" "q x" "\<And>y. y \<in> set xs \<Longrightarrow> \<not> q y"
    "\<And>y. y \<in> set (elems v) \<Longrightarrow> p y = Inr (q y)"
  shows "scan (get v) p 0 (count v) = Inr (Some (of_nat (length xs), x))"
  using scan_from[OF assms(1), of "[]" "elems v" 0 p q] assms(2-5)
  by (simp add: dropWhile_append2 takeWhile_append2)

lemma scan_nothing:
  assumes "inv v" "\<And>y. y \<in> set (elems v) \<Longrightarrow> \<not> q y" "\<And>y. y \<in> set (elems v) \<Longrightarrow> p y = Inr (q y)"
  shows "scan (get v) p 0 (count v) = Inr None"
proof -
  have "dropWhile (\<lambda>y. \<not> q y) (elems v) = []" using assms(2) by simp
  with scan_from[OF assms(1), of "[]" "elems v" 0 p q] assms(3) show ?thesis
    by (simp only: list.case) simp
qed

text \<open>The same as a search in the list, and the removal of what was found.\<close>

lemma scan_find:
  assumes "inv v" "\<And>y. y \<in> set (elems v) \<Longrightarrow> p y = Inr (q y)"
  shows "scan (get v) p 0 (count v) = Inr (map_option
    (\<lambda>x. (of_nat (length (takeWhile (\<lambda>y. \<not> q y) (elems v))), x)) (List.find q (elems v)))"
proof (cases "List.find q (elems v)")
  case None
  then have "\<And>y. y \<in> set (elems v) \<Longrightarrow> \<not> q y" by (simp add: find_None_iff)
  from scan_nothing[OF assms(1) this assms(2)] None show ?thesis by simp
next
  case (Some x)
  then obtain ys zs where s: "elems v = ys @ x # zs" "takeWhile (\<lambda>y. \<not> q y) (elems v) = ys" "q x"
    "\<forall>y\<in>set ys. \<not> q y" by (rule find_split)
  have before: "\<And>y. y \<in> set ys \<Longrightarrow> \<not> q y" using s(4) by simp
  show ?thesis using scan_first[where q = q and p = p, OF assms(1) s(1,3) before assms(2)] s(2) Some by simp
qed

lemma erase_found:
  assumes "inv v" "List.find q (elems v) = Some x"
  shows "\<exists>v'. erase v (of_nat (length (takeWhile (\<lambda>y. \<not> q y) (elems v)))) = Inr v' \<and> inv v'
    \<and> elems v' = remove_first q (elems v)"
proof -
  obtain ys zs where s: "elems v = ys @ x # zs" "takeWhile (\<lambda>y. \<not> q y) (elems v) = ys"
    "remove_first q (elems v) = ys @ zs" using assms(2) by (rule find_split)
  have "length ys < unat (count v)" using count[OF assms(1)] s(1) by simp
  then have "unat (of_nat (length ys) :: size_t) = length ys"
    using unat_bound[of "count v"] by (intro unat_of_nat_small) linarith
  from erase[OF assms(1) s(1) this] s(2,3) show ?thesis by simp
qed

end

text \<open>The master and its scheduler create every vector with \<^verbatim>\<open>vector_create(NULL, NULL, NULL)\<close>:
  the shallow callbacks, which touch no client state.\<close>

definition ptr_vector_ok :: "unit vector \<Rightarrow> bool" where
  "ptr_vector_ok v \<longleftrightarrow> vec_ok v \<and> copy_constructor v = shallow_copy_constructor
     \<and> destructor v = shallow_destructor \<and> default_constructor v = shallow_default_constructor"

definition ptr_push :: "unit vector \<Rightarrow> ptr \<Rightarrow> unit vector res" where
  "ptr_push v p = bindr (vector_push_back v p ()) (\<lambda>(v', _). Inr v')"

definition ptr_erase :: "unit vector \<Rightarrow> size_t \<Rightarrow> unit vector res" where
  "ptr_erase v i = bindr (vector_erase v i ()) (\<lambda>(v', _). Inr v')"

definition ptr_create :: "unit vector res" where
  "ptr_create = vector_create None None None"

lemma ptr_create_ok:
  obtains v where "ptr_create = Inr v" "ptr_vector_ok v" "vlist v = []"
  by (rule vector_create_ok[of None None None]) (auto simp: ptr_create_def ptr_vector_ok_def intro: that)

interpretation ptrs: sequence ptr_vector_ok vlist vector_size vector_get ptr_push ptr_erase
proof unfold_locales
  fix v :: "unit vector" and x
  assume v: "ptr_vector_ok v" "length (vlist v) < 2 ^ 60"
  then have "vec_ok v" by (simp add: ptr_vector_ok_def)
  from this v(2) obtain v' where
    "vector_push_back v x () = Inr (v', snd (copy_constructor v x ()))" "vec_ok v'"
    "vlist v' = vlist v @ [fst (copy_constructor v x ())]" "same_callbacks v v'"
    by (rule vector_push_back_ok)
  with v show "\<exists>v'. ptr_push v x = Inr v' \<and> ptr_vector_ok v' \<and> vlist v' = vlist v @ [x]"
    by (auto simp: ptr_push_def ptr_vector_ok_def same_callbacks_def shallow_copy_constructor_def)
next
  fix v :: "unit vector" and xs x ys and i :: size_t
  assume v: "ptr_vector_ok v" "vlist v = xs @ x # ys" "unat i = length xs"
  then have "vec_ok v" by (simp add: ptr_vector_ok_def)
  from this v(2,3) obtain v' where "vector_erase v i () = Inr (v', destructor v x ())" "vec_ok v'"
    "vlist v' = xs @ ys" "same_callbacks v v'"
    by (rule vector_erase_ok)
  with v show "\<exists>v'. ptr_erase v i = Inr v' \<and> ptr_vector_ok v' \<and> vlist v' = xs @ ys"
    by (auto simp: ptr_erase_def ptr_vector_ok_def same_callbacks_def)
qed (auto simp: ptr_vector_ok_def vector_size_def vec_ok_size vector_get_ok)

lemma ptr_push_Inr:
  assumes "ptr_push v x = Inr v'" "ptr_vector_ok v"
  shows "ptr_vector_ok v' \<and> vlist v' = vlist v @ [x] \<and> length (vlist v) < 2 ^ 60"
proof -
  have ok: "vec_ok v" using assms(2) by (simp add: ptr_vector_ok_def)
  have "length (vlist v) \<noteq> 2 ^ 60"
    using assms(1) vector_push_back_full[OF ok] by (auto simp: ptr_push_def)
  then have "length (vlist v) < 2 ^ 60" using vec_ok_length[OF ok] by simp
  with ptrs.push[OF assms(2), of x] assms(1) show ?thesis by auto
qed

end
