(* ===== verification/Doubles.thy ===== *)
theory Doubles
  imports Prelude Complex_Main
begin

text \<open>
  The program's \<^verbatim>\<open>double\<close>s: CPU usages, load factors and clock readings. A finite double is an
  exact rational; rounding is not modelled, and the two zeros are one. The special values are,
  because the code meets them: \<^verbatim>\<open>get_local_usage\<close> divides by a difference that can be 0, and
  \<^verbatim>\<open>atof\<close> reads whatever a datagram says. As in IEEE 754, a comparison with \<open>NaN\<close> is false.
\<close>

section \<open>Values and operations\<close>

datatype dbl = Num rat | PInf | NInf | NaN

fun dbl_add :: "dbl \<Rightarrow> dbl \<Rightarrow> dbl" where
  "dbl_add (Num a) (Num b) = Num (a + b)"
| "dbl_add NaN _ = NaN"
| "dbl_add _ NaN = NaN"
| "dbl_add PInf NInf = NaN"
| "dbl_add NInf PInf = NaN"
| "dbl_add PInf _ = PInf"
| "dbl_add _ PInf = PInf"
| "dbl_add NInf _ = NInf"
| "dbl_add _ NInf = NInf"

fun dbl_neg :: "dbl \<Rightarrow> dbl" where
  "dbl_neg (Num a) = Num (- a)"
| "dbl_neg PInf = NInf"
| "dbl_neg NInf = PInf"
| "dbl_neg NaN = NaN"

definition inf_of_sign :: "rat \<Rightarrow> dbl" where
  "inf_of_sign a = (if a = 0 then NaN else if 0 < a then PInf else NInf)"

fun dbl_mult :: "dbl \<Rightarrow> dbl \<Rightarrow> dbl" where
  "dbl_mult (Num a) (Num b) = Num (a * b)"
| "dbl_mult NaN _ = NaN"
| "dbl_mult _ NaN = NaN"
| "dbl_mult PInf (Num b) = inf_of_sign b"
| "dbl_mult (Num a) PInf = inf_of_sign a"
| "dbl_mult NInf (Num b) = dbl_neg (inf_of_sign b)"
| "dbl_mult (Num a) NInf = dbl_neg (inf_of_sign a)"
| "dbl_mult PInf PInf = PInf"
| "dbl_mult NInf NInf = PInf"
| "dbl_mult PInf NInf = NInf"
| "dbl_mult NInf PInf = NInf"

fun dbl_div :: "dbl \<Rightarrow> dbl \<Rightarrow> dbl" where
  "dbl_div (Num a) (Num b) = (if b = 0 then inf_of_sign a else Num (a / b))"
| "dbl_div NaN _ = NaN"
| "dbl_div _ NaN = NaN"
| "dbl_div (Num a) _ = Num 0"
| "dbl_div PInf (Num b) = (if b < 0 then NInf else PInf)"
| "dbl_div NInf (Num b) = (if b < 0 then PInf else NInf)"
| "dbl_div _ _ = NaN"

fun dbl_less :: "dbl \<Rightarrow> dbl \<Rightarrow> bool" where
  "dbl_less (Num a) (Num b) = (a < b)"
| "dbl_less NaN _ = False"
| "dbl_less _ NaN = False"
| "dbl_less PInf _ = False"
| "dbl_less _ NInf = False"
| "dbl_less NInf _ = True"
| "dbl_less _ PInf = True"

text \<open>The operators of the classes, so that the model reads like the C expressions.\<close>

instantiation dbl :: "{plus, minus, times, divide, ord}"
begin

definition plus_dbl :: "dbl \<Rightarrow> dbl \<Rightarrow> dbl" where "plus_dbl = dbl_add"
definition minus_dbl :: "dbl \<Rightarrow> dbl \<Rightarrow> dbl" where "minus_dbl a b = dbl_add a (dbl_neg b)"
definition times_dbl :: "dbl \<Rightarrow> dbl \<Rightarrow> dbl" where "times_dbl = dbl_mult"
definition divide_dbl :: "dbl \<Rightarrow> dbl \<Rightarrow> dbl" where "divide_dbl = dbl_div"
definition less_dbl :: "dbl \<Rightarrow> dbl \<Rightarrow> bool" where "less_dbl = dbl_less"
definition less_eq_dbl :: "dbl \<Rightarrow> dbl \<Rightarrow> bool" where
  "less_eq_dbl a b \<longleftrightarrow> dbl_less a b \<or> (a = b \<and> a \<noteq> NaN)"

instance ..

end

lemmas dbl_ops [simp] =
  plus_dbl_def minus_dbl_def times_dbl_def divide_dbl_def less_dbl_def less_eq_dbl_def
  inf_of_sign_def

section \<open>What a comparison means\<close>

text \<open>\<^verbatim>\<open><\<close> is a strict order on which \<open>NaN\<close> takes no part.\<close>

lemma dbl_less_irrefl [simp]: "\<not> dbl_less x x"
  by (cases x) auto

lemma dbl_less_trans: "dbl_less x y \<Longrightarrow> dbl_less y z \<Longrightarrow> dbl_less x z"
  by (cases x; cases y; cases z) auto

lemma dbl_less_NaN [simp]: "\<not> dbl_less x NaN" "\<not> dbl_less NaN x"
  by (cases x; simp)+

text \<open>A value that is not below \<open>b\<close> is not below anything under \<open>b\<close>.\<close>

lemma dbl_not_less_below: "\<not> dbl_less x b \<Longrightarrow> dbl_less a b \<Longrightarrow> \<not> dbl_less x a"
  by (meson dbl_less_trans)

end
