(* ===== verification/Master_Net.thy ===== *)
theory Master_Net
  imports Framing Vector Doubles
begin

text \<open>
  The part of \<^verbatim>\<open>master.c\<close> that talks to one connection: the \<^verbatim>\<open>worker\<close> struct with its parsing
  state, the incremental readers of a message (\<^verbatim>\<open>get_command\<close>, \<^verbatim>\<open>get_size\<close>,
  \<^verbatim>\<open>get_binary_data\<close>), which give up at \<^verbatim>\<open>EAGAIN\<close> and go on where they stopped, and
  \<^verbatim>\<open>do_put\<close>, which sends a stored file on. Connections are non-blocking sockets.

  A message is a header line \<^verbatim>\<open>INTERFACE_PUT name\<close> or \<^verbatim>\<open>PUT name\<close>, the eight bytes of the size,
  and the body. The worker struct is a record with the fields of the C struct; the fixed buffer
  \<^verbatim>\<open>command\<close> is a list of 1024 bytes, and a store past its end is \<open>Out_of_bounds\<close>.
\<close>

section \<open>Constants and structs of master.h\<close>

abbreviation (input) START :: int where "START \<equiv> - 1"
abbreviation (input) DONE_SENDING :: int where "DONE_SENDING \<equiv> - 7"
abbreviation (input) NOT_DONE_SENDING :: int where "NOT_DONE_SENDING \<equiv> - 8"
abbreviation (input) NEED_SIZE :: int where "NEED_SIZE \<equiv> - 9"
abbreviation (input) RECIEVING_DATA :: int where "RECIEVING_DATA \<equiv> - 11"
abbreviation (input) FORWARD_DATA :: int where "FORWARD_DATA \<equiv> - 12"
abbreviation (input) FORWARDING_DATA :: int where "FORWARDING_DATA \<equiv> - 13"
abbreviation (input) BIG_FAILURE :: int where "BIG_FAILURE \<equiv> - 3"
abbreviation (input) COMMAND_BUF_SIZE :: nat where "COMMAND_BUF_SIZE \<equiv> 1024"

datatype command = INTERFACE_PUT | PUT

record task =
  file_name :: string
  orphan :: int
  fd_owner :: int

record worker =
  worker_fd :: int
  alive :: int
  IP :: string
  tasks :: "unit vector"
  CPU_usage :: dbl
  last_beat_received :: dbl
  status :: int
  command :: "char list"
  command_size :: nat
  to_do :: command
  temp_file_name :: "string option"
  file_size :: size_t
  size_buffer_pos :: nat
  temp_fd :: int
  fd_to_send_to :: int
  file_buffer_pos :: size_t

section \<open>Preparing a worker for the next message\<close>

text \<open>The file descriptor field is set to -1 before it is tested, as in the code.\<close>

definition reset_worker_for_parsing :: "worker \<Rightarrow> osys \<Rightarrow> worker \<times> osys" where
  "reset_worker_for_parsing newWorker os =
     (let w1 = newWorker\<lparr>temp_fd := - 1, command := replicate COMMAND_BUF_SIZE NUL,
                         command_size := 0, size_buffer_pos := 0, status := START\<rparr>;
          os1 = (if temp_fd w1 \<noteq> - 1 then sys_close os (temp_fd w1) else os)
      in (w1\<lparr>temp_fd := - 1, file_size := 0, temp_file_name := None, file_buffer_pos := 0,
             last_beat_received := Num 0\<rparr>, os1))"

text \<open>\<open>raw\<close> is what \<^verbatim>\<open>malloc\<close> returned: the fields the code does not set keep its values.\<close>

definition create_worker :: "worker \<Rightarrow> int \<Rightarrow> string \<Rightarrow> osys \<Rightarrow> (worker \<times> osys) res" where
  "create_worker raw fd ip os =
     bindr ptr_create (\<lambda>v.
       Inr (reset_worker_for_parsing
         (raw\<lparr>alive := 1, tasks := v, worker_fd := fd, IP := ip, temp_file_name := None,
              temp_fd := - 1, CPU_usage := Num (- 1), last_beat_received := Num 0\<rparr>) os))"

definition make_task :: "worker \<Rightarrow> task res" where
  "make_task w = bindr (or_fault Null_deref (temp_file_name w)) (\<lambda>name.
     Inr \<lparr>file_name = name, orphan = 0, fd_owner = fd_to_send_to w\<rparr>)"

section \<open>Writing a whole buffer\<close>

function write_all_loop :: "osys \<Rightarrow> int \<Rightarrow> char list \<Rightarrow> int \<Rightarrow> int \<times> osys" where
  "write_all_loop os socket buffer total_write =
     (if buffer = [] then (total_write, os)
      else (case sys_write os socket buffer of
        (WErr e, os') \<Rightarrow>
          if e = EINTR \<or> e = EAGAIN then write_all_loop os' socket buffer total_write
          else (- 1, os')
      | (WCount n, os') \<Rightarrow>
          if n = 0 then (total_write, os')
          else write_all_loop os' socket (drop n buffer) (total_write + int n)))"
  by pat_completeness auto
termination
  by (relation "measure (\<lambda>(os, socket, buffer, total). length (wplan os socket) + length buffer)")
    (auto dest!: sys_write_progress[OF sym] sys_write_count[OF sym])

declare write_all_loop.simps [simp del]

definition write_all_to_socket :: "osys \<Rightarrow> int \<Rightarrow> char list \<Rightarrow> int \<times> osys" where
  "write_all_to_socket os socket buffer = write_all_loop os socket buffer 0"

section \<open>Reading a message\<close>

subsection \<open>The header\<close>

text \<open>The loop ends with \<open>None\<close> at a newline and with \<open>Some r\<close> where the code returns \<open>r\<close>.\<close>

function get_command_loop :: "worker \<Rightarrow> osys \<Rightarrow> (int option \<times> worker \<times> osys) res" where
  "get_command_loop w os =
     (case sys_read os (worker_fd w) 1 of
        (RBlock, os') \<Rightarrow> Inl Blocks
      | (RErr e, os') \<Rightarrow>
          if e = EAGAIN then Inr (Some NOT_DONE_SENDING, w, os')
          else if e = EINTR then get_command_loop w os'
          else Inr (Some BIG_FAILURE, w, os')
      | (RData [], os') \<Rightarrow> Inr (Some BIG_FAILURE, w, os')
      | (RData (buff # _), os') \<Rightarrow>
          if buff = NEWLINE then Inr (None, w, os')
          else if command_size w < length (command w) then
            (let w' = w\<lparr>command := (command w)[command_size w := buff],
                        command_size := command_size w + 1\<rparr> in
             if 1025 < command_size w' then Inr (Some BIG_FAILURE, w', os')
             else get_command_loop w' os')
          else Inl Out_of_bounds)"
  by pat_completeness auto
termination
  by (relation "measures [\<lambda>(w, os). length (command w) - command_size w,
                          \<lambda>(w, os). readable os (worker_fd w)]")
    (auto dest: sys_read_retry_progress[OF sym])

declare get_command_loop.simps [simp del]

text \<open>What follows the first space, or nothing.\<close>

fun after_space :: "string \<Rightarrow> string" where
  "after_space [] = []"
| "after_space (c # cs) = (if c = SPACE then cs else after_space cs)"

definition parse_header :: "worker \<Rightarrow> osys \<Rightarrow> (int \<times> worker \<times> osys) res" where
  "parse_header w os =
     bindr (c_string (command w)) (\<lambda>header.
       if \<not> starts_with ''INTERFACE_PUT'' header \<and> \<not> starts_with ''PUT'' header
       then Inr (BIG_FAILURE, w, os)
       else
         (let name = after_space header;
              w' = w\<lparr>to_do := (if starts_with ''INTERFACE_PUT'' header then INTERFACE_PUT else PUT),
                     temp_file_name := Some name\<rparr>
          in Inr (if name = [] then BIG_FAILURE else DONE_SENDING, w', os)))"

definition get_command :: "worker \<Rightarrow> osys \<Rightarrow> (int \<times> worker \<times> osys) res" where
  "get_command w os =
     bindr (get_command_loop w os) (\<lambda>(r, w, os).
       case r of Some code \<Rightarrow> Inr (code, w, os) | None \<Rightarrow> parse_header w os)"

subsection \<open>The size\<close>

function get_size :: "worker \<Rightarrow> osys \<Rightarrow> (int \<times> worker \<times> osys) res" where
  "get_size w os =
     (case sys_read os (worker_fd w) 1 of
        (RBlock, os') \<Rightarrow> Inl Blocks
      | (RErr e, os') \<Rightarrow>
          if e = EAGAIN then Inr (NOT_DONE_SENDING, w, os')
          else if e = EINTR then get_size w os'
          else Inr (BIG_FAILURE, w, os')
      | (RData [], os') \<Rightarrow> Inr (BIG_FAILURE, w, os')
      | (RData (buff # _), os') \<Rightarrow>
          if size_buffer_pos w < 8 then
            (let w' = w\<lparr>file_size := set_size_byte (size_buffer_pos w) buff (file_size w),
                        size_buffer_pos := size_buffer_pos w + 1\<rparr> in
             if size_buffer_pos w' = 8 then Inr (DONE_SENDING, w', os') else get_size w' os')
          else Inl Out_of_bounds)"
  by pat_completeness auto
termination
  by (relation "measures [\<lambda>(w, os). 8 - size_buffer_pos w,
                          \<lambda>(w, os). readable os (worker_fd w)]")
    (auto dest: sys_read_retry_progress[OF sym])

declare get_size.simps [simp del]

subsection \<open>The body\<close>

text \<open>Never more than one buffer of 4096 bytes, and never past the end of the message.\<close>

definition block_size :: "size_t \<Rightarrow> nat" where
  "block_size left = (if left < 4096 then unat left else 4096)"

function receive_loop :: "worker \<Rightarrow> osys \<Rightarrow> (int \<times> worker \<times> osys) res" where
  "receive_loop w os =
     (if 0 < file_size w then
        (case sys_read os (worker_fd w) (block_size (file_size w)) of
           (RBlock, os') \<Rightarrow> Inl Blocks
         | (RErr e, os') \<Rightarrow>
             if e = EAGAIN then Inr (NOT_DONE_SENDING, w, os')
             else if e = EINTR then receive_loop w os'
             else Inr (BIG_FAILURE, w, os')
         | (RData buff, os') \<Rightarrow>
             if buff = [] then Inr (BIG_FAILURE, w, os')
             else
               (let (check_write, os'') = write_all_to_socket os' (temp_fd w) buff in
                if check_write = - 1 \<or> check_write = 0 then Inr (BIG_FAILURE, w, os'')
                else receive_loop
                  (w\<lparr>file_size := file_size w - of_nat (length buff)\<rparr>) os''))
      else Inr (DONE_SENDING, w, os))"
  by pat_completeness auto

lemma block_size_le: "block_size n \<le> unat n"
  by (simp add: block_size_def word_less_nat_alt)

lemma block_size_pos: "0 < n \<Longrightarrow> 0 < block_size n"
  by (simp add: block_size_def word_less_nat_alt)

lemma unat_minus_block:
  "sys_read os fd (block_size n) = (RData buff, os') \<Longrightarrow>
    unat (n - of_nat (length buff)) = unat n - length buff"
proof -
  assume "sys_read os fd (block_size n) = (RData buff, os')"
  then have "length buff \<le> unat n"
    using sys_read_length block_size_le le_trans by blast
  moreover from this have "unat (of_nat (length buff) :: size_t) = length buff"
    using unat_bound[of n] by (intro unat_of_nat_small) simp
  ultimately show ?thesis by (simp add: unat_sub_small word_le_nat_alt)
qed

lemma block_progress:
  "sys_read os fd (block_size n) = (RData buff, os') \<Longrightarrow> buff \<noteq> [] \<Longrightarrow>
    unat (n - of_nat (length buff)) < unat n"
proof -
  assume r: "sys_read os fd (block_size n) = (RData buff, os')" and ne: "buff \<noteq> []"
  have "0 < length buff" "length buff \<le> unat n"
    using ne sys_read_length[OF r] block_size_le[of n] by auto
  then show ?thesis using unat_minus_block[OF r] by linarith
qed

termination receive_loop
  by (relation "measures [\<lambda>(w, os). unat (file_size w), \<lambda>(w, os). readable os (worker_fd w)]")
    (auto dest: sys_read_retry_progress[OF sym] block_progress[OF sym])

declare receive_loop.simps [simp del]

definition open_with_all_permission :: "osys \<Rightarrow> string \<Rightarrow> int \<times> osys" where
  "open_with_all_permission os filename = sys_open_trunc os filename"

definition get_binary_data :: "worker \<Rightarrow> osys \<Rightarrow> (int \<times> worker \<times> osys) res" where
  "get_binary_data w os =
     (if temp_fd w = - 1 then
        bindr (or_fault Null_deref (temp_file_name w)) (\<lambda>name.
          let (fd, os') = open_with_all_permission os name in
          receive_loop (w\<lparr>temp_fd := fd\<rparr>) os')
      else receive_loop w os)"

section \<open>Forwarding a file\<close>

definition get_file_size :: "osys \<Rightarrow> string \<Rightarrow> size_t" where
  "get_file_size os file =
     (case disk os file of None \<Rightarrow> 0 | Some c \<Rightarrow> of_nat (length c))"

function put_loop :: "osys \<Rightarrow> int \<Rightarrow> int \<Rightarrow> size_t \<Rightarrow> (int \<times> osys) res" where
  "put_loop os src_fd fd_to_send left =
     (if left \<noteq> 0 then
        (case sys_read os src_fd (block_size left) of
           (RBlock, os') \<Rightarrow> Inl Blocks
         | (RErr e, os') \<Rightarrow>
             if e = EINTR then put_loop os' src_fd fd_to_send left
             else Inr (BIG_FAILURE, os')
         | (RData buff, os') \<Rightarrow>
             if buff = [] then Inr (BIG_FAILURE, os')
             else
               (let (check_write, os'') = write_all_to_socket os' fd_to_send buff in
                if check_write = - 1 \<or> check_write = 0 \<or> check_write \<noteq> int (length buff)
                then Inr (BIG_FAILURE, os'')
                else put_loop os'' src_fd fd_to_send (left - of_nat (length buff))))
      else Inr (DONE_SENDING, os))"
  by pat_completeness auto
termination
  by (relation "measures [\<lambda>(os, src, dst, left). unat left, \<lambda>(os, src, dst, left). readable os src]")
    (auto dest: sys_read_retry_progress[OF sym] block_progress[OF sym])

declare put_loop.simps [simp del]

definition put_header :: "string \<Rightarrow> string" where
  "put_header name = ''PUT '' @ name @ [NEWLINE]"

text \<open>The mutex is a flag: locking it twice in one thread is a deadlock, and each return path
  gives the value the code leaves it with. The header is printed into a buffer of 4096 bytes.\<close>

definition do_put :: "int \<Rightarrow> worker \<Rightarrow> bool \<times> osys \<Rightarrow> (int \<times> bool \<times> osys) res" where
  "do_put fd_to_send w = (\<lambda>(mutex, os).
     if mutex then Inl Deadlock
     else bindr (or_fault Null_deref (temp_file_name w)) (\<lambda>name.
       let src_fd = temp_fd w; size = get_file_size os name; buff = put_header name in
       if 4096 < length buff + 1 then Inl Out_of_bounds
       else
         (let (r1, os1) = write_all_to_socket os fd_to_send buff in
          if r1 \<noteq> int (length buff) then Inr (BIG_FAILURE, False, os1)
          else
            (let (r2, os2) = write_all_to_socket os1 fd_to_send (size_bytes size) in
             if r2 \<noteq> 8 then Inr (BIG_FAILURE, False, os2)
             else bindr (put_loop (seek_start os2 src_fd) src_fd fd_to_send size)
               (\<lambda>(r, os3). Inr (r, False, os3))))))"

section \<open>The writer keeps its contract\<close>

definition retried_by_master :: "errno \<Rightarrow> bool" where
  "retried_by_master e \<longleftrightarrow> e = EINTR \<or> e = EAGAIN"

lemma retried_by_master_simps [simp]:
  "retried_by_master EINTR" "retried_by_master EAGAIN" "\<not> retried_by_master EBADF"
  "\<not> retried_by_master EPIPE" "\<not> retried_by_master EOTHER"
  by (simp_all add: retried_by_master_def)

lemma write_all_loop_complete:
  "fds os fd \<noteq> None \<Longrightarrow> offset_ok os fd \<Longrightarrow> willing retried_by_master (wplan os fd) \<Longrightarrow>
    \<exists>ps. write_all_loop os fd bs t =
        (t + int (length bs), accept_bytes (set_wplan os fd ps) fd bs)
      \<and> willing retried_by_master ps"
proof (induction os fd bs t rule: write_all_loop.induct)
  case (1 os fd bs t)
  show ?case
  proof (cases "bs = []")
    case True
    then show ?thesis using "1.prems"
      by (intro exI[of _ "wplan os fd"])
        (simp add: write_all_loop.simps[of os fd "[]" t] set_wplan_same)
  next
    case False
    obtain r os' where w: "sys_write os fd bs = (r, os')" by fastforce
    from w "1.prems"(1) show ?thesis
    proof (cases rule: sys_write_cases)
      case (refused e ps)
      then have e: "e = EINTR \<or> e = EAGAIN" "willing retried_by_master ps"
        using "1.prems"(3) by (auto simp: retried_by_master_def[of e])
      have "\<exists>qs. write_all_loop os' fd bs t =
          (t + int (length bs), accept_bytes (set_wplan os' fd qs) fd bs)
        \<and> willing retried_by_master qs"
        using "1.IH"(2)[OF False w[symmetric] refused(1) e(1)] refused "1.prems" e(2) by simp
      then show ?thesis
        using refused e(1) False w by (subst write_all_loop.simps) simp
    next
      case (counted n ps)
      have n: "n \<noteq> 0" "willing retried_by_master ps"
        using counted(4)[OF "1.prems"(3)] False by auto
      have ok: "offset_ok os' fd" using counted(3) "1.prems"(2) by (simp add: offset_ok_accept)
      have "\<exists>qs. write_all_loop os' fd (drop n bs) (t + int n) =
          (t + int n + int (length (drop n bs)),
           accept_bytes (set_wplan os' fd qs) fd (drop n bs)) \<and> willing retried_by_master qs"
        using "1.IH"(1)[OF False w[symmetric] counted(1) n(1)] ok counted(3) n(2) "1.prems"(1)
        by simp
      then show ?thesis
        using counted(1-3) n(1) False w
        by (subst write_all_loop.simps) (auto simp: accept_bytes_set_wplan accept_bytes_append)
    qed
  qed
qed

lemma write_all_loop_prefix:
  "fds os fd \<noteq> None \<Longrightarrow> offset_ok os fd \<Longrightarrow> write_all_loop os fd bs t = (r, os') \<Longrightarrow>
    \<exists>n ps. n \<le> length bs \<and> os' = accept_bytes (set_wplan os fd ps) fd (take n bs)
      \<and> (r = - 1 \<or> r = t + int n)"
proof (induction os fd bs t rule: write_all_loop.induct)
  case (1 os fd bs t)
  show ?case
  proof (cases "bs = []")
    case True
    then show ?thesis using "1.prems"
      by (intro exI[of _ 0] exI[of _ "wplan os fd"])
        (simp add: write_all_loop.simps[of os fd "[]" t] set_wplan_same)
  next
    case False
    obtain q os1 where w: "sys_write os fd bs = (q, os1)" by fastforce
    from w "1.prems"(1) show ?thesis
    proof (cases rule: sys_write_cases)
      case (refused e ps)
      show ?thesis
      proof (cases "e = EINTR \<or> e = EAGAIN")
        case True
        then have "write_all_loop os1 fd bs t = (r, os')"
          using "1.prems"(3) refused(1) False w by (subst (asm) write_all_loop.simps) simp
        from "1.IH"(2)[OF False w[symmetric] refused(1) True _ _ this] refused(2) "1.prems"(1,2)
        show ?thesis by simp
      next
        case nr: False
        then have "r = - 1" "os' = os1"
          using "1.prems"(3) refused(1) False w by (subst (asm) write_all_loop.simps, simp)+
        then show ?thesis using refused(2) "1.prems"(2)
          by (intro exI[of _ 0] exI[of _ ps]) simp
      qed
    next
      case (counted n ps)
      show ?thesis
      proof (cases "n = 0")
        case True
        then have "r = t" "os' = os1"
          using "1.prems"(3) counted(1) False w by (subst (asm) write_all_loop.simps, simp)+
        then show ?thesis using counted(3) True by (intro exI[of _ 0] exI[of _ ps]) simp
      next
        case nz: False
        then have rec: "write_all_loop os1 fd (drop n bs) (t + int n) = (r, os')"
          using "1.prems"(3) counted(1) False w by (subst (asm) write_all_loop.simps) simp
        have "offset_ok os1 fd" "fds os1 fd \<noteq> None"
          using counted(3) "1.prems"(1,2) by (auto simp: offset_ok_accept)
        from "1.IH"(1)[OF False w[symmetric] counted(1) nz this(2,1) rec]
        obtain m qs where m: "m \<le> length (drop n bs)"
          "os' = accept_bytes (set_wplan os1 fd qs) fd (take m (drop n bs))"
          "r = - 1 \<or> r = t + int n + int m" by blast
        have "take n bs @ take m (drop n bs) = take (n + m) bs" by (simp add: take_add)
        then show ?thesis using m counted(2,3)
          by (intro exI[of _ "n + m"] exI[of _ qs])
            (auto simp: accept_bytes_set_wplan accept_bytes_append)
      qed
    qed
  qed
qed

interpretation master_writer: full_writer write_all_to_socket retried_by_master
  by unfold_locales
    (use write_all_loop_complete[where t = 0] write_all_loop_prefix[where t = 0]
      in \<open>simp_all add: write_all_to_socket_def\<close>)

section \<open>The header reader\<close>

text \<open>The command buffer: its 1024 bytes are what was received and null bytes after it.\<close>

definition received :: "worker \<Rightarrow> char list" where
  "received w = take (command_size w) (command w)"

definition command_ok :: "worker \<Rightarrow> bool" where
  "command_ok w \<longleftrightarrow> command_size w \<le> COMMAND_BUF_SIZE \<and> length (command w) = COMMAND_BUF_SIZE
     \<and> drop (command_size w) (command w) = replicate (COMMAND_BUF_SIZE - command_size w) NUL"

lemma command_ok_length: "command_ok w \<Longrightarrow> length (command w) = COMMAND_BUF_SIZE"
  unfolding command_ok_def by (elim conjE)

lemma command_ok_size: "command_ok w \<Longrightarrow> command_size w \<le> COMMAND_BUF_SIZE"
  unfolding command_ok_def by (elim conjE)

lemma length_received: "command_ok w \<Longrightarrow> length (received w) = command_size w"
  using command_ok_length[of w] command_ok_size[of w] by (simp add: received_def)

lemma command_received:
  "command_ok w \<Longrightarrow> command w = received w @ replicate (COMMAND_BUF_SIZE - command_size w) NUL"
  unfolding command_ok_def received_def by (metis append_take_drop_id)

lemma command_okI:
  assumes "command w = bs @ replicate (COMMAND_BUF_SIZE - length bs) NUL"
    "command_size w = length bs" "length bs \<le> COMMAND_BUF_SIZE"
  shows "command_ok w" "received w = bs"
  using assms by (simp_all add: command_ok_def received_def)

definition store_byte :: "worker \<Rightarrow> char \<Rightarrow> worker" where
  "store_byte w b = w\<lparr>command := (command w)[command_size w := b],
                      command_size := command_size w + 1\<rparr>"

definition store_bytes :: "worker \<Rightarrow> char list \<Rightarrow> worker" where
  "store_bytes w bs = foldl store_byte w bs"

lemma store_byte_simps [simp]:
  "worker_fd (store_byte w b) = worker_fd w" "command_size (store_byte w b) = Suc (command_size w)"
  "alive (store_byte w b) = alive w" "status (store_byte w b) = status w"
  "length (command (store_byte w b)) = length (command w)"
  by (simp_all add: store_byte_def)

lemma store_bytes_simps [simp]:
  "store_bytes w [] = w" "store_bytes w (b # bs) = store_bytes (store_byte w b) bs"
  "worker_fd (store_bytes w bs) = worker_fd w"
  "command_size (store_bytes w bs) = command_size w + length bs"
  "length (command (store_bytes w bs)) = length (command w)"
  by (induction bs arbitrary: w) (simp_all add: store_bytes_def)

lemma store_byte_ok:
  assumes "command_ok w" "command_size w < COMMAND_BUF_SIZE"
  shows "command_ok (store_byte w b)" "received (store_byte w b) = received w @ [b]"
proof -
  have len: "length (received w) = command_size w" using assms(1) by (rule length_received)
  have "replicate (COMMAND_BUF_SIZE - command_size w) NUL
      = NUL # replicate (COMMAND_BUF_SIZE - Suc (command_size w)) NUL"
    using assms(2) by (metis Suc_diff_Suc replicate_Suc)
  then have "(command w)[command_size w := b]
      = (received w @ [b]) @ replicate (COMMAND_BUF_SIZE - length (received w @ [b])) NUL"
    using len by (simp add: command_received[OF assms(1)] list_update_append)
  then have "command (store_byte w b)
      = (received w @ [b]) @ replicate (COMMAND_BUF_SIZE - length (received w @ [b])) NUL"
    by (simp add: store_byte_def)
  from command_okI[OF this] len assms(2) show "command_ok (store_byte w b)"
    "received (store_byte w b) = received w @ [b]" by auto
qed

lemma store_bytes_ok:
  "command_ok w \<Longrightarrow> command_size w + length bs \<le> COMMAND_BUF_SIZE \<Longrightarrow>
    command_ok (store_bytes w bs) \<and> received (store_bytes w bs) = received w @ bs"
  by (induction bs arbitrary: w) (auto simp: store_byte_ok)

text \<open>One step of the loop on a byte that is not a newline.\<close>

lemma get_command_loop_byte:
  assumes "sys_read os (worker_fd w) 1 = (RData [b], os')" "b \<noteq> NEWLINE" "command_ok w"
    "command_size w < COMMAND_BUF_SIZE"
  shows "get_command_loop w os = get_command_loop (store_byte w b) os'"
  using assms command_ok_length[OF assms(3)]
  by (subst get_command_loop.simps) (simp add: store_byte_def Let_def)

text \<open>The bytes of a line that fits are stored, and the loop stops after its newline.\<close>

lemma get_command_loop_line:
  assumes "fds os (worker_fd w) = Some (Sock nb)" "command_ok w"
    "stream (\<lambda>e. e = EINTR) (incoming os (worker_fd w)) = line @ NEWLINE # rest"
    "NEWLINE \<notin> set line" "command_size w + length line \<le> COMMAND_BUF_SIZE"
  shows "\<exists>es. get_command_loop w os
      = Inr (None, store_bytes w line, set_incoming os (worker_fd w) es)
    \<and> stream (\<lambda>e. e = EINTR) es = rest"
  using assms
proof (induction "length line + arrivals_size (incoming os (worker_fd w))" arbitrary: w os line
    rule: less_induct)
  case less
  let ?fd = "worker_fd w"
  obtain r os' where r: "sys_read os ?fd 1 = (r, os')" by fastforce
  obtain b bs where b: "line @ NEWLINE # rest = b # bs" by (cases line) auto
  from r less.prems(1) less.prems(3)[unfolded b] show ?case
  proof (cases rule: sys_read_byte)
    case (retry e es)
    have "\<exists>es'. get_command_loop w os'
        = Inr (None, store_bytes w line, set_incoming os' ?fd es')
      \<and> stream (\<lambda>e. e = EINTR) es' = rest"
      using less.prems retry b by (intro less.hyps) auto
    then show ?thesis using retry r by (subst get_command_loop.simps) auto
  next
    case (byte es)
    show ?thesis
    proof (cases line)
      case Nil
      with byte b r show ?thesis by (subst get_command_loop.simps) auto
    next
      case (Cons c line')
      then have c: "c = b" "bs = line' @ NEWLINE # rest" using b by auto
      have len: "command_size w < COMMAND_BUF_SIZE" using Cons less.prems(5) by simp
      have "\<exists>es'. get_command_loop (store_byte w b) os'
          = Inr (None, store_bytes (store_byte w b) line',
                 set_incoming os' (worker_fd (store_byte w b)) es')
        \<and> stream (\<lambda>e. e = EINTR) es' = rest"
      proof (rule less.hyps)
        have "arrivals_size es \<le> arrivals_size (incoming os ?fd)"
          using sys_read_data_progress[OF r[unfolded byte(1)]] byte(2) less.prems(1)
          by (simp add: readable_def)
        then show "length line' + arrivals_size (incoming os' (worker_fd (store_byte w b)))
            < length line + arrivals_size (incoming os ?fd)"
          using Cons byte(2) by simp
      qed (use less.prems byte c Cons len in \<open>auto simp: store_byte_ok\<close>)
      moreover have "get_command_loop w os = get_command_loop (store_byte w b) os'"
        using r byte(1) less.prems(2,4) Cons c(1) len by (intro get_command_loop_byte) auto
      ultimately show ?thesis using Cons c(1) byte(2) by auto
    qed
  qed
qed

text \<open>A line that does not fit is stored past the end of the buffer: the guard of the code,
  \<^verbatim>\<open>command_size > 1025\<close>, comes too late.\<close>

lemma get_command_loop_overflow:
  assumes "fds os (worker_fd w) = Some (Sock nb)" "command_ok w"
    "stream (\<lambda>e. e = EINTR) (incoming os (worker_fd w)) = line @ rest"
    "NEWLINE \<notin> set line" "COMMAND_BUF_SIZE < command_size w + length line"
  shows "get_command_loop w os = Inl Out_of_bounds"
  using assms
proof (induction "length line + arrivals_size (incoming os (worker_fd w))" arbitrary: w os line
    rule: less_induct)
  case less
  let ?fd = "worker_fd w"
  have "line \<noteq> []" using command_ok_size[OF less.prems(2)] less.prems(5) by auto
  then obtain b line' where b: "line = b # line'" by (cases line) auto
  obtain r os' where r: "sys_read os ?fd 1 = (r, os')" by fastforce
  have str: "stream (\<lambda>e. e = EINTR) (incoming os ?fd) = b # (line' @ rest)"
    using less.prems(3) b by simp
  from r less.prems(1) str show ?case
  proof (cases rule: sys_read_byte)
    case (retry e es)
    have "get_command_loop w os' = Inl Out_of_bounds"
      using less.prems retry b by (intro less.hyps[of line]) auto
    then show ?thesis using retry r by (subst get_command_loop.simps) auto
  next
    case (byte es)
    have nn: "b \<noteq> NEWLINE" using less.prems(4) b by auto
    show ?thesis
    proof (cases "command_size w < COMMAND_BUF_SIZE")
      case True
      have "arrivals_size es \<le> arrivals_size (incoming os ?fd)"
        using sys_read_data_progress[OF r[unfolded byte(1)]] byte(2) less.prems(1)
        by (simp add: readable_def)
      then have "get_command_loop (store_byte w b) os' = Inl Out_of_bounds"
        using less.prems byte b True
        by (intro less.hyps[of line']) (auto simp: store_byte_ok)
      then show ?thesis
        using get_command_loop_byte[OF _ nn less.prems(2) True, of os os'] r byte(1) by simp
    next
      case False
      then show ?thesis using r byte(1) nn command_ok_length[OF less.prems(2)]
        by (subst get_command_loop.simps) simp
    qed
  qed
qed

section \<open>What a header means\<close>

lemma after_space_append: "SPACE \<notin> set verb \<Longrightarrow> after_space (verb @ SPACE # name) = name"
  by (induction verb) auto

lemma c_string_command:
  assumes "command_ok w" "command_size w < COMMAND_BUF_SIZE"
  shows "c_string (command w) = Inr (cstr (received w))"
  using assms(2) by (subst command_received[OF assms(1)]) (rule c_string_padded, simp)

lemma parse_header_put:
  assumes "command_ok w" "command_size w < COMMAND_BUF_SIZE"
    "received w = ''PUT '' @ name" "NUL \<notin> set name" "name \<noteq> []"
  shows "parse_header w os = Inr (DONE_SENDING, w\<lparr>to_do := PUT, temp_file_name := Some name\<rparr>, os)"
proof -
  have "cstr (received w) = ''PUT '' @ name" using assms(3,4) by (simp add: cstr_id)
  then show ?thesis using assms(5)
    by (simp add: parse_header_def c_string_command[OF assms(1,2)])
qed

lemma parse_header_interface_put:
  assumes "command_ok w" "command_size w < COMMAND_BUF_SIZE"
    "received w = ''INTERFACE_PUT '' @ name" "NUL \<notin> set name" "name \<noteq> []"
  shows "parse_header w os
    = Inr (DONE_SENDING, w\<lparr>to_do := INTERFACE_PUT, temp_file_name := Some name\<rparr>, os)"
proof -
  have "cstr (received w) = ''INTERFACE_PUT '' @ name" using assms(3,4) by (simp add: cstr_id)
  then show ?thesis using assms(5)
    by (simp add: parse_header_def c_string_command[OF assms(1,2)])
qed

lemma parse_header_invalid:
  assumes "command_ok w" "command_size w < COMMAND_BUF_SIZE"
    "\<not> starts_with ''INTERFACE_PUT'' (cstr (received w))" "\<not> starts_with ''PUT'' (cstr (received w))"
  shows "parse_header w os = Inr (BIG_FAILURE, w, os)"
  using assms by (simp add: parse_header_def c_string_command)

text \<open>A whole line, from the connection to its meaning.\<close>

lemma get_command_line:
  assumes "fds os (worker_fd w) = Some (Sock nb)" "command_ok w"
    "stream (\<lambda>e. e = EINTR) (incoming os (worker_fd w)) = line @ NEWLINE # rest"
    "NEWLINE \<notin> set line" "command_size w + length line < COMMAND_BUF_SIZE"
  obtains es where
    "get_command w os = parse_header (store_bytes w line) (set_incoming os (worker_fd w) es)"
    "stream (\<lambda>e. e = EINTR) es = rest" "command_ok (store_bytes w line)"
    "received (store_bytes w line) = received w @ line"
  using get_command_loop_line[OF assms(1-4)] store_bytes_ok[OF assms(2), of line] assms(5)
  by (force simp: get_command_def)

lemma get_command_long_line:
  assumes "fds os (worker_fd w) = Some (Sock nb)" "command_ok w" "command_size w = 0"
    "stream (\<lambda>e. e = EINTR) (incoming os (worker_fd w)) = line @ NEWLINE # rest"
    "NEWLINE \<notin> set line" "NUL \<notin> set line" "COMMAND_BUF_SIZE \<le> length line"
  shows "get_command w os = Inl Out_of_bounds"
proof (cases "length line = COMMAND_BUF_SIZE")
  case True
  obtain es where es: "get_command_loop w os
      = Inr (None, store_bytes w line, set_incoming os (worker_fd w) es)"
    using get_command_loop_line[OF assms(1,2,4,5)] assms(3) True by auto
  have ok: "command_ok (store_bytes w line)" "received (store_bytes w line) = line"
    using store_bytes_ok[OF assms(2), of line] assms(3) True by (auto simp: received_def)
  have "command (store_bytes w line) = line"
    using command_received[OF ok(1)] ok(2) assms(3) True by simp
  then show ?thesis using es assms(6)
    by (simp add: get_command_def parse_header_def c_string_def)
next
  case False
  then have "COMMAND_BUF_SIZE < command_size w + length line" using assms(3,7) by simp
  from get_command_loop_overflow[OF assms(1,2,4,5) this] show ?thesis
    by (simp add: get_command_def)
qed

end
