(* ===== verification/Resumption.thy ===== *)
theory Resumption
  imports Master_Net
begin

text \<open>
  The master reads messages from non-blocking sockets: \<open>get_command\<close>, \<open>get_size\<close> and
  \<open>get_binary_data\<close> return \<^verbatim>\<open>NOT_DONE_SENDING\<close> at \<^verbatim>\<open>EAGAIN\<close> and are called again when more data has
  come. The contract \<open>resumable\<close> says that such a call goes on exactly where the last one
  stopped, so that the way the network cuts a message into pieces has no influence on the result;
  each reader keeps it.
\<close>

section \<open>The contract\<close>

text \<open>What a call has done, \<open>x\<close>, against the call with \<open>es\<close> behind the data: the same, or, where the
  call stopped for want of data, what the next call does with \<open>es\<close>.\<close>

definition resumes :: "'r \<Rightarrow> (worker \<Rightarrow> osys \<Rightarrow> ('r \<times> worker \<times> osys) res) \<Rightarrow>
    worker \<Rightarrow> osys \<Rightarrow> arrival list \<Rightarrow> 'r \<times> worker \<times> osys \<Rightarrow> bool" where
  "resumes again step w os es = (\<lambda>(r, w', os').
     worker_fd w' = worker_fd w \<and> fds os' (worker_fd w) = fds os (worker_fd w) \<and>
     no_false_empty os' (worker_fd w) \<and>
     step w (feed os (worker_fd w) es) =
       (if r = again then step w' (feed os' (worker_fd w) es)
        else Inr (r, w', feed os' (worker_fd w) es)))"

lemma resumes_step:
  assumes "resumes again step w1 os1 es x" "worker_fd w1 = worker_fd w"
    "fds os1 (worker_fd w) = fds os (worker_fd w)"
    "step w (feed os (worker_fd w) es) = step w1 (feed os1 (worker_fd w) es)"
  shows "resumes again step w os es x"
  using assms by (simp add: resumes_def split_beta)

text \<open>The event loop: one call, and one more for each delivery while the message is not complete.
  What arrives after the end of the message stays on the descriptor.\<close>

fun deliver :: "'r \<Rightarrow> (worker \<Rightarrow> osys \<Rightarrow> ('r \<times> worker \<times> osys) res) \<Rightarrow>
    worker \<Rightarrow> osys \<Rightarrow> arrival list list \<Rightarrow> ('r \<times> worker \<times> osys) res" where
  "deliver again step w os [] = step w os"
| "deliver again step w os (es # ess) =
     bindr (step w os) (\<lambda>(r, w', os').
       if r = again then deliver again step w' (feed os' (worker_fd w') es) ess
       else Inr (r, w', feed os' (worker_fd w') (concat (es # ess))))"

locale resumable =
  fixes again :: 'r
    and step :: "worker \<Rightarrow> osys \<Rightarrow> ('r \<times> worker \<times> osys) res"
    and inv :: "worker \<Rightarrow> osys \<Rightarrow> bool"
  assumes resume: "step w os = Inr x \<Longrightarrow> fds os (worker_fd w) = Some (Sock True) \<Longrightarrow>
        no_false_empty os (worker_fd w) \<Longrightarrow> inv w os \<Longrightarrow> resumes again step w os es x"
    and inv_kept: "step w os = Inr (r, w', os') \<Longrightarrow> fds os (worker_fd w) = Some (Sock True) \<Longrightarrow>
        no_false_empty os (worker_fd w) \<Longrightarrow> inv w os \<Longrightarrow> inv w' os'"
    and inv_feed: "inv w os \<Longrightarrow> inv w (feed os (worker_fd w) es)"
begin

text \<open>Delivering a message in pieces is delivering it at once.\<close>

lemma pieces:
  assumes "deliver again step w os ess = Inr x" "fds os (worker_fd w) = Some (Sock True)"
    "no_false_empty os (worker_fd w)" "inv w os" "\<forall>es\<in>set ess. Fail EAGAIN \<notin> set es"
  shows "step w (feed os (worker_fd w) (concat ess)) = Inr x"
  using assms
proof (induction ess arbitrary: w os)
  case (Cons es ess)
  obtain r w' os' where s: "step w os = Inr (r, w', os')"
    using Cons.prems(1) by (auto simp: bindr_eq_Inr)
  note step = resume[OF s Cons.prems(2-4), of "es @ concat ess", unfolded resumes_def, simplified]
  show ?case
  proof (cases "r = again")
    case True
    have "no_false_empty (feed os' (worker_fd w') es) (worker_fd w')"
      using step Cons.prems(5) by (simp add: no_false_empty_def)
    moreover have "inv w' (feed os' (worker_fd w') es)"
      using inv_kept[OF s Cons.prems(2-4)] by (rule inv_feed)
    ultimately have "step w' (feed (feed os' (worker_fd w') es) (worker_fd w') (concat ess)) = Inr x"
      using Cons s step True by (intro Cons.IH) auto
    then show ?thesis using step True by simp
  next
    case False
    then show ?thesis using step s Cons.prems(1) by simp
  qed
qed simp

end

section \<open>Headers and sizes\<close>

lemma sys_read_sock:
  assumes "sys_read os fd n = (r, os')" "fds os fd = Some (Sock nb)"
  shows "fds os' = fds os" "disk os' = disk os" "denied os' = denied os" "sent os' = sent os"
    "next_fd os' = next_fd os" "wplan os' = wplan os"
    "\<forall>fd'. fd' \<noteq> fd \<longrightarrow> incoming os' fd' = incoming os fd'"
  using assms by (auto simp: sys_read_def Let_def split: prod.splits if_splits)

lemma get_command_loop_resumes:
  assumes "get_command_loop w os = Inr x" "fds os (worker_fd w) = Some (Sock True)"
    "no_false_empty os (worker_fd w)"
  shows "resumes (Some NOT_DONE_SENDING) get_command_loop w os es x"
  using assms
proof (induction w os rule: get_command_loop.induct)
  case (1 w os)
  let ?fd = "worker_fd w"
  obtain q os1 where q: "sys_read os ?fd 1 = (q, os1)" by fastforce
  note frame = sys_read_sock(1)[OF q "1.prems"(2)]
  note now = "1.prems"(1)[unfolded get_command_loop.simps[of w os] q]
  note later = get_command_loop.simps[of w "feed os ?fd es"]
  from q "1.prems"(2,3) zero_less_one show ?case
  proof (cases rule: sys_read_feed[where es = es])
    case empty
    then show ?thesis using now frame later
      by (auto simp: resumes_def get_command_loop.simps[of w "feed os1 ?fd es"])
  next
    case same
    note first = later[unfolded same(2)]
    show ?thesis
    proof (cases q)
      case (RErr e)
      show ?thesis
      proof (cases "e = EINTR")
        case True
        then show ?thesis using now RErr first frame same
          by (intro resumes_step[OF "1.IH"(2)[OF q[symmetric] RErr]]) auto
      qed (use now RErr same first frame in \<open>auto simp: resumes_def\<close>)
    next
      case (RData bs)
      show ?thesis
      proof (cases bs)
        case (Cons b bs')
        show ?thesis
        proof (cases "b = NEWLINE \<or> 1025 < command_size (store_byte w b)")
          case True
          then show ?thesis using now RData Cons same first frame
            by (auto simp: resumes_def store_byte_def split: if_splits)
        next
          case False
          then have stop: "b \<noteq> NEWLINE" "command_size w < length (command w)"
            "\<not> 1025 < command_size (store_byte w b)"
            using now RData Cons by (auto split: if_splits)
          show ?thesis using now RData Cons same first stop frame
            by (intro resumes_step[OF "1.IH"(1)[OF q[symmetric] RData Cons stop(1,2)
                  store_byte_def stop(3)]]) (auto simp: store_byte_def)
        qed
      qed (use now RData same first frame in \<open>auto simp: resumes_def\<close>)
    next
      case RBlock
      then show ?thesis using now by simp
    qed
  qed
qed

lemma get_command_resumes:
  assumes "get_command w os = Inr x" "fds os (worker_fd w) = Some (Sock True)"
    "no_false_empty os (worker_fd w)"
  shows "resumes NOT_DONE_SENDING get_command w os es x"
proof -
  obtain r w1 os1 where l: "get_command_loop w os = Inr (r, w1, os1)"
    using assms(1) by (auto simp: get_command_def bindr_eq_Inr)
  note loop = get_command_loop_resumes[OF l assms(2,3), of es, unfolded resumes_def, simplified]
  show ?thesis
  proof (cases r)
    case None
    obtain header where h: "c_string (command w1) = Inr header"
      using assms(1) l None by (auto simp: get_command_def parse_header_def bindr_eq_Inr)
    then show ?thesis using assms(1) l None loop
      by (auto simp: get_command_def parse_header_def resumes_def Let_def split: if_splits)
  next
    case (Some code)
    then show ?thesis using assms(1) l loop
      by (auto simp: get_command_def resumes_def split: if_splits)
  qed
qed

lemma get_size_resumes:
  assumes "get_size w os = Inr x" "fds os (worker_fd w) = Some (Sock True)"
    "no_false_empty os (worker_fd w)"
  shows "resumes NOT_DONE_SENDING get_size w os es x"
  using assms
proof (induction w os rule: get_size.induct)
  case (1 w os)
  let ?fd = "worker_fd w"
  obtain q os1 where q: "sys_read os ?fd 1 = (q, os1)" by fastforce
  note frame = sys_read_sock(1)[OF q "1.prems"(2)]
  note now = "1.prems"(1)[unfolded get_size.simps[of w os] q]
  note later = get_size.simps[of w "feed os ?fd es"]
  from q "1.prems"(2,3) zero_less_one show ?case
  proof (cases rule: sys_read_feed[where es = es])
    case empty
    then show ?thesis using now frame later
      by (auto simp: resumes_def get_size.simps[of w "feed os1 ?fd es"])
  next
    case same
    note first = later[unfolded same(2)]
    show ?thesis
    proof (cases q)
      case (RErr e)
      show ?thesis
      proof (cases "e = EINTR")
        case True
        then show ?thesis using now RErr first frame same
          by (intro resumes_step[OF "1.IH"(2)[OF q[symmetric] RErr]]) auto
      qed (use now RErr same first frame in \<open>auto simp: resumes_def\<close>)
    next
      case (RData bs)
      show ?thesis
      proof (cases bs)
        case (Cons b bs')
        then have pos: "size_buffer_pos w < 8" using now RData by (auto split: if_splits)
        show ?thesis
        proof (cases "size_buffer_pos w = 7")
          case True
          then show ?thesis using now RData Cons same first frame pos
            by (auto simp: resumes_def)
        next
          case False
          then show ?thesis using now RData Cons same first frame pos
            by (intro resumes_step[OF "1.IH"(1)[OF q[symmetric] RData Cons pos refl]]) auto
        qed
      qed (use now RData same first frame in \<open>auto simp: resumes_def\<close>)
    next
      case RBlock
      then show ?thesis using now by simp
    qed
  qed
qed

interpretation header: resumable NOT_DONE_SENDING get_command "\<lambda>_ _. True"
  by unfold_locales (auto intro: get_command_resumes)

interpretation size: resumable NOT_DONE_SENDING get_size "\<lambda>_ _. True"
  by unfold_locales (auto intro: get_size_resumes)

section \<open>The body\<close>

text \<open>The temporary file is not the connection.\<close>

definition temp_apart :: "worker \<Rightarrow> osys \<Rightarrow> bool" where
  "temp_apart w os \<longleftrightarrow> temp_fd w \<noteq> worker_fd w \<and> 0 \<le> worker_fd w \<and> worker_fd w < next_fd os"

lemma write_all_feed:
  "write_all_loop (feed os fd es) fd' bs t
    = (let (r, os') = write_all_loop os fd' bs t in (r, feed os' fd es))"
proof (induction os fd' bs t rule: write_all_loop.induct)
  case (1 os fd' bs t)
  show ?case
  proof (cases "bs = []")
    case False
    obtain r os1 where w: "sys_write os fd' bs = (r, os1)" by fastforce
    show ?thesis
      using False w "1.IH"(1)[OF False w[symmetric]] "1.IH"(2)[OF False w[symmetric]]
      by (auto simp: write_all_loop.simps[of "feed os fd es"] write_all_loop.simps[of os]
          sys_write_feed split: wr.split)
  qed (simp add: write_all_loop.simps[of _ _ "[]"])
qed

lemma sys_write_frame:
  "sys_write os fd bs = (r, os') \<Longrightarrow> incoming os' = incoming os \<and> next_fd os' = next_fd os
    \<and> denied os' = denied os \<and> (\<forall>fd'. fd' \<noteq> fd \<longrightarrow> fds os' fd' = fds os fd')
    \<and> (fds os fd \<noteq> None \<longrightarrow> fds os' fd \<noteq> None)"
  by (auto simp: sys_write_def accept_bytes_def Let_def
      split: if_splits list.splits acceptance.splits option.splits fd_kind.splits)

lemma write_all_frame:
  "write_all_loop os fd bs t = (r, os') \<Longrightarrow> incoming os' = incoming os \<and> next_fd os' = next_fd os
    \<and> denied os' = denied os \<and> (\<forall>fd'. fd' \<noteq> fd \<longrightarrow> fds os' fd' = fds os fd')
    \<and> (fds os fd \<noteq> None \<longrightarrow> fds os' fd \<noteq> None)"
proof (induction os fd bs t rule: write_all_loop.induct)
  case (1 os fd bs t)
  show ?case
  proof (cases "bs = []")
    case True
    then show ?thesis using "1.prems" by (simp add: write_all_loop.simps[of _ _ "[]"])
  next
    case False
    obtain q os1 where w: "sys_write os fd bs = (q, os1)" by fastforce
    note first = "1.prems"[unfolded write_all_loop.simps[of os] w]
    show ?thesis
      using False first "1.IH"(1)[OF False w[symmetric]] "1.IH"(2)[OF False w[symmetric]]
        sys_write_frame[OF w]
      by (auto split: wr.splits if_splits)
  qed
qed

lemma receive_loop_resumes:
  assumes "receive_loop w os = Inr x" "fds os (worker_fd w) = Some (Sock True)"
    "no_false_empty os (worker_fd w)" "temp_fd w \<noteq> worker_fd w"
  shows "resumes NOT_DONE_SENDING receive_loop w os es x
    \<and> next_fd (snd (snd x)) = next_fd os \<and> temp_fd (fst (snd x)) = temp_fd w
    \<and> temp_file_name (fst (snd x)) = temp_file_name w \<and> denied (snd (snd x)) = denied os"
  using assms
proof (induction w os rule: receive_loop.induct)
  case (1 w os)
  let ?fd = "worker_fd w"
  show ?case
  proof (cases "0 < file_size w")
    case True
    obtain q os1 where q: "sys_read os ?fd (block_size (file_size w)) = (q, os1)" by fastforce
    note frame = sys_read_sock[OF q "1.prems"(2)]
    note now = "1.prems"(1)[unfolded receive_loop.simps[of w os] q if_P[OF True]]
    note later = receive_loop.simps[of w "feed os ?fd es", unfolded if_P[OF True]]
    from q "1.prems"(2,3) block_size_pos[OF True] show ?thesis
    proof (cases rule: sys_read_feed[where es = es])
      case empty
      then show ?thesis using now frame later True
        by (auto simp: resumes_def receive_loop.simps[of w "feed os1 ?fd es"])
    next
      case same
      note first = later[unfolded same(2)]
      show ?thesis
      proof (cases q)
        case (RErr e)
        show ?thesis
        proof (cases "e = EINTR")
          case eintr: True
          have "receive_loop w os1 = Inr x" using now RErr eintr by simp
          note IH = "1.IH"(2)[OF True q[symmetric] RErr _ eintr this same(3,4) "1.prems"(4)]
          then have IH: "resumes NOT_DONE_SENDING receive_loop w os1 es x"
            "next_fd (snd (snd x)) = next_fd os1" "temp_fd (fst (snd x)) = temp_fd w"
            "temp_file_name (fst (snd x)) = temp_file_name w" "denied (snd (snd x)) = denied os1"
            using eintr by auto
          have "resumes NOT_DONE_SENDING receive_loop w os es x"
            using RErr first frame eintr by (intro resumes_step[OF IH(1)]) auto
          then show ?thesis using IH frame by simp
        qed (use now RErr same first frame in \<open>auto simp: resumes_def\<close>)
      next
        case (RData bs)
        show ?thesis
        proof (cases "bs = []")
          case False
          obtain c os2 where w: "write_all_to_socket os1 (temp_fd w) bs = (c, os2)" by fastforce
          have w': "write_all_to_socket (feed os1 ?fd es) (temp_fd w) bs = (c, feed os2 ?fd es)"
            using w by (simp add: write_all_to_socket_def write_all_feed)
          have fr: "incoming os2 = incoming os1" "next_fd os2 = next_fd os1"
            "denied os2 = denied os1" "fds os2 ?fd = fds os1 ?fd"
            using write_all_frame[OF w[unfolded write_all_to_socket_def]] "1.prems"(4) by auto
          have nfe: "no_false_empty os2 ?fd" using same(4) fr(1) by (simp add: no_false_empty_def)
          show ?thesis
          proof (cases "c = - 1 \<or> c = 0")
            case True
            then show ?thesis using now RData False w w' same first frame fr nfe
              by (auto simp: resumes_def)
          next
            case ok: False
            let ?w = "w\<lparr>file_size := file_size w - of_nat (length bs)\<rparr>"
            have "receive_loop ?w os2 = Inr x" using now RData False w ok by simp
            from "1.IH"(1)[OF True q[symmetric] RData False w[symmetric] refl ok this]
            have IH: "resumes NOT_DONE_SENDING receive_loop ?w os2 es x"
              "next_fd (snd (snd x)) = next_fd os2" "temp_fd (fst (snd x)) = temp_fd w"
              "temp_file_name (fst (snd x)) = temp_file_name w" "denied (snd (snd x)) = denied os2"
              using fr same nfe "1.prems"(4) by auto
            have "resumes NOT_DONE_SENDING receive_loop w os es x"
              using RData first frame False w' ok fr by (intro resumes_step[OF IH(1)]) auto
            then show ?thesis using IH frame fr by simp
          qed
        qed (use now RData same first frame in \<open>auto simp: resumes_def\<close>)
      next
        case RBlock
        then show ?thesis using now by simp
      qed
    qed
  next
    case False
    then show ?thesis using "1.prems"
      by (auto simp: receive_loop.simps[of w] resumes_def)
  qed
qed

lemma sys_open_trunc_frame:
  assumes "sys_open_trunc os f = (fd', os')" "fd < next_fd os" "0 \<le> fd"
  shows "incoming os' fd = incoming os fd" "fds os' fd = fds os fd"
    "fd' = - 1 \<and> denied os f \<and> os' = os
     \<or> fd' = next_fd os \<and> next_fd os' = next_fd os + 1 \<and> \<not> denied os f"
  using assms by (auto simp: sys_open_trunc_def split: if_splits)

lemma get_binary_data_resumes:
  assumes "get_binary_data w os = Inr x" "fds os (worker_fd w) = Some (Sock True)"
    "no_false_empty os (worker_fd w)" "temp_apart w os"
  shows "resumes NOT_DONE_SENDING get_binary_data w os es x
    \<and> temp_apart (fst (snd x)) (snd (snd x))"
proof (cases "temp_fd w = - 1")
  case True
  let ?fd = "worker_fd w"
  obtain name where name: "temp_file_name w = Some name"
    using assms(1) True by (cases "temp_file_name w") (auto simp: get_binary_data_def)
  obtain fd os1 where o: "sys_open_trunc os name = (fd, os1)" by fastforce
  have o': "sys_open_trunc (feed os ?fd es) name = (fd, feed os1 ?fd es)"
    using o assms(4) by (simp add: sys_open_feed temp_apart_def)
  have frame: "incoming os1 ?fd = incoming os ?fd" "fds os1 ?fd = fds os ?fd"
    "fd = - 1 \<and> denied os name \<and> os1 = os
     \<or> fd = next_fd os \<and> next_fd os1 = next_fd os + 1 \<and> \<not> denied os name"
    using sys_open_trunc_frame[OF o] assms(4) by (auto simp: temp_apart_def)
  let ?w = "w\<lparr>temp_fd := fd\<rparr>"
  have "receive_loop ?w os1 = Inr x"
    using assms(1) True name o by (simp add: get_binary_data_def open_with_all_permission_def)
  from receive_loop_resumes[OF this, of es] frame assms(2-4)
  have rec: "resumes NOT_DONE_SENDING receive_loop ?w os1 es x"
    "next_fd (snd (snd x)) = next_fd os1" "temp_fd (fst (snd x)) = fd"
    "temp_file_name (fst (snd x)) = Some name" "denied (snd (snd x)) = denied os1"
    using name by (auto simp: no_false_empty_def temp_apart_def)
  have first: "get_binary_data w (feed os ?fd es) = receive_loop ?w (feed os1 ?fd es)"
    using True name o' by (simp add: get_binary_data_def open_with_all_permission_def)
  obtain r w' os' where x: "x = (r, w', os')" by (cases x)
  have second: "get_binary_data w' (feed os' ?fd es) = receive_loop w' (feed os' ?fd es)"
  proof (cases "fd = - 1")
    case True
    then have same: "w'\<lparr>temp_fd := - 1\<rparr> = w'"
      using rec(3) x by (cases w') simp
    have "denied os' name"
      using True rec(5) x frame(3) assms(4) by (auto simp: temp_apart_def)
    then show ?thesis using rec(3,4) x True
      by (simp add: same get_binary_data_def open_with_all_permission_def sys_open_trunc_def)
  next
    case False
    then show ?thesis using rec(3) x by (simp add: get_binary_data_def)
  qed
  have "temp_apart w' os'"
    using rec x frame(3) assms(4) by (auto simp: temp_apart_def resumes_def)
  then show ?thesis using rec(1) first second frame(2) x
    by (auto simp: resumes_def)
next
  case False
  have loop: "get_binary_data w = receive_loop w"
    using False by (simp add: get_binary_data_def fun_eq_iff)
  from receive_loop_resumes[of w os x es] assms
  have rec: "resumes NOT_DONE_SENDING receive_loop w os es x"
    "next_fd (snd (snd x)) = next_fd os" "temp_fd (fst (snd x)) = temp_fd w"
    by (auto simp: loop temp_apart_def)
  have "get_binary_data (fst (snd x)) = receive_loop (fst (snd x))"
    using rec(3) False by (simp add: get_binary_data_def fun_eq_iff)
  then show ?thesis using rec assms(4) loop
    by (auto simp: resumes_def temp_apart_def split_beta)
qed

interpretation body: resumable NOT_DONE_SENDING get_binary_data temp_apart
proof unfold_locales
  fix w :: worker and os x es
  assume a: "get_binary_data w os = Inr x" "fds os (worker_fd w) = Some (Sock True)"
    "no_false_empty os (worker_fd w)" "temp_apart w os"
  show "resumes NOT_DONE_SENDING get_binary_data w os es x"
    using get_binary_data_resumes[OF a] by simp
next
  fix w :: worker and os r w' os'
  assume a: "get_binary_data w os = Inr (r, w', os')" "fds os (worker_fd w) = Some (Sock True)"
    "no_false_empty os (worker_fd w)" "temp_apart w os"
  show "temp_apart w' os'" using get_binary_data_resumes[OF a] by simp
qed (simp add: temp_apart_def)

end
