(* ===== verification/Master_Transfer.thy ===== *)
theory Master_Transfer
  imports Resumption
begin

text \<open>
  What the master's transfers do to a whole message: \<open>get_size\<close> reads the eight bytes of a size,
  \<open>get_binary_data\<close> puts the body into the temporary file, \<open>do_put\<close> sends a stored file on as one
  frame (\<^verbatim>\<open>PUT name\<close>, size, contents), or a prefix of that frame when it fails.
\<close>

section \<open>Receiving a size\<close>

lemma get_size_byte:
  assumes "sys_read os (worker_fd w) 1 = (RData [b], os')" "size_buffer_pos w < 8"
  shows "get_size w os =
    (let w' = w\<lparr>file_size := set_size_byte (size_buffer_pos w) b (file_size w),
                size_buffer_pos := size_buffer_pos w + 1\<rparr> in
     if size_buffer_pos w = 7 then Inr (DONE_SENDING, w', os') else get_size w' os')"
  using assms by (subst get_size.simps) (simp add: Let_def)

lemma get_size_rest:
  assumes "fds os (worker_fd w) = Some (Sock nb)" "size_buffer_pos w < 8"
    "stream (\<lambda>e. e = EINTR) (incoming os (worker_fd w)) = bs @ rest"
    "length bs = 8 - size_buffer_pos w"
  shows "\<exists>es. get_size w os = Inr (DONE_SENDING,
      w\<lparr>file_size := bytes_size (take (size_buffer_pos w) (size_bytes (file_size w)) @ bs),
        size_buffer_pos := 8\<rparr>, set_incoming os (worker_fd w) es)
    \<and> stream (\<lambda>e. e = EINTR) es = rest"
  using assms
proof (induction "length bs + arrivals_size (incoming os (worker_fd w))" arbitrary: w os bs
    rule: less_induct)
  case less
  let ?fd = "worker_fd w" and ?k = "size_buffer_pos w" and ?n = "size_bytes (file_size w)"
  obtain b bs' where b: "bs = b # bs'" using less.prems(2,4) by (cases bs) auto
  obtain r os' where r: "sys_read os ?fd 1 = (r, os')" by fastforce
  have str: "stream (\<lambda>e. e = EINTR) (incoming os ?fd) = b # (bs' @ rest)"
    using less.prems(3) b by simp
  from r less.prems(1) str show ?case
  proof (cases rule: sys_read_byte)
    case (retry e es)
    have "\<exists>es'. get_size w os' = Inr (DONE_SENDING, w\<lparr>file_size := bytes_size (take ?k ?n @ bs),
        size_buffer_pos := 8\<rparr>, set_incoming os' ?fd es') \<and> stream (\<lambda>e. e = EINTR) es' = rest"
      using less.prems retry b by (intro less.hyps) auto
    then show ?thesis using retry r by (subst get_size.simps) auto
  next
    case (byte es)
    let ?w = "w\<lparr>file_size := set_size_byte ?k b (file_size w), size_buffer_pos := ?k + 1\<rparr>"
    have stored: "take (Suc ?k) (size_bytes (set_size_byte ?k b (file_size w))) = take ?k ?n @ [b]"
      using less.prems(2) by (simp add: size_bytes_set take_Suc_conv_app_nth)
    show ?thesis
    proof (cases "?k = 7")
      case True
      then have "bs' = []" using less.prems(4) b by simp
      have "size_bytes (set_size_byte 7 b (file_size w))
          = take 8 (size_bytes (set_size_byte 7 b (file_size w)))" by simp
      also have "\<dots> = take 7 ?n @ [b]" using stored True by simp
      finally have "set_size_byte 7 b (file_size w) = bytes_size (take 7 ?n @ [b])"
        by (metis bytes_size_bytes)
      then show ?thesis using True byte r b \<open>bs' = []\<close>
        by (auto simp: get_size_byte)
    next
      case False
      have small: "arrivals_size es \<le> arrivals_size (incoming os ?fd)"
        using sys_read_data_progress[OF r[unfolded byte(1)]] byte(2) less.prems(1)
        by (simp add: readable_def)
      have "\<exists>es'. get_size ?w os' = Inr (DONE_SENDING,
          ?w\<lparr>file_size := bytes_size (take (size_buffer_pos ?w) (size_bytes (file_size ?w)) @ bs'),
             size_buffer_pos := 8\<rparr>, set_incoming os' (worker_fd ?w) es')
        \<and> stream (\<lambda>e. e = EINTR) es' = rest"
        using less.prems byte b False small by (intro less.hyps) auto
      moreover have "get_size w os = get_size ?w os'"
        using get_size_byte[OF r[unfolded byte(1)] less.prems(2)] False by simp
      ultimately show ?thesis using byte(2) b stored by auto
    qed
  qed
qed

lemma get_size_whole:
  assumes "fds os (worker_fd w) = Some (Sock nb)" "size_buffer_pos w = 0"
    "stream (\<lambda>e. e = EINTR) (incoming os (worker_fd w)) = size_bytes n @ rest"
  obtains es where "get_size w os = Inr (DONE_SENDING, w\<lparr>file_size := n, size_buffer_pos := 8\<rparr>,
      set_incoming os (worker_fd w) es)" "stream (\<lambda>e. e = EINTR) es = rest"
  using get_size_rest[of os w nb "size_bytes n" rest] assms by auto

section \<open>Receiving a body\<close>

lemma accept_bytes_set_incoming:
  "accept_bytes (set_incoming os fd es) fd' bs = set_incoming (accept_bytes os fd' bs) fd es"
  by (auto simp: accept_bytes_def set_incoming_def file_bytes_def
      split: option.split fd_kind.split)

lemma set_wplan_set_incoming:
  "set_wplan (set_incoming os fd es) fd' ps = set_incoming (set_wplan os fd' ps) fd es"
  by (simp add: set_wplan_def set_incoming_def)

lemma accept_bytes_fds_other: "fd \<noteq> fd' \<Longrightarrow> fds (accept_bytes os fd bs) fd' = fds os fd'"
  by (auto simp: accept_bytes_def split: option.split fd_kind.split)

lemma receive_loop_whole:
  assumes "fds os (worker_fd w) = Some (Sock nb)" "temp_fd w \<noteq> worker_fd w"
    "fds os (temp_fd w) \<noteq> None" "offset_ok os (temp_fd w)"
    "willing retried_by_master (wplan os (temp_fd w))"
    "stream (\<lambda>e. e = EINTR) (incoming os (worker_fd w)) = body @ rest"
    "unat (file_size w) = length body"
  shows "\<exists>es ps. receive_loop w os = Inr (DONE_SENDING, w\<lparr>file_size := 0\<rparr>,
      set_incoming (accept_bytes (set_wplan os (temp_fd w) ps) (temp_fd w) body) (worker_fd w) es)
    \<and> stream (\<lambda>e. e = EINTR) es = rest"
  using assms
proof (induction w os arbitrary: body rule: receive_loop.induct)
  case (1 w os)
  let ?fd = "worker_fd w" and ?tmp = "temp_fd w"
  show ?case
  proof (cases "0 < file_size w")
    case False
    then have "file_size w = 0" by (simp add: word_greater_zero_iff)
    moreover from this have "body = []" using "1.prems"(7) by simp
    ultimately show ?thesis using "1.prems"(4,6)
      by (intro exI[of _ "incoming os ?fd"] exI[of _ "wplan os ?tmp"])
        (simp add: receive_loop.simps[of w] set_incoming_same set_wplan_same)
  next
    case True
    note pos = block_size_pos[OF True]
    have "body \<noteq> []" using True "1.prems"(7) by (auto simp: word_less_nat_alt)
    then have ne: "stream (\<lambda>e. e = EINTR) (incoming os ?fd) \<noteq> []" using "1.prems"(6) by simp
    obtain q os1 where q: "sys_read os ?fd (block_size (file_size w)) = (q, os1)" by fastforce
    from q "1.prems"(1) pos ne show ?thesis
    proof (cases rule: sys_read_stream)
      case (retry e es)
      have "\<exists>es' ps. receive_loop w os1 = Inr (DONE_SENDING, w\<lparr>file_size := 0\<rparr>,
          set_incoming (accept_bytes (set_wplan os1 ?tmp ps) ?tmp body) ?fd es')
        \<and> stream (\<lambda>e. e = EINTR) es' = rest"
        using "1.prems" retry by (intro "1.IH"(2)[OF True q[symmetric] retry(1)]) auto
      then show ?thesis using retry(1,2,3) q True
        by (subst receive_loop.simps)
          (auto simp: set_wplan_set_incoming accept_bytes_set_incoming)
    next
      case (bytes bs es)
      have len: "length bs \<le> length body" using bytes(3) block_size_le "1.prems"(7) le_trans
        by metis
      from bytes(5) "1.prems"(6) have "bs @ stream (\<lambda>e. e = EINTR) es = body @ rest" by simp
      then have "take (length bs) (bs @ stream (\<lambda>e. e = EINTR) es) = take (length bs) (body @ rest)"
        "drop (length bs) (bs @ stream (\<lambda>e. e = EINTR) es) = drop (length bs) (body @ rest)"
        by simp_all
      then have split: "take (length bs) body = bs"
        "stream (\<lambda>e. e = EINTR) es = drop (length bs) body @ rest"
        using len by simp_all
      have "\<exists>ps. write_all_to_socket os1 ?tmp bs
          = (int (length bs), accept_bytes (set_wplan os1 ?tmp ps) ?tmp bs)
        \<and> willing retried_by_master ps"
        using "1.prems"(3-5) bytes(4) by (intro master_writer.complete) auto
      then obtain ps where w: "write_all_to_socket os1 ?tmp bs
          = (int (length bs), accept_bytes (set_wplan os1 ?tmp ps) ?tmp bs)"
        "willing retried_by_master ps" by blast
      let ?os2 = "accept_bytes (set_wplan os1 ?tmp ps) ?tmp bs"
      let ?w = "w\<lparr>file_size := file_size w - of_nat (length bs)\<rparr>"
      have c: "\<not> (int (length bs) = - 1 \<or> int (length bs) = 0)" using bytes(2) by simp
      have "\<exists>es' ps'. receive_loop ?w ?os2 = Inr (DONE_SENDING, ?w\<lparr>file_size := 0\<rparr>,
          set_incoming (accept_bytes (set_wplan ?os2 (temp_fd ?w) ps') (temp_fd ?w)
            (drop (length bs) body)) (worker_fd ?w) es')
        \<and> stream (\<lambda>e. e = EINTR) es' = rest"
      proof (rule "1.IH"(1)[OF True q[symmetric] bytes(1,2) w(1)[symmetric] refl c])
        show "unat (file_size ?w) = length (drop (length bs) body)"
          using unat_minus_block[OF q[unfolded bytes(1)]] "1.prems"(7) by simp
      qed (use "1.prems" bytes(4) split(2) w(2) in
          \<open>auto simp: accept_bytes_fds_other offset_ok_accept\<close>)
      moreover have "receive_loop w os = receive_loop ?w ?os2"
        using True q bytes(1,2) w(1) c by (subst receive_loop.simps) simp
      moreover have "bs @ drop (length bs) body = body"
        using split(1) by (metis append_take_drop_id)
      ultimately show ?thesis using bytes(4)
        by (auto simp: set_wplan_set_incoming accept_bytes_set_incoming accept_bytes_set_wplan
            accept_bytes_append)
    qed
  qed
qed

section \<open>Sending a file on\<close>

lemma sys_read_file:
  assumes "sys_read os fd n = (r, os')" "fds os fd = Some (File f off)"
  obtains (failed) e es where "incoming os fd = Fail e # es" "r = RErr e"
      "os' = set_incoming os fd es"
  | (bytes) bs where "bs = take n (drop off (file_bytes os f))" "r = RData bs"
      "os' = os\<lparr>fds := (fds os)(fd \<mapsto> File f (off + length bs))\<rparr>"
      "\<forall>e es. incoming os fd \<noteq> Fail e # es"
  using assms by (auto simp: sys_read_def Let_def split: list.splits arrival.splits)

lemma take_block:
  "unat l \<le> length d \<Longrightarrow> length (take (block_size l) d) = block_size l"
  using block_size_le[of l] by simp

text \<open>Whatever the kernel does, a prefix of the wanted bytes goes out, and all of them when the
  loop says so.\<close>

lemma put_loop_sent:
  assumes "put_loop os src dst left = Inr (r, os')" "fds os src = Some (File f off)"
    "fds os dst = Some (Sock nb)" "src \<noteq> dst"
  shows "\<exists>n. sent os' dst = sent os dst @ take n (take (unat left) (drop off (file_bytes os f)))
    \<and> (r = DONE_SENDING \<longrightarrow> unat left \<le> n \<and> unat left \<le> length (drop off (file_bytes os f)))
    \<and> (r = DONE_SENDING \<or> r = BIG_FAILURE)"
  using assms
proof (induction os src dst left arbitrary: off rule: put_loop.induct)
  case (1 os src dst left)
  let ?data = "drop off (file_bytes os f)"
  show ?case
  proof (cases "left = 0")
    case True
    then show ?thesis using "1.prems"(1)
      by (intro exI[of _ 0]) (simp add: put_loop.simps[of os])
  next
    case False
    obtain q os1 where q: "sys_read os src (block_size left) = (q, os1)" by fastforce
    note now = "1.prems"(1)[unfolded put_loop.simps[of os] q if_P[OF False]]
    from q "1.prems"(2) show ?thesis
    proof (cases rule: sys_read_file)
      case (failed e es)
      show ?thesis
      proof (cases "e = EINTR")
        case True
        then have "put_loop os1 src dst left = Inr (r, os')" using now failed(2) by simp
        from "1.IH"(2)[OF False q[symmetric] failed(2) True this, of off] failed(3) "1.prems"(2-4)
        show ?thesis by simp
      next
        case err: False
        then show ?thesis using now failed(2,3) by (intro exI[of _ 0]) auto
      qed
    next
      case (bytes bs)
      show ?thesis
      proof (cases "bs = []")
        case True
        then show ?thesis using now bytes(2,3) by (intro exI[of _ 0]) auto
      next
        case ne: False
        have sock: "fds os1 dst = Some (Sock nb)" "sent os1 = sent os" "file_bytes os1 f = file_bytes os f"
          using bytes(3) "1.prems"(3,4) by (auto simp: file_bytes_def)
        obtain c os2 where w: "write_all_to_socket os1 dst bs = (c, os2)" by fastforce
        obtain n ps where n: "n \<le> length bs" "c = - 1 \<or> c = int n"
          "os2 = accept_bytes (set_wplan os1 dst ps) dst (take n bs)"
          using master_writer.prefix[of os1 dst bs c os2] w sock(1)
          by (auto simp: offset_ok_def)
        have os2: "sent os2 dst = sent os dst @ take n bs" "fds os2 = fds os1"
          "file_bytes os2 f = file_bytes os f"
          using n(3) sock by (simp_all add: io_simps file_bytes_def)
        have wanted: "take (unat left) ?data
            = bs @ take (unat left - length bs) (drop (off + length bs) (file_bytes os f))"
          and len: "length bs \<le> unat left" "length bs \<le> length ?data"
        proof -
          show "length bs \<le> unat left" "length bs \<le> length ?data"
            using bytes(1) block_size_le[of left] by simp_all
          have "bs @ drop (block_size left) ?data = ?data"
            unfolding bytes(1) by (rule append_take_drop_id)
          then have "bs = take (length bs) ?data" by (metis append_eq_conv_conj)
          then have "?data = bs @ drop (off + length bs) (file_bytes os f)"
            by (metis append_take_drop_id drop_drop add.commute)
          then show "take (unat left) ?data
            = bs @ take (unat left - length bs) (drop (off + length bs) (file_bytes os f))"
            using \<open>length bs \<le> unat left\<close>
            by (metis take_append take_all)
        qed
        show ?thesis
        proof (cases "c = - 1 \<or> c = 0 \<or> c \<noteq> int (length bs)")
          case True
          then have "r = BIG_FAILURE" "os' = os2" using now bytes(2) ne w by auto
          then show ?thesis using os2(1) n(1) wanted by (intro exI[of _ n]) simp
        next
          case ok: False
          then have rec: "put_loop os2 src dst (left - of_nat (length bs)) = Inr (r, os')"
            and all: "n = length bs"
            using now bytes(2) ne w n by auto
          have src: "fds os2 src = Some (File f (off + length bs))"
            "fds os2 dst = Some (Sock nb)" using os2(2) bytes(3) sock(1) by auto
          note u = unat_minus_block[OF q[unfolded bytes(2)]]
          from "1.IH"(1)[OF False q[symmetric] bytes(2) ne w[symmetric] refl ok rec src "1.prems"(4)]
          obtain m where m: "sent os' dst = sent os2 dst @ take m (take (unat left - length bs)
              (drop (off + length bs) (file_bytes os f)))"
            "r = DONE_SENDING \<longrightarrow> unat left - length bs \<le> m
              \<and> unat left - length bs \<le> length (drop (off + length bs) (file_bytes os f))"
            "r = DONE_SENDING \<or> r = BIG_FAILURE"
            using os2(3) u by auto
          have "sent os' dst = sent os dst @ take (length bs + m) (take (unat left) ?data)"
            using m(1) os2(1) all wanted by simp
          moreover have "r = DONE_SENDING \<longrightarrow> unat left \<le> length ?data"
            using m(2) len by auto
          ultimately show ?thesis using m(2,3) by (intro exI[of _ "length bs + m"]) auto
        qed
      qed
    qed
  qed
qed

text \<open>With a file of at least that size and a peer that goes on accepting, it returns
  \<^verbatim>\<open>DONE_SENDING\<close>.\<close>

lemma put_loop_whole:
  assumes "fds os src = Some (File f off)" "fds os dst = Some (Sock nb)" "src \<noteq> dst"
    "willing retried_by_master (wplan os dst)" "\<forall>a\<in>set (incoming os src). a = Fail EINTR"
    "unat left \<le> length (drop off (file_bytes os f))"
  shows "\<exists>os'. put_loop os src dst left = Inr (DONE_SENDING, os')"
  using assms
proof (induction os src dst left arbitrary: off rule: put_loop.induct)
  case (1 os src dst left)
  let ?data = "drop off (file_bytes os f)"
  show ?case
  proof (cases "left = 0")
    case True
    then show ?thesis by (simp add: put_loop.simps[of os])
  next
    case False
    obtain q os1 where q: "sys_read os src (block_size left) = (q, os1)" by fastforce
    from q "1.prems"(1) show ?thesis
    proof (cases rule: sys_read_file)
      case (failed e es)
      then have e: "e = EINTR" using "1.prems"(5) by simp
      have "\<exists>os'. put_loop os1 src dst left = Inr (DONE_SENDING, os')"
        using "1.prems" failed by (intro "1.IH"(2)[OF False q[symmetric] failed(2) e]) auto
      then show ?thesis using False q failed(2) e by (simp add: put_loop.simps[of os])
    next
      case (bytes bs)
      have len: "length bs = block_size left" using bytes(1) take_block[OF "1.prems"(6)] by simp
      then have ne: "bs \<noteq> []" using block_size_pos[of left] False
        by (auto simp: word_greater_zero_iff)
      have sock: "fds os1 dst = Some (Sock nb)" "file_bytes os1 f = file_bytes os f"
        "wplan os1 = wplan os" "incoming os1 = incoming os"
        using bytes(3) "1.prems"(2,3) by (auto simp: file_bytes_def)
      obtain ps where w: "write_all_to_socket os1 dst bs
          = (int (length bs), accept_bytes (set_wplan os1 dst ps) dst bs)"
        "willing retried_by_master ps"
        using master_writer.complete[of os1 dst bs] sock "1.prems"(4)
        by (auto simp: offset_ok_def)
      let ?os2 = "accept_bytes (set_wplan os1 dst ps) dst bs"
      have os2: "fds ?os2 = fds os1" "file_bytes ?os2 f = file_bytes os f"
        using sock by (simp_all add: io_simps file_bytes_def)
      have ok: "\<not> (int (length bs) = - 1 \<or> int (length bs) = 0 \<or> int (length bs) \<noteq> int (length bs))"
        using ne by simp
      have "\<exists>os'. put_loop ?os2 src dst (left - of_nat (length bs)) = Inr (DONE_SENDING, os')"
      proof (rule "1.IH"(1)[OF False q[symmetric] bytes(2) ne w(1)[symmetric] refl ok])
        show "fds ?os2 src = Some (File f (off + length bs))" using os2(1) bytes(3) by simp
        show "unat (left - of_nat (length bs)) \<le> length (drop (off + length bs) (file_bytes ?os2 f))"
          using unat_minus_block[OF q[unfolded bytes(2)]] "1.prems"(6) os2(2) by simp
      qed (use "1.prems" sock os2(1) w(2) in auto)
      then show ?thesis using False q bytes(2) ne w(1) by (simp add: put_loop.simps[of os])
    qed
  qed
qed

text \<open>The frame of a stored file.\<close>

definition put_frame :: "string \<Rightarrow> char list \<Rightarrow> char list" where
  "put_frame name c = put_header name @ size_bytes (of_nat (length c)) @ c"

lemma seek_start_file:
  "fds os fd = Some (File f off) \<Longrightarrow> seek_start os fd = os\<lparr>fds := (fds os)(fd \<mapsto> File f 0)\<rparr>"
  by (simp add: seek_start_def)

lemma master_write_socket:
  assumes "write_all_to_socket os dst bs = (r, os')" "fds os dst = Some (Sock nb)"
  obtains n ps where "n \<le> length bs" "r = - 1 \<or> r = int n"
    "os' = (set_wplan os dst ps)\<lparr>sent := (sent os)(dst := sent os dst @ take n bs)\<rparr>"
  using master_writer.prefix[of os dst bs r os'] assms
  by (auto simp: offset_ok_def io_simps)

lemma do_put_unlocked:
  "do_put dst w (m, os) = Inr (r, m', os') \<Longrightarrow> \<not> m \<and> \<not> m'"
  by (auto simp: do_put_def Let_def bindr_eq_Inr split: if_splits prod.splits)

lemma do_put_sent:
  assumes "do_put dst w (m, os) = Inr (r, m', os')" "temp_file_name w = Some name"
    "fds os (temp_fd w) = Some (File name off)" "fds os dst = Some (Sock nb)"
    "disk os name = Some c" "length c < 2 ^ 64"
  shows "\<exists>n. sent os' dst = sent os dst @ take n (put_frame name c)
    \<and> (r = DONE_SENDING \<longrightarrow> length (put_frame name c) \<le> n) \<and> (r = DONE_SENDING \<or> r = BIG_FAILURE)"
proof -
  let ?h = "put_header name" and ?s = "size_bytes (of_nat (length c))"
  have size: "get_file_size os name = of_nat (length c)"
    using assms(5) by (simp add: get_file_size_def)
  have u: "unat (of_nat (length c) :: size_t) = length c"
    using assms(6) by (intro unat_of_nat_small) simp
  have free: "\<not> m" using do_put_unlocked[OF assms(1)] by simp
  have fits: "\<not> 4096 < length ?h + 1"
    using assms(1,2) free by (auto simp: do_put_def Let_def split: if_splits)
  obtain r1 os1 where w1: "write_all_to_socket os dst ?h = (r1, os1)" by fastforce
  from w1 assms(4) obtain n1 ps1 where n1: "n1 \<le> length ?h" "r1 = - 1 \<or> r1 = int n1"
    "os1 = (set_wplan os dst ps1)\<lparr>sent := (sent os)(dst := sent os dst @ take n1 ?h)\<rparr>"
    by (rule master_write_socket)
  note run = assms(1)[unfolded do_put_def, simplified, unfolded Let_def]
  show ?thesis
  proof (cases "r1 = int (length ?h)")
    case False
    then have "r = BIG_FAILURE" "os' = os1"
      using run assms(2) free fits w1 by (auto split: if_splits)
    then show ?thesis using n1 by (intro exI[of _ n1]) (simp add: put_frame_def)
  next
    case h: True
    then have all1: "n1 = length ?h" using n1(1,2) by auto
    obtain r2 os2 where w2: "write_all_to_socket os1 dst ?s = (r2, os2)" by fastforce
    have sock1: "fds os1 dst = Some (Sock nb)" using n1(3) assms(4) by simp
    from w2 sock1 obtain n2 ps2 where n2: "n2 \<le> length ?s" "r2 = - 1 \<or> r2 = int n2"
      "os2 = (set_wplan os1 dst ps2)\<lparr>sent := (sent os1)(dst := sent os1 dst @ take n2 ?s)\<rparr>"
      by (rule master_write_socket)
    have sent2: "sent os2 dst = sent os dst @ ?h @ take n2 ?s" using n1(3) n2(3) all1 by simp
    show ?thesis
    proof (cases "r2 = 8")
      case False
      then have "r = BIG_FAILURE" "os' = os2"
        using run assms(2) free fits w1 h w2 size by (auto split: if_splits)
      then show ?thesis using sent2 n2(1)
        by (intro exI[of _ "length ?h + n2"]) (simp add: put_frame_def)
    next
      case s: True
      then have all2: "n2 = 8" using n2(2) by auto
      let ?os3 = "seek_start os2 (temp_fd w)"
      have os2: "fds os2 = fds os" "disk os2 = disk os" using n1(3) n2(3) by simp_all
      have os3: "?os3 = os2\<lparr>fds := (fds os2)(temp_fd w \<mapsto> File name 0)\<rparr>"
        using assms(3) os2(1) by (simp add: seek_start_file)
      have p: "put_loop ?os3 (temp_fd w) dst (of_nat (length c)) = Inr (r, os')"
        using run assms(2) free fits w1 h w2 s size by (auto simp: bindr_eq_Inr split: if_splits)
      have apart: "temp_fd w \<noteq> dst" using assms(3,4) by auto
      from put_loop_sent[OF p, of name 0 nb] os3 os2 apart assms(4,5)
      obtain n where n: "sent os' dst = sent os2 dst @ take n (take (length c) c)"
        "r = DONE_SENDING \<longrightarrow> length c \<le> n" "r = DONE_SENDING \<or> r = BIG_FAILURE"
        by (auto simp: u file_bytes_def)
      show ?thesis using n sent2 all2
        by (intro exI[of _ "length ?h + 8 + n"]) (auto simp: put_frame_def)
    qed
  qed
qed

lemma do_put_whole:
  assumes "temp_file_name w = Some name" "length name + 6 \<le> 4096"
    "fds os (temp_fd w) = Some (File name off)" "fds os dst = Some (Sock nb)"
    "disk os name = Some c" "length c < 2 ^ 64" "willing retried_by_master (wplan os dst)"
    "\<forall>a\<in>set (incoming os (temp_fd w)). a = Fail EINTR"
  shows "\<exists>os'. do_put dst w (False, os) = Inr (DONE_SENDING, False, os')
    \<and> sent os' dst = sent os dst @ put_frame name c"
proof -
  let ?h = "put_header name" and ?s = "size_bytes (of_nat (length c))"
  have size: "get_file_size os name = of_nat (length c)"
    using assms(5) by (simp add: get_file_size_def)
  have u: "unat (of_nat (length c) :: size_t) = length c"
    using assms(6) by (intro unat_of_nat_small) simp
  have "fds os dst \<noteq> None" "offset_ok os dst" using assms(4) by (simp_all add: offset_ok_def)
  from master_writer.complete_two[OF this assms(7), of ?h ?s]
  obtain os1 ps where w: "write_all_to_socket os dst ?h = (int (length ?h), os1)"
    "write_all_to_socket os1 dst ?s = (8, accept_bytes (set_wplan os dst ps) dst (?h @ ?s))"
    "willing retried_by_master ps" by auto
  let ?os2 = "accept_bytes (set_wplan os dst ps) dst (?h @ ?s)"
  let ?os3 = "seek_start ?os2 (temp_fd w)"
  have os2: "?os2 = (set_wplan os dst ps)\<lparr>sent := (sent os)(dst := sent os dst @ ?h @ ?s)\<rparr>"
    using assms(4) by (simp add: io_simps)
  have os3: "?os3 = ?os2\<lparr>fds := (fds os)(temp_fd w \<mapsto> File name 0)\<rparr>"
    using assms(3) by (simp add: os2 seek_start_file)
  have apart: "temp_fd w \<noteq> dst" using assms(3,4) by auto
  have "\<exists>os'. put_loop ?os3 (temp_fd w) dst (of_nat (length c)) = Inr (DONE_SENDING, os')"
    using assms(4,5,8) apart w(3) unfolding os2 unfolding os3[unfolded os2]
    by (intro put_loop_whole[where off = 0 and f = name and nb = nb])
      (simp_all add: file_bytes_def u)
  then obtain os' where "put_loop ?os3 (temp_fd w) dst (of_nat (length c)) = Inr (DONE_SENDING, os')"
    by blast
  then have run: "do_put dst w (False, os) = Inr (DONE_SENDING, False, os')"
    using assms(1,2) w(1,2) size by (simp add: do_put_def put_header_def)
  from do_put_sent[OF run assms(1,3,4,5,6)] show ?thesis using run by auto
qed

text \<open>A failed put leaves the peer in the middle of a frame; a descriptor that is not open gets
  nothing.\<close>

lemma do_put_closed:
  assumes "temp_file_name w = Some name" "length name + 6 \<le> 4096" "fds os dst = None"
  shows "do_put dst w (False, os) = Inr (BIG_FAILURE, False, os)"
proof -
  have "write_all_to_socket os dst (put_header name) = (- 1, os)"
    using assms(3) by (simp add: write_all_to_socket_def write_all_loop.simps sys_write_def
        put_header_def)
  then show ?thesis using assms(1,2) by (simp add: do_put_def Let_def put_header_def)
qed

end
