(* ===== verification/Master_Sched.thy ===== *)
theory Master_Sched
  imports Master_Transfer
begin

text \<open>
  The master's bookkeeping: the global state of \<^verbatim>\<open>master.c\<close>, the scheduler (\<^verbatim>\<open>schedule\<close>,
  \<^verbatim>\<open>reschedule\<close>, \<^verbatim>\<open>scheduler_remove_task\<close>), the heartbeat table (\<^verbatim>\<open>report_heartbeat\<close>,
  \<^verbatim>\<open>detect_heart_failure\<close>) and the recovery routine \<^verbatim>\<open>checkOnNodes\<close>.

  Workers and tasks live in a heap; \<^verbatim>\<open>worker_list\<close>, \<^verbatim>\<open>task_list\<close> and each worker's \<^verbatim>\<open>tasks\<close> are the
  vectors of \<^verbatim>\<open>vector.c\<close> holding pointers to them. \<^verbatim>\<open>data_structure_mutex\<close> is a flag. \<^verbatim>\<open>strdup\<close>ed
  strings are values.
\<close>

section \<open>The global state\<close>

record mstate =
  m_workers :: "ptr \<Rightarrow> worker option"
  m_tasks :: "ptr \<Rightarrow> task option"
  worker_list :: "unit vector"
  task_list :: "unit vector"
  interface_fd :: int
  interface :: ptr
  mutex :: bool
  next_ptr :: ptr
  m_os :: osys

definition get_worker :: "mstate \<Rightarrow> ptr \<Rightarrow> worker res" where
  "get_worker m p = deref (m_workers m) p"

definition get_task :: "mstate \<Rightarrow> ptr \<Rightarrow> task res" where
  "get_task m p = deref (m_tasks m) p"

definition put_worker :: "ptr \<Rightarrow> worker \<Rightarrow> mstate \<Rightarrow> mstate" where
  "put_worker p w m = m\<lparr>m_workers := (m_workers m)(p \<mapsto> w)\<rparr>"

definition put_task :: "ptr \<Rightarrow> task \<Rightarrow> mstate \<Rightarrow> mstate" where
  "put_task p t m = m\<lparr>m_tasks := (m_tasks m)(p \<mapsto> t)\<rparr>"

definition alloc_task :: "task \<Rightarrow> mstate \<Rightarrow> ptr \<times> mstate" where
  "alloc_task t m = (next_ptr m, put_task (next_ptr m) t (m\<lparr>next_ptr := next_ptr m + 1\<rparr>))"

definition alloc_worker :: "worker \<Rightarrow> mstate \<Rightarrow> ptr \<times> mstate" where
  "alloc_worker w m = (next_ptr m, put_worker (next_ptr m) w (m\<lparr>next_ptr := next_ptr m + 1\<rparr>))"

definition lock_mutex :: "mstate \<Rightarrow> mstate res" where
  "lock_mutex m = (if mutex m then Inl Deadlock else Inr (m\<lparr>mutex := True\<rparr>))"

definition unlock_mutex :: "mstate \<Rightarrow> mstate" where
  "unlock_mutex m = m\<lparr>mutex := False\<rparr>"

section \<open>Finding a worker\<close>

text \<open>A null entry is skipped with \<^verbatim>\<open>continue\<close>, before the increment: the loop stays on it.\<close>

definition find_worker_pos :: "mstate \<Rightarrow> int \<Rightarrow> int res" where
  "find_worker_pos m fd =
     bindr (scan (vector_get (worker_list m))
              (\<lambda>p. if p = NULL then Inl Diverges
                   else bindr (get_worker m p) (\<lambda>w. Inr (worker_fd w = fd)))
              0 (vector_size (worker_list m)))
       (\<lambda>r. case r of Some (i, _) \<Rightarrow> Inr (int (unat i)) | None \<Rightarrow> Inr (- 1))"

section \<open>The scheduler\<close>

definition load_factor :: "worker \<Rightarrow> dbl" where
  "load_factor w = CPU_usage w * Num 10 + Num (of_nat (unat (vector_size (tasks w))))"

function schedule_loop :: "mstate \<Rightarrow> size_t \<Rightarrow> size_t \<Rightarrow> dbl \<Rightarrow> ptr \<Rightarrow> ptr res" where
  "schedule_loop m i num_worker min_load_factor best_worker =
     (if i < num_worker then
        bindr (vector_get (worker_list m) i) (\<lambda>this_worker.
          if this_worker = NULL then schedule_loop m (i + 1) num_worker min_load_factor best_worker
          else bindr (get_worker m this_worker) (\<lambda>w.
            if alive w \<noteq> 0 \<and> load_factor w < min_load_factor
            then schedule_loop m (i + 1) num_worker (load_factor w) this_worker
            else schedule_loop m (i + 1) num_worker min_load_factor best_worker))
      else Inr best_worker)"
  by pat_completeness auto
termination
  by (relation "measure (\<lambda>(m, i, n, l, b). unat n - unat i)")
    (auto simp: unat_suc word_less_nat_alt)

declare schedule_loop.simps [simp del]

definition schedule :: "ptr \<Rightarrow> mstate \<Rightarrow> (int \<times> mstate) res" where
  "schedule t m =
     bindr (lock_mutex m) (\<lambda>m.
     bindr (schedule_loop m 0 (vector_size (worker_list m)) (Num 100000000) NULL) (\<lambda>best_worker.
       if best_worker = NULL then
         bindr (ptr_push (task_list m) t) (\<lambda>l. Inr (- 1, unlock_mutex (m\<lparr>task_list := l\<rparr>)))
       else
         bindr (get_worker m best_worker) (\<lambda>w.
         bindr (ptr_push (tasks w) t) (\<lambda>l.
           Inr (worker_fd w, unlock_mutex (put_worker best_worker (w\<lparr>tasks := l\<rparr>) m))))))"

definition scheduler_remove_task :: "int \<Rightarrow> string \<Rightarrow> mstate \<Rightarrow> mstate res" where
  "scheduler_remove_task fd filename m =
     bindr (scan (vector_get (worker_list m))
              (\<lambda>p. if p = NULL then Inr False
                   else bindr (get_worker m p) (\<lambda>w. Inr (worker_fd w = fd)))
              0 (vector_size (worker_list m)))
       (\<lambda>r. case r of
          None \<Rightarrow> Inr m
        | Some (_, target_worker) \<Rightarrow>
            bindr (get_worker m target_worker) (\<lambda>w.
            bindr (scan (vector_get (tasks w))
                     (\<lambda>q. bindr (get_task m q) (\<lambda>t. Inr (file_name t = filename)))
                     0 (vector_size (tasks w)))
              (\<lambda>r. case r of
                 None \<Rightarrow> Inr m
               | Some (i, _) \<Rightarrow>
                   bindr (ptr_erase (tasks w) i) (\<lambda>l.
                     Inr (put_worker target_worker (w\<lparr>tasks := l\<rparr>) m)))))"

section \<open>Sending a stored task to a new worker\<close>

text \<open>\<open>do_put\<close> on the global mutex and the descriptors of the state.\<close>

definition m_do_put :: "int \<Rightarrow> worker \<Rightarrow> mstate \<Rightarrow> (int \<times> mstate) res" where
  "m_do_put fd w m =
     bindr (do_put fd w (mutex m, m_os m)) (\<lambda>(r, mu, os). Inr (r, m\<lparr>mutex := mu, m_os := os\<rparr>))"

text \<open>\<^verbatim>\<open>reschedule\<close> reads the dead worker's vector through the heap: the calls it makes may change
  it. \<open>raw\<close> is the memory \<^verbatim>\<open>malloc\<close> returns for \<^verbatim>\<open>temp_worker\<close>, of which only the two fields set here
  are used.\<close>

function resend_loop :: "worker \<Rightarrow> ptr \<Rightarrow> size_t \<Rightarrow> size_t \<Rightarrow> mstate \<Rightarrow> mstate res" where
  "resend_loop raw dead_worker i n_tasks m =
     (if i < n_tasks then
        bindr (get_worker m dead_worker) (\<lambda>d.
        bindr (vector_get (tasks d) i) (\<lambda>recovering_task.
        bindr (schedule recovering_task m) (\<lambda>(new_worker_fd, m1).
        bindr (get_task m1 recovering_task) (\<lambda>t.
          let (fd, os) = sys_open_trunc (m_os m1) (file_name t);
              temp_worker = raw\<lparr>temp_file_name := Some (file_name t), temp_fd := fd\<rparr> in
          bindr (m_do_put new_worker_fd temp_worker (m1\<lparr>m_os := os\<rparr>)) (\<lambda>(s, m2).
            resend_loop raw dead_worker (i + 1) n_tasks m2)))))
      else Inr m)"
  by pat_completeness auto
termination
  by (relation "measure (\<lambda>(raw, d, i, n, m). unat n - unat i)")
    (auto simp: unat_suc word_less_nat_alt)

declare resend_loop.simps [simp del]

function erase_loop :: "ptr \<Rightarrow> size_t \<Rightarrow> size_t \<Rightarrow> mstate \<Rightarrow> mstate res" where
  "erase_loop dead_worker i n_tasks m =
     (if i < n_tasks then
        bindr (get_worker m dead_worker) (\<lambda>d.
        bindr (ptr_erase (tasks d) i) (\<lambda>l.
          erase_loop dead_worker (i + 1) n_tasks (put_worker dead_worker (d\<lparr>tasks := l\<rparr>) m)))
      else Inr m)"
  by pat_completeness auto
termination
  by (relation "measure (\<lambda>(d, i, n, m). unat n - unat i)")
    (auto simp: unat_suc word_less_nat_alt)

declare erase_loop.simps [simp del]

definition reschedule :: "worker \<Rightarrow> ptr \<Rightarrow> mstate \<Rightarrow> mstate res" where
  "reschedule raw dead_worker m =
     bindr (get_worker m dead_worker) (\<lambda>d.
       let n_tasks = vector_size (tasks d) in
       bindr (resend_loop raw dead_worker 0 n_tasks m) (\<lambda>m1. erase_loop dead_worker 0 n_tasks m1))"

section \<open>Heartbeats\<close>

definition report_heartbeat :: "string \<Rightarrow> dbl \<Rightarrow> dbl \<Rightarrow> mstate \<Rightarrow> mstate res" where
  "report_heartbeat worker_addr client_usage time_received m =
     bindr (scan (vector_get (worker_list m))
              (\<lambda>p. if p = NULL then Inr False
                   else bindr (get_worker m p) (\<lambda>w. Inr (IP w = worker_addr)))
              0 (vector_size (worker_list m)))
       (\<lambda>r. case r of
          None \<Rightarrow> Inr m
        | Some (_, from_worker) \<Rightarrow>
            bindr (lock_mutex m) (\<lambda>m.
            bindr (get_worker m from_worker) (\<lambda>w.
              let w' = w\<lparr>CPU_usage := client_usage, last_beat_received := time_received,
                         alive := (if alive w = 0 then 1 else alive w)\<rparr> in
              Inr (unlock_mutex (put_worker from_worker w' m)))))"

text \<open>One pass of \<^verbatim>\<open>detect_heart_failure\<close> over the workers, between two sleeps.\<close>

function detect_loop :: "worker \<Rightarrow> dbl \<Rightarrow> size_t \<Rightarrow> size_t \<Rightarrow> mstate \<Rightarrow> mstate res" where
  "detect_loop raw cur_time i num_worker m =
     (if i < num_worker then
        bindr (vector_get (worker_list m) i) (\<lambda>this_worker.
          if this_worker = NULL then detect_loop raw cur_time (i + 1) num_worker m
          else
            bindr (lock_mutex m) (\<lambda>m1.
            bindr (get_worker m1 this_worker) (\<lambda>w.
              let m2 = unlock_mutex m1; last_beat = last_beat_received w in
              if Num 0 < last_beat \<and> alive w = 1 \<and> Num 3 < cur_time - last_beat then
                bindr (reschedule raw this_worker (put_worker this_worker (w\<lparr>alive := 0\<rparr>) m2))
                  (\<lambda>m3. detect_loop raw cur_time (i + 1) num_worker m3)
              else detect_loop raw cur_time (i + 1) num_worker m2)))
      else Inr m)"
  by pat_completeness auto
termination
  by (relation "measure (\<lambda>(raw, t, i, n, m). unat n - unat i)")
    (auto simp: unat_suc word_less_nat_alt)

declare detect_loop.simps [simp del]

definition detect_pass :: "worker \<Rightarrow> dbl \<Rightarrow> mstate \<Rightarrow> mstate res" where
  "detect_pass raw cur_time m = detect_loop raw cur_time 0 (vector_size (worker_list m)) m"

section \<open>Recovery of orphaned tasks\<close>

definition handleOrphans :: "ptr \<Rightarrow> ptr \<Rightarrow> mstate \<Rightarrow> mstate res" where
  "handleOrphans wp tp m =
     bindr (get_worker m wp) (\<lambda>w.
     bindr (get_task m tp) (\<lambda>t.
       let w1 = w\<lparr>status := FORWARDING_DATA\<rparr> in
       bindr (m_do_put (fd_owner t) w1 (put_worker wp w1 m)) (\<lambda>(s, m1).
       let (w2, os) = reset_worker_for_parsing w1 (m_os m1) in
       Inr (put_worker wp (w2\<lparr>status := START\<rparr>) (m1\<lparr>m_os := os\<rparr>)))))"

function orphan_loop :: "unit vector \<Rightarrow> size_t \<Rightarrow> mstate \<Rightarrow> mstate res" where
  "orphan_loop tmpTask j m =
     (if j < vector_size tmpTask then
        bindr (vector_get tmpTask j) (\<lambda>tmp.
        bindr (get_task m tmp) (\<lambda>t.
        bindr (schedule tmp (put_task tmp (t\<lparr>orphan := 1\<rparr>) m)) (\<lambda>(_, m1).
          orphan_loop tmpTask (j + 1) m1)))
      else Inr m)"
  by pat_completeness auto
termination
  by (relation "measure (\<lambda>(v, j, m). unat (vector_size v) - unat j)")
    (auto simp: unat_suc word_less_nat_alt)

declare orphan_loop.simps [simp del]

text \<open>The loops run from the last index down; \<open>Suc i\<close> stands for the signed index \<open>i\<close>. A removed
  worker is in no list any more, so its \<^verbatim>\<open>tasks\<close> stay as they are while they are scheduled.\<close>

fun remove_dead :: "nat \<Rightarrow> mstate \<Rightarrow> mstate res" where
  "remove_dead 0 m = Inr m"
| "remove_dead (Suc i) m =
     bindr (vector_get (worker_list m) (of_nat i)) (\<lambda>curr.
       if curr = NULL then remove_dead i m
       else bindr (get_worker m curr) (\<lambda>w.
         if alive w = 0 then
           bindr (ptr_erase (worker_list m) (of_nat i)) (\<lambda>l.
           bindr (orphan_loop (tasks w) 0 (m\<lparr>worker_list := l\<rparr>)) (remove_dead i))
         else remove_dead i m))"

fun adopt_tasks :: "nat \<Rightarrow> mstate \<Rightarrow> mstate res" where
  "adopt_tasks 0 m = Inr m"
| "adopt_tasks (Suc i) m =
     bindr (vector_get (task_list m) (of_nat i)) (\<lambda>tmp.
     bindr (get_task m tmp) (\<lambda>t.
     bindr (ptr_erase (task_list m) (of_nat i)) (\<lambda>l.
     bindr (schedule tmp (put_task tmp (t\<lparr>orphan := 1\<rparr>) (m\<lparr>task_list := l\<rparr>))) (\<lambda>(val, m1).
       if val \<noteq> - 1 then
         bindr (find_worker_pos m1 val) (\<lambda>pos.
         bindr (vector_get (worker_list m1) (of_int pos)) (\<lambda>w.
         bindr (handleOrphans w tmp m1) (adopt_tasks i)))
       else adopt_tasks i m1))))"

definition checkOnNodes :: "mstate \<Rightarrow> mstate res" where
  "checkOnNodes m =
     bindr (remove_dead (unat (vector_size (worker_list m))) m) (\<lambda>m1.
       adopt_tasks (unat (vector_size (task_list m1))) m1)"

end
