(* ===== verification/Sched_Props.thy ===== *)
theory Sched_Props
  imports Master_Sched
begin

text \<open>
  What the master's bookkeeping guarantees: the well-formedness of its lists and heap, the choice
  the scheduler makes, the removal of a finished task, the heartbeat table, and what becomes of the
  tasks of a dead worker.
\<close>

section \<open>Well-formed bookkeeping\<close>

definition task_ptr :: "mstate \<Rightarrow> ptr \<Rightarrow> bool" where
  "task_ptr m t \<longleftrightarrow> t \<noteq> NULL \<and> m_tasks m t \<noteq> None"

definition tasks_ok :: "mstate \<Rightarrow> unit vector \<Rightarrow> bool" where
  "tasks_ok m v \<longleftrightarrow> ptr_vector_ok v \<and> (\<forall>t\<in>set (vlist v). task_ptr m t)"

definition worker_ptr :: "mstate \<Rightarrow> ptr \<Rightarrow> bool" where
  "worker_ptr m p \<longleftrightarrow> p \<noteq> NULL \<and> (\<exists>w. m_workers m p = Some w \<and> tasks_ok m (tasks w))"

definition sched_ok :: "mstate \<Rightarrow> bool" where
  "sched_ok m \<longleftrightarrow> ptr_vector_ok (worker_list m) \<and> tasks_ok m (task_list m) \<and> \<not> mutex m
     \<and> (\<forall>p\<in>set (vlist (worker_list m)). worker_ptr m p)"

lemma sched_okD:
  assumes "sched_ok m"
  shows "ptr_vector_ok (worker_list m)" "tasks_ok m (task_list m)" "\<not> mutex m"
    "p \<in> set (vlist (worker_list m)) \<Longrightarrow> worker_ptr m p"
  using assms by (auto simp: sched_ok_def)

lemma worker_ptrE:
  assumes "worker_ptr m p"
  obtains w where "p \<noteq> NULL" "m_workers m p = Some w" "tasks_ok m (tasks w)"
    "get_worker m p = Inr w"
  using assms by (auto simp: worker_ptr_def get_worker_def)

lemma put_worker_simps [simp]:
  "worker_list (put_worker p w m) = worker_list m" "task_list (put_worker p w m) = task_list m"
  "mutex (put_worker p w m) = mutex m" "m_tasks (put_worker p w m) = m_tasks m"
  "m_workers (put_worker p w m) = (m_workers m)(p \<mapsto> w)" "m_os (put_worker p w m) = m_os m"
  "interface_fd (put_worker p w m) = interface_fd m" "interface (put_worker p w m) = interface m"
  "next_ptr (put_worker p w m) = next_ptr m"
  by (simp_all add: put_worker_def)

lemma unlock_simps [simp]:
  "worker_list (unlock_mutex m) = worker_list m" "task_list (unlock_mutex m) = task_list m"
  "\<not> mutex (unlock_mutex m)" "m_tasks (unlock_mutex m) = m_tasks m"
  "m_workers (unlock_mutex m) = m_workers m" "m_os (unlock_mutex m) = m_os m"
  "interface_fd (unlock_mutex m) = interface_fd m" "interface (unlock_mutex m) = interface m"
  "next_ptr (unlock_mutex m) = next_ptr m"
  by (simp_all add: unlock_mutex_def)

lemma lock_free: "\<not> mutex m \<Longrightarrow> lock_mutex m = Inr (m\<lparr>mutex := True\<rparr>)"
  by (simp add: lock_mutex_def)

lemma unlock_locked [simp]: "\<not> mutex m \<Longrightarrow> unlock_mutex (m\<lparr>mutex := True\<rparr>) = m"
  by (cases m) (simp add: unlock_mutex_def)

lemma task_ptr_frame: "m_tasks m' = m_tasks m \<Longrightarrow> task_ptr m' = task_ptr m"
  by (auto simp: task_ptr_def fun_eq_iff)

lemma tasks_ok_frame: "m_tasks m' = m_tasks m \<Longrightarrow> tasks_ok m' v = tasks_ok m v"
  using task_ptr_frame[of m' m] by (simp add: tasks_ok_def)

lemma tasks_ok_push:
  assumes "tasks_ok m v" "task_ptr m t" "length (vlist v) < 2 ^ 60"
  obtains v' where "ptr_push v t = Inr v'" "tasks_ok m v'" "vlist v' = vlist v @ [t]"
  using ptrs.push[of v t] assms by (auto simp: tasks_ok_def intro: that)

text \<open>Replacing one worker by one with well-formed tasks.\<close>

lemma sched_ok_put:
  assumes "sched_ok m" "tasks_ok m (tasks w)"
  shows "sched_ok (put_worker p w m)"
proof -
  have f: "tasks_ok (put_worker p w m) v = tasks_ok m v" for v by (rule tasks_ok_frame) simp
  show ?thesis using assms by (auto simp: sched_ok_def worker_ptr_def f)
qed

lemma sched_ok_task_list:
  assumes "sched_ok m" "tasks_ok m l"
  shows "sched_ok (m\<lparr>task_list := l\<rparr>)"
proof -
  have f: "tasks_ok (m\<lparr>task_list := l\<rparr>) v = tasks_ok m v" for v by (rule tasks_ok_frame) simp
  show ?thesis using assms by (auto simp: sched_ok_def worker_ptr_def f)
qed

section \<open>The scheduler's choice\<close>

text \<open>The loop as a fold over the pointers of the list.\<close>

definition better :: "mstate \<Rightarrow> ptr \<Rightarrow> dbl \<times> ptr \<Rightarrow> dbl \<times> ptr" where
  "better m p = (\<lambda>(l, b). case m_workers m p of
     Some w \<Rightarrow> if alive w \<noteq> 0 \<and> load_factor w < l then (load_factor w, p) else (l, b)
   | None \<Rightarrow> (l, b))"

lemma schedule_loop_fold:
  assumes "ptr_vector_ok (worker_list m)" "vlist (worker_list m) = xs @ ys" "unat i = length xs"
    "\<forall>p\<in>set ys. p \<noteq> NULL \<and> m_workers m p \<noteq> None"
  shows "schedule_loop m i (vector_size (worker_list m)) l b = Inr (snd (fold (better m) ys (l, b)))"
  using assms(2-4)
proof (induction ys arbitrary: xs i l b)
  case Nil
  then show ?case using ptrs.count[OF assms(1)]
    by (subst schedule_loop.simps) (simp add: word_less_nat_alt)
next
  case (Cons p ys)
  have lt: "i < vector_size (worker_list m)"
    using ptrs.count[OF assms(1)] Cons.prems by (simp add: word_less_nat_alt)
  have g: "vector_get (worker_list m) i = Inr p"
    using ptrs.get[OF assms(1), of i] Cons.prems by simp
  obtain w where w: "p \<noteq> NULL" "m_workers m p = Some w" using Cons.prems(3) by auto
  have b: "better m p (l, b)
      = (if alive w \<noteq> 0 \<and> load_factor w < l then (load_factor w, p) else (l, b))" for l b
    using w(2) by (simp add: better_def)
  have next_i: "unat (i + 1) = length (xs @ [p])" using unat_suc[OF lt] Cons.prems(2) by simp
  note IH = Cons.IH[of "xs @ [p]" "i + 1"]
  show ?case using lt g w IH next_i Cons.prems
    by (subst schedule_loop.simps) (simp add: get_worker_def b del: dbl_ops)
qed

definition runs :: "mstate \<Rightarrow> ptr \<Rightarrow> worker \<Rightarrow> bool" where
  "runs m p w \<longleftrightarrow> m_workers m p = Some w \<and> alive w \<noteq> 0"

lemma better_fold:
  assumes "fold (better m) ps (l, b) = (l', b')"
  shows "(l' = l \<and> b' = b \<and> (\<forall>p\<in>set ps. \<forall>w. runs m p w \<longrightarrow> \<not> load_factor w < l))
    \<or> (\<exists>w. b' \<in> set ps \<and> runs m b' w \<and> load_factor w = l' \<and> l' < l
        \<and> (\<forall>p\<in>set ps. \<forall>v. runs m p v \<longrightarrow> \<not> load_factor v < l'))"
  using assms
proof (induction ps arbitrary: l b)
  case (Cons p ps)
  obtain l1 b1 where s: "better m p (l, b) = (l1, b1)" by fastforce
  from s have one: "(l1 = l \<and> b1 = b \<and> (\<forall>w. runs m p w \<longrightarrow> \<not> load_factor w < l))
      \<or> (\<exists>w. b1 = p \<and> runs m p w \<and> load_factor w = l1 \<and> l1 < l)"
    by (auto simp: better_def runs_def split: option.splits if_splits)
  have self: "\<forall>v. runs m p v \<longrightarrow> load_factor v = l1" if "runs m p w" "load_factor w = l1" for w
    using that by (auto simp: runs_def)
  from Cons.prems s have "fold (better m) ps (l1, b1) = (l', b')" by simp
  from Cons.IH[OF this] show ?case
  proof (elim disjE exE conjE)
    assume a: "l' = l1" "b' = b1" "\<forall>p\<in>set ps. \<forall>w. runs m p w \<longrightarrow> \<not> load_factor w < l1"
    from one show ?thesis
    proof (elim disjE exE conjE)
      fix w assume w: "b1 = p" "runs m p w" "load_factor w = l1" "l1 < l"
      have "\<forall>v. runs m p v \<longrightarrow> \<not> load_factor v < l1" using self[OF w(2,3)] by auto
      with a w show ?thesis by (intro disjI2 exI[of _ w]) auto
    qed (use a in auto)
  next
    fix w assume w: "b' \<in> set ps" "runs m b' w" "load_factor w = l'" "l' < l1"
      "\<forall>p\<in>set ps. \<forall>v. runs m p v \<longrightarrow> \<not> load_factor v < l'"
    have "\<forall>v. runs m p v \<longrightarrow> \<not> load_factor v < l'" and "l' < l"
    proof -
      show "\<forall>v. runs m p v \<longrightarrow> \<not> load_factor v < l'"
      proof (intro allI impI)
        fix v assume v: "runs m p v"
        from one have "\<not> load_factor v < l1"
          using v self by (metis dbl_less_irrefl less_dbl_def)
        then show "\<not> load_factor v < l'" using w(4) dbl_not_less_below unfolding less_dbl_def by blast
      qed
      from one w(4) show "l' < l" using dbl_less_trans by (auto simp: less_dbl_def)
    qed
    with w show ?thesis by (intro disjI2 exI[of _ w]) auto
  qed
qed simp

lemma schedule_choice:
  assumes "sched_ok m"
  obtains b where
    "schedule_loop (m\<lparr>mutex := True\<rparr>) 0 (vector_size (worker_list m)) (Num 100000000) NULL = Inr b"
    "(b = NULL \<and> (\<forall>p\<in>set (vlist (worker_list m)). \<forall>w. runs m p w \<longrightarrow> \<not> load_factor w < Num 100000000))
     \<or> (\<exists>w. b \<in> set (vlist (worker_list m)) \<and> runs m b w \<and> load_factor w < Num 100000000
          \<and> (\<forall>p\<in>set (vlist (worker_list m)). \<forall>v. runs m p v \<longrightarrow> \<not> load_factor v < load_factor w))"
proof -
  let ?m = "m\<lparr>mutex := True\<rparr>"
  obtain l b where f: "fold (better ?m) (vlist (worker_list m)) (Num 100000000, NULL) = (l, b)"
    by fastforce
  have "schedule_loop ?m 0 (vector_size (worker_list ?m)) (Num 100000000) NULL
      = Inr (snd (fold (better ?m) (vlist (worker_list m)) (Num 100000000, NULL)))"
    using sched_okD(1)[OF assms] sched_okD(4)[OF assms]
    by (intro schedule_loop_fold[where xs = "[]"]) (auto simp: worker_ptr_def)
  then show ?thesis using better_fold[OF f] f
    by (intro that) (auto simp: runs_def)
qed

text \<open>The two outcomes of a call.\<close>

lemma schedule_cases:
  assumes "sched_ok m" "task_ptr m t" "length (vlist (task_list m)) < 2 ^ 60"
    "\<forall>p w. m_workers m p = Some w \<longrightarrow> length (vlist (tasks w)) < 2 ^ 60"
  obtains (nobody) l where "schedule t m = Inr (- 1, m\<lparr>task_list := l\<rparr>)"
      "vlist l = vlist (task_list m) @ [t]" "tasks_ok m l" "sched_ok (m\<lparr>task_list := l\<rparr>)"
      "\<forall>p\<in>set (vlist (worker_list m)). \<forall>w. runs m p w \<longrightarrow> \<not> load_factor w < Num 100000000"
  | (chosen) b w l where "schedule t m = Inr (worker_fd w, put_worker b (w\<lparr>tasks := l\<rparr>) m)"
      "b \<in> set (vlist (worker_list m))" "runs m b w" "load_factor w < Num 100000000"
      "\<forall>p\<in>set (vlist (worker_list m)). \<forall>v. runs m p v \<longrightarrow> \<not> load_factor v < load_factor w"
      "vlist l = vlist (tasks w) @ [t]" "tasks_ok m l"
      "sched_ok (put_worker b (w\<lparr>tasks := l\<rparr>) m)"
proof -
  let ?m = "m\<lparr>mutex := True\<rparr>"
  note ok = sched_okD[OF assms(1)]
  obtain b where b:
    "schedule_loop ?m 0 (vector_size (worker_list m)) (Num 100000000) NULL = Inr b"
    "(b = NULL \<and> (\<forall>p\<in>set (vlist (worker_list m)). \<forall>w. runs m p w \<longrightarrow> \<not> load_factor w < Num 100000000))
     \<or> (\<exists>w. b \<in> set (vlist (worker_list m)) \<and> runs m b w \<and> load_factor w < Num 100000000
          \<and> (\<forall>p\<in>set (vlist (worker_list m)). \<forall>v. runs m p v \<longrightarrow> \<not> load_factor v < load_factor w))"
    using assms(1) by (rule schedule_choice)
  have unlock: "unlock_mutex (?m\<lparr>task_list := l\<rparr>) = m\<lparr>task_list := l\<rparr>"
    "unlock_mutex (put_worker p w ?m) = put_worker p w m" for l p w
    using ok(3) by (cases m; simp add: unlock_mutex_def put_worker_def)+
  show ?thesis
  proof (cases "b = NULL")
    case True
    obtain l where l: "ptr_push (task_list m) t = Inr l" "tasks_ok m l"
      "vlist l = vlist (task_list m) @ [t]"
      using ok(2) assms(2,3) by (rule tasks_ok_push)
    have "b \<notin> set (vlist (worker_list m))" using ok(4)[of b] True by (auto simp: worker_ptr_def)
    with b(2) True l show ?thesis
      by (intro nobody[of l] sched_ok_task_list assms(1))
        (simp_all add: schedule_def lock_free ok(3) b(1) unlock)
  next
    case False
    with b(2) obtain w where w: "b \<in> set (vlist (worker_list m))" "runs m b w"
      "load_factor w < Num 100000000"
      "\<forall>p\<in>set (vlist (worker_list m)). \<forall>v. runs m p v \<longrightarrow> \<not> load_factor v < load_factor w" by blast
    have bw: "m_workers m b = Some w" "tasks_ok m (tasks w)"
      using w(2) ok(4)[OF w(1)] by (auto simp: runs_def worker_ptr_def)
    obtain l where l: "ptr_push (tasks w) t = Inr l" "tasks_ok m l" "vlist l = vlist (tasks w) @ [t]"
      using bw(2) assms(2) assms(4)[rule_format, OF bw(1)] by (rule tasks_ok_push)
    have "schedule t m = Inr (worker_fd w, put_worker b (w\<lparr>tasks := l\<rparr>) m)"
      using False bw(1) l(1)
      by (simp add: schedule_def lock_free ok(3) b(1) unlock get_worker_def)
    from this w l(3,2) show ?thesis
      by (rule chosen) (rule sched_ok_put[OF assms(1)], simp add: l(2))
  qed
qed

section \<open>Finding, removing, reporting\<close>

definition worker_is :: "mstate \<Rightarrow> (worker \<Rightarrow> bool) \<Rightarrow> ptr \<Rightarrow> bool" where
  "worker_is m q p \<longleftrightarrow> (case m_workers m p of Some w \<Rightarrow> q w | None \<Rightarrow> False)"

text \<open>The loops over \<^verbatim>\<open>worker_list\<close> find the first worker with a property.\<close>

lemma worker_scan:
  assumes "sched_ok m"
  shows "scan (vector_get (worker_list m))
      (\<lambda>p. if p = NULL then x else bindr (get_worker m p) (\<lambda>w. Inr (q w)))
      0 (vector_size (worker_list m))
    = Inr (map_option (\<lambda>p. (of_nat (length (takeWhile (\<lambda>p. \<not> worker_is m q p)
        (vlist (worker_list m)))), p)) (List.find (worker_is m q) (vlist (worker_list m))))"
proof (rule ptrs.scan_find[OF sched_okD(1)[OF assms]])
  fix p assume "p \<in> set (vlist (worker_list m))"
  with assms have "worker_ptr m p" by (rule sched_okD(4))
  then show "(if p = NULL then x else bindr (get_worker m p) (\<lambda>w. Inr (q w)))
      = Inr (worker_is m q p)"
    by (rule worker_ptrE) (simp add: worker_is_def)
qed

lemma worker_found:
  assumes "sched_ok m" "List.find (worker_is m q) (vlist (worker_list m)) = Some p"
  obtains w where "p \<noteq> NULL" "m_workers m p = Some w" "q w" "tasks_ok m (tasks w)"
    "get_worker m p = Inr w" "p \<in> set (vlist (worker_list m))"
proof -
  from assms(2) obtain ys zs where s: "vlist (worker_list m) = ys @ p # zs" "worker_is m q p"
    by (rule find_split)
  then have "worker_ptr m p" using sched_okD(4)[OF assms(1), of p] by simp
  then show thesis
    using s by (elim worker_ptrE) (auto simp: worker_is_def intro: that)
qed

lemma find_worker_pos_ok:
  assumes "sched_ok m"
  shows "find_worker_pos m fd =
    Inr (if \<exists>p\<in>set (vlist (worker_list m)). worker_is m (\<lambda>w. worker_fd w = fd) p
         then int (length (takeWhile (\<lambda>p. \<not> worker_is m (\<lambda>w. worker_fd w = fd) p)
                (vlist (worker_list m))))
         else - 1)"
proof (cases "List.find (worker_is m (\<lambda>w. worker_fd w = fd)) (vlist (worker_list m))")
  case None
  then have "\<not> (\<exists>p\<in>set (vlist (worker_list m)). worker_is m (\<lambda>w. worker_fd w = fd) p)"
    by (simp add: find_None_iff)
  with None show ?thesis by (simp add: find_worker_pos_def worker_scan[OF assms])
next
  case (Some p)
  then obtain ys zs where s: "vlist (worker_list m) = ys @ p # zs"
    "takeWhile (\<lambda>p. \<not> worker_is m (\<lambda>w. worker_fd w = fd) p) (vlist (worker_list m)) = ys"
    "worker_is m (\<lambda>w. worker_fd w = fd) p" by (rule find_split)
  have "length ys < unat (vector_size (worker_list m))"
    using ptrs.count[OF sched_okD(1)[OF assms]] s(1) by simp
  then have "unat (of_nat (length ys) :: size_t) = length ys"
    using unat_bound[of "vector_size (worker_list m)"] by (intro unat_of_nat_small) linarith
  then have "int (unat (of_nat (length ys) :: size_t)) = int (length ys)" by simp
  then show ?thesis using s Some
    by (auto simp: find_worker_pos_def worker_scan[OF assms])
qed

definition task_named :: "mstate \<Rightarrow> string \<Rightarrow> ptr \<Rightarrow> bool" where
  "task_named m f t \<longleftrightarrow> (case m_tasks m t of Some x \<Rightarrow> file_name x = f | None \<Rightarrow> False)"

lemma put_worker_same: "m_workers m p = Some w \<Longrightarrow> put_worker p w m = m"
  by (simp add: put_worker_def fun_upd_idem)

lemma tasks_same [simp]: "w\<lparr>tasks := tasks w\<rparr> = w" for w :: worker
  by simp

text \<open>A finished task: the first of that name goes from the list of the first worker on that
  descriptor; nothing else changes.\<close>

lemma scheduler_remove_task_ok:
  assumes "sched_ok m"
  shows "case List.find (worker_is m (\<lambda>w. worker_fd w = fd)) (vlist (worker_list m)) of
      None \<Rightarrow> scheduler_remove_task fd f m = Inr m
    | Some p \<Rightarrow> \<exists>w l. m_workers m p = Some w \<and> p \<in> set (vlist (worker_list m))
        \<and> scheduler_remove_task fd f m = Inr (put_worker p (w\<lparr>tasks := l\<rparr>) m)
        \<and> tasks_ok m l \<and> vlist l = remove_first (task_named m f) (vlist (tasks w))"
proof (cases "List.find (worker_is m (\<lambda>w. worker_fd w = fd)) (vlist (worker_list m))")
  case None
  then show ?thesis by (simp add: scheduler_remove_task_def worker_scan[OF assms])
next
  case (Some p)
  with assms obtain w where w: "p \<noteq> NULL" "m_workers m p = Some w" "tasks_ok m (tasks w)"
    "get_worker m p = Inr w" "p \<in> set (vlist (worker_list m))" by (rule worker_found)
  have v: "ptr_vector_ok (tasks w)" "\<forall>t\<in>set (vlist (tasks w)). task_ptr m t"
    using w(3) by (simp_all add: tasks_ok_def)
  have scan: "scan (vector_get (tasks w)) (\<lambda>q. bindr (get_task m q) (\<lambda>t. Inr (file_name t = f)))
      0 (vector_size (tasks w))
    = Inr (map_option (\<lambda>x. (of_nat (length (takeWhile (\<lambda>y. \<not> task_named m f y)
        (vlist (tasks w)))), x)) (List.find (task_named m f) (vlist (tasks w))))"
    using v by (intro ptrs.scan_find) (auto simp: task_ptr_def get_task_def task_named_def)
  show ?thesis
  proof (cases "List.find (task_named m f) (vlist (tasks w))")
    case None
    then have "scheduler_remove_task fd f m = Inr m"
      using Some w(4) scan by (simp add: scheduler_remove_task_def worker_scan[OF assms])
    then show ?thesis using Some w None
      by (auto simp: remove_first_None put_worker_same intro!: exI[of _ w] exI[of _ "tasks w"])
  next
    case found: (Some t)
    obtain l where l: "ptr_erase (tasks w) (of_nat (length (takeWhile (\<lambda>y. \<not> task_named m f y)
        (vlist (tasks w))))) = Inr l" "ptr_vector_ok l"
      "vlist l = remove_first (task_named m f) (vlist (tasks w))"
      using ptrs.erase_found[OF v(1) found] by blast
    have "scheduler_remove_task fd f m = Inr (put_worker p (w\<lparr>tasks := l\<rparr>) m)"
      using Some w(4) scan found l(1) by (simp add: scheduler_remove_task_def worker_scan[OF assms])
    moreover have "tasks_ok m l"
      using l(2,3) v(2) set_remove_first[of "task_named m f" "vlist (tasks w)"]
      by (auto simp: tasks_ok_def)
    ultimately show ?thesis using Some w(2,5) l(3) by auto
  qed
qed

lemma scheduler_remove_task_sched_ok:
  assumes "sched_ok m"
  obtains m' where "scheduler_remove_task fd f m = Inr m'" "sched_ok m'"
    "worker_list m' = worker_list m" "m_os m' = m_os m" "interface_fd m' = interface_fd m"
    "interface m' = interface m" "task_list m' = task_list m" "m_tasks m' = m_tasks m"
    "next_ptr m' = next_ptr m"
    "\<forall>p w. m_workers m p = Some w \<longrightarrow> (\<exists>l. m_workers m' p = Some (w\<lparr>tasks := l\<rparr>)
       \<and> length (vlist l) \<le> length (vlist (tasks w)))" "dom (m_workers m') = dom (m_workers m)"
proof (cases "List.find (worker_is m (\<lambda>w. worker_fd w = fd)) (vlist (worker_list m))")
  case None
  have "w\<lparr>tasks := tasks w\<rparr> = w" for w :: worker by simp
  then have "\<forall>p w. m_workers m p = Some w \<longrightarrow> (\<exists>l. m_workers m p = Some (w\<lparr>tasks := l\<rparr>)
     \<and> length (vlist l) \<le> length (vlist (tasks w)))" by (metis order_refl)
  then show thesis using scheduler_remove_task_ok[OF assms, of fd f] assms None
    by (intro that[of m]) auto
next
  case (Some p)
  with scheduler_remove_task_ok[OF assms, of fd f] obtain w l where r: "m_workers m p = Some w"
    "scheduler_remove_task fd f m = Inr (put_worker p (w\<lparr>tasks := l\<rparr>) m)" "tasks_ok m l"
    "vlist l = remove_first (task_named m f) (vlist (tasks w))" by auto
  have "length (remove_first q xs) \<le> length xs" for q :: "ptr \<Rightarrow> bool" and xs
    by (induction xs) auto
  with r(4) have less: "length (vlist l) \<le> length (vlist (tasks w))" by simp
  have "\<exists>l'. m_workers (put_worker p (w\<lparr>tasks := l\<rparr>) m) p' = Some (w'\<lparr>tasks := l'\<rparr>)
     \<and> length (vlist l') \<le> length (vlist (tasks w'))" if "m_workers m p' = Some w'" for p' w'
  proof (cases "p' = p")
    case True
    then show ?thesis using that r(1) less by auto
  next
    case False
    then show ?thesis using that by (intro exI[of _ "tasks w'"]) simp
  qed
  with r assms show thesis
    by (intro that[OF r(2)] sched_ok_put) auto
qed

text \<open>A heartbeat goes to the first worker with the address, and only to it.\<close>

lemma report_heartbeat_ok:
  assumes "sched_ok m"
  shows "report_heartbeat a u t m = Inr
    (case List.find (worker_is m (\<lambda>w. IP w = a)) (vlist (worker_list m)) of
       None \<Rightarrow> m
     | Some p \<Rightarrow> put_worker p ((the (m_workers m p))\<lparr>CPU_usage := u, last_beat_received := t,
         alive := (if alive (the (m_workers m p)) = 0 then 1 else alive (the (m_workers m p)))\<rparr>) m)"
proof (cases "List.find (worker_is m (\<lambda>w. IP w = a)) (vlist (worker_list m))")
  case None
  then show ?thesis by (simp add: report_heartbeat_def worker_scan[OF assms])
next
  case (Some p)
  with assms obtain w where w: "p \<noteq> NULL" "m_workers m p = Some w" by (rule worker_found)
  have unlock: "unlock_mutex (put_worker p w (m\<lparr>mutex := True\<rparr>)) = put_worker p w m" for p w
    using sched_okD(3)[OF assms] by (cases m) (simp add: unlock_mutex_def put_worker_def)
  show ?thesis using Some w
    by (simp add: report_heartbeat_def worker_scan[OF assms] lock_free sched_okD(3)[OF assms]
        get_worker_def unlock Let_def)
qed

section \<open>The tasks of a dead worker\<close>

lemma schedule_loop_alive:
  "schedule_loop m i n l b = Inr b' \<Longrightarrow> b' = b \<or> (\<exists>w. runs m b' w)"
proof (induction m i n l b rule: schedule_loop.induct)
  case (1 m i n l b)
  show ?case
  proof (cases "i < n")
    case True
    obtain p where p: "vector_get (worker_list m) i = Inr p"
      using "1.prems" True by (subst (asm) schedule_loop.simps) (auto simp: bindr_eq_Inr)
    note now = "1.prems"[unfolded schedule_loop.simps[of m i] if_P[OF True] p bindr_Inr]
    show ?thesis
    proof (cases "p = NULL")
      case null: True
      then show ?thesis using now "1.IH"(1)[OF True p] by simp
    next
      case False
      obtain w where w: "get_worker m p = Inr w" using now False by (auto simp: bindr_eq_Inr)
      show ?thesis
      proof (cases "alive w \<noteq> 0 \<and> load_factor w < l")
        case better: True
        then have "schedule_loop m (i + 1) n (load_factor w) p = Inr b'"
          using now False w by simp
        moreover have "runs m p w" using w better by (auto simp: runs_def get_worker_def deref_Inr)
        ultimately show ?thesis using "1.IH"(2)[OF True p False w better] by auto
      next
        case worse: False
        then have "schedule_loop m (i + 1) n l b = Inr b'"
          using now False w by (simp only: bindr_Inr if_False)
        then show ?thesis using "1.IH"(3)[OF True p False w worse] by simp
      qed
    qed
  next
    case False
    then show ?thesis using "1.prems" by (simp add: schedule_loop.simps[of m i])
  qed
qed

text \<open>A dead worker gets nothing.\<close>

lemma schedule_dead:
  assumes "schedule t m = Inr (fd, m')" "m_workers m p = Some w" "alive w = 0"
  shows "m_workers m' p = Some w"
proof -
  obtain m1 b where m1: "lock_mutex m = Inr m1"
    "schedule_loop m1 0 (vector_size (worker_list m1)) (Num 100000000) NULL = Inr b"
    using assms(1) by (auto simp: schedule_def bindr_eq_Inr)
  have same: "m_workers m1 = m_workers m"
    using m1(1) by (auto simp: lock_mutex_def split: if_splits)
  have "b \<noteq> p \<or> b = NULL"
    using schedule_loop_alive[OF m1(2)] assms(2,3) same by (auto simp: runs_def)
  then show ?thesis
    using assms(1,2) m1 same by (auto simp: schedule_def bindr_eq_Inr split: if_splits)
qed

lemma m_do_put_frame:
  "m_do_put fd w m = Inr (r, m') \<Longrightarrow> m_workers m' = m_workers m \<and> worker_list m' = worker_list m
    \<and> task_list m' = task_list m \<and> m_tasks m' = m_tasks m \<and> interface_fd m' = interface_fd m
    \<and> interface m' = interface m \<and> next_ptr m' = next_ptr m \<and> \<not> mutex m \<and> \<not> mutex m'"
  by (auto simp: m_do_put_def bindr_eq_Inr dest: do_put_unlocked)

lemma resend_loop_dead:
  "resend_loop raw p i n m = Inr m' \<Longrightarrow> m_workers m p = Some w \<Longrightarrow> alive w = 0 \<Longrightarrow>
    m_workers m' p = Some w"
proof (induction raw p i n m rule: resend_loop.induct)
  case (1 raw p i n m)
  show ?case
  proof (cases "i < n")
    case True
    note now = "1.prems"(1)[unfolded resend_loop.simps[of raw p i] if_P[OF True]]
    obtain d where d: "get_worker m p = Inr d" using now by (auto simp: bindr_eq_Inr)
    obtain t where t: "vector_get (tasks d) i = Inr t" using now d by (auto simp: bindr_eq_Inr)
    obtain fd m1 where s: "schedule t m = Inr (fd, m1)" using now d t by (auto simp: bindr_eq_Inr)
    obtain x where x: "get_task m1 t = Inr x" using now d t s by (auto simp: bindr_eq_Inr)
    obtain f os where o: "sys_open_trunc (m_os m1) (file_name x) = (f, os)" by fastforce
    let ?w = "raw\<lparr>temp_file_name := Some (file_name x), temp_fd := f\<rparr>"
    obtain r m2 where r: "m_do_put fd ?w (m1\<lparr>m_os := os\<rparr>) = Inr (r, m2)"
      using now d t s x o by (auto simp: bindr_eq_Inr)
    have rec: "resend_loop raw p (i + 1) n m2 = Inr m'" using now d t s x o r by simp
    have "m_workers m2 p = Some w"
      using schedule_dead[OF s "1.prems"(2,3)] m_do_put_frame[OF r] by simp
    from "1.IH"[OF True d t s _ x o[symmetric] refl refl r _ rec this "1.prems"(3)]
    show ?thesis by simp
  next
    case False
    then show ?thesis using "1.prems" by (simp add: resend_loop.simps[of raw p i])
  qed
qed

text \<open>Erasing at 0, 1, 2, ... from a vector that shrinks each time: the index passes the end when
  there are two tasks or more.\<close>

lemma ptr_erase_past_end:
  assumes "ptr_vector_ok v" "length (vlist v) \<le> unat i" "i \<noteq> v_size v - 1"
  shows "ptr_erase v i = Inl Out_of_bounds"
  using assms vector_erase_past_end[of v i "()"] by (simp add: ptr_erase_def ptr_vector_ok_def)

lemma ptr_erase_at:
  assumes "ptr_vector_ok v" "unat i < length (vlist v)"
  obtains v' where "ptr_erase v i = Inr v'" "ptr_vector_ok v'" "length (vlist v') = length (vlist v) - 1"
proof -
  have s: "vlist v = take (unat i) (vlist v) @ vlist v ! unat i # drop (Suc (unat i)) (vlist v)"
    using assms(2) by (simp add: id_take_nth_drop)
  from ptrs.erase[OF assms(1) s, of i] assms(2) show thesis by (auto intro: that)
qed

lemma erase_loop_many:
  assumes "p \<noteq> NULL" "m_workers m p = Some w" "ptr_vector_ok (tasks w)"
    "length (vlist (tasks w)) = unat n - unat i" "i < n" "2 \<le> unat n"
  shows "erase_loop p i n m = Inl Out_of_bounds"
  using assms
proof (induction p i n m arbitrary: w rule: erase_loop.induct)
  case (1 p i n m)
  let ?v = "tasks w"
  have g: "get_worker m p = Inr w" using "1.prems"(1,2) by (simp add: get_worker_def)
  show ?case
  proof (cases "unat i < length (vlist ?v)")
    case True
    obtain v where v: "ptr_erase ?v i = Inr v" "ptr_vector_ok v"
      "length (vlist v) = length (vlist ?v) - 1"
      using "1.prems"(3) True by (rule ptr_erase_at)
    have s: "unat (i + 1) = Suc (unat i)" using "1.prems"(5) by (rule unat_suc)
    have "i + 1 < n"
      using True "1.prems"(4,6) s by (simp add: word_less_nat_alt)
    then have "erase_loop p (i + 1) n (put_worker p (w\<lparr>tasks := v\<rparr>) m) = Inl Out_of_bounds"
      using "1.prems" v s by (intro "1.IH"[OF "1.prems"(5) g v(1), of "w\<lparr>tasks := v\<rparr>"]) auto
    then show ?thesis using "1.prems"(5) g v(1) by (subst erase_loop.simps) simp
  next
    case False
    have c: "unat (v_size ?v) = length (vlist ?v)"
      using ptrs.count[OF "1.prems"(3)] by (simp add: vector_size_def)
    have "i \<noteq> v_size ?v - 1"
    proof
      assume i: "i = v_size ?v - 1"
      have "1 \<le> unat (v_size ?v)"
        using c "1.prems"(4,5) by (simp add: word_less_nat_alt)
      then have "unat i = unat (v_size ?v) - 1"
        unfolding i by (subst unat_sub_small) (auto simp: word_le_nat_alt)
      then show False using False c \<open>1 \<le> unat (v_size ?v)\<close> by simp
    qed
    then have "ptr_erase ?v i = Inl Out_of_bounds"
      using "1.prems"(3) False by (intro ptr_erase_past_end) auto
    then show ?thesis using "1.prems"(5) g by (subst erase_loop.simps) simp
  qed
qed

lemma reschedule_many:
  assumes "m_workers m p = Some w" "alive w = 0" "ptr_vector_ok (tasks w)"
    "2 \<le> length (vlist (tasks w))"
  shows "reschedule raw p m \<noteq> Inr m'"
proof
  assume r: "reschedule raw p m = Inr m'"
  let ?n = "vector_size (tasks w)"
  have p: "p \<noteq> NULL" "get_worker m p = Inr w"
    using r assms(1) by (auto simp: reschedule_def bindr_eq_Inr get_worker_def deref_Inr)
  obtain m1 where m1: "resend_loop raw p 0 ?n m = Inr m1" "erase_loop p 0 ?n m1 = Inr m'"
    using r p(2) by (auto simp: reschedule_def bindr_eq_Inr Let_def)
  have n: "unat ?n = length (vlist (tasks w))" using ptrs.count[OF assms(3)] .
  have "erase_loop p 0 ?n m1 = Inl Out_of_bounds"
    using resend_loop_dead[OF m1(1) assms(1,2)] p(1) assms(3,4) n
    by (intro erase_loop_many[of p m1 w]) (auto simp: word_less_nat_alt)
  with m1(2) show False by simp
qed

lemma reschedule_none:
  assumes "p \<noteq> NULL" "m_workers m p = Some w" "ptr_vector_ok (tasks w)" "vlist (tasks w) = []"
  shows "reschedule raw p m = Inr m"
proof -
  have "vector_size (tasks w) = 0" using ptrs.count[OF assms(3)] assms(4) by (simp add: unat_eq_0)
  then show ?thesis using assms(1,2)
    by (simp add: reschedule_def get_worker_def resend_loop.simps erase_loop.simps)
qed

text \<open>One task: it is opened with \<^verbatim>\<open>O_TRUNC\<close> and then sent, so the file that arrives is empty, and
  the stored copy is gone.\<close>

lemma reopened_empty:
  assumes "\<not> denied os f" "sys_open_trunc os f = (fd', os')" "fds os fd = Some (Sock nb)"
    "next_fd os \<noteq> fd" "length f + 6 \<le> 4096" "willing retried_by_master (wplan os fd)"
  shows "\<exists>os''. do_put fd (raw\<lparr>temp_file_name := Some f, temp_fd := fd'\<rparr>) (False, os')
      = Inr (DONE_SENDING, False, os'') \<and> sent os'' fd = sent os fd @ put_frame f []"
proof -
  have o: "fd' = next_fd os" "os' = os\<lparr>disk := (disk os)(f \<mapsto> []),
      fds := (fds os)(next_fd os \<mapsto> File f 0), incoming := (incoming os)(next_fd os := []),
      wplan := (wplan os)(next_fd os := []), next_fd := next_fd os + 1\<rparr>"
    using assms(1,2) by (auto simp: sys_open_trunc_def)
  have "\<exists>os''. do_put fd (raw\<lparr>temp_file_name := Some f, temp_fd := fd'\<rparr>) (False, os')
      = Inr (DONE_SENDING, False, os'') \<and> sent os'' fd = sent os' fd @ put_frame f []"
    using assms(3-6) o
    by (intro do_put_whole[where off = 0 and nb = nb]) auto
  then show ?thesis using o by simp
qed

lemma reschedule_one:
  assumes "sched_ok m" "p \<noteq> NULL" "m_workers m p = Some w" "alive w = 0"
    "vlist (tasks w) = [t]" "ptr_vector_ok (tasks w)" "m_tasks m t = Some x" "t \<noteq> NULL"
    "length (vlist (task_list m)) < 2 ^ 60"
    "\<forall>p w. m_workers m p = Some w \<longrightarrow> length (vlist (tasks w)) < 2 ^ 60"
    "q \<in> set (vlist (worker_list m))" "runs m q u" "load_factor u < Num 100000000"
    "\<forall>v \<in> ran (m_workers m). \<exists>nb. fds (m_os m) (worker_fd v) = Some (Sock nb)
       \<and> next_fd (m_os m) \<noteq> worker_fd v \<and> willing retried_by_master (wplan (m_os m) (worker_fd v))"
    "\<not> denied (m_os m) (file_name x)" "length (file_name x) + 6 \<le> 4096"
  obtains m' v where "reschedule raw p m = Inr m'" "v \<in> ran (m_workers m)" "alive v \<noteq> 0"
    "sent (m_os m') (worker_fd v) = sent (m_os m) (worker_fd v) @ put_frame (file_name x) []"
proof -
  have n: "vector_size (tasks w) = 1"
  proof -
    have "unat (vector_size (tasks w)) = unat (1 :: size_t)"
      using ptrs.count[OF assms(6)] assms(5) by simp
    then show ?thesis by (simp only: word_unat_eq_iff)
  qed
  have get: "get_worker m p = Inr w" using assms(2,3) by (simp add: get_worker_def)
  have first: "vector_get (tasks w) 0 = Inr t" using ptrs.get[OF assms(6), of 0] assms(5) by simp
  have tp: "task_ptr m t" using assms(7,8) by (simp add: task_ptr_def)
  from assms(1) tp assms(9,10) show thesis
  proof (cases rule: schedule_cases)
    case (nobody l)
    then show ?thesis using assms(11-13) by auto
  next
    case (chosen b v l)
    let ?m1 = "put_worker b (v\<lparr>tasks := l\<rparr>) m"
    have v: "v \<in> ran (m_workers m)" "alive v \<noteq> 0"
      using chosen(3) by (auto simp: runs_def ran_def)
    then obtain nb where sock: "fds (m_os m) (worker_fd v) = Some (Sock nb)"
      "next_fd (m_os m) \<noteq> worker_fd v" "willing retried_by_master (wplan (m_os m) (worker_fd v))"
      using assms(14) by blast
    obtain fd os where o: "sys_open_trunc (m_os m) (file_name x) = (fd, os)" by fastforce
    let ?w = "raw\<lparr>temp_file_name := Some (file_name x), temp_fd := fd\<rparr>"
    obtain os' where s: "do_put (worker_fd v) ?w (False, os) = Inr (DONE_SENDING, False, os')"
      "sent os' (worker_fd v) = sent (m_os m) (worker_fd v) @ put_frame (file_name x) []"
      using reopened_empty[OF assms(15) o sock(1,2) assms(16) sock(3)] by blast
    let ?m2 = "?m1\<lparr>m_os := os'\<rparr>"
    have put: "m_do_put (worker_fd v) ?w (?m1\<lparr>m_os := os\<rparr>) = Inr (DONE_SENDING, ?m2)"
      using s(1) sched_okD(3)[OF assms(1)]
      by (cases m) (simp add: m_do_put_def put_worker_def)
    have task: "get_task ?m1 t = Inr x" using assms(7,8) by (simp add: get_task_def)
    have resend: "resend_loop raw p 0 1 m = Inr ?m2"
      using get first chosen(1) task o put
      by (subst resend_loop.simps) (simp add: resend_loop.simps[of raw p 1])
    have dead: "m_workers ?m2 p = Some w"
      using schedule_dead[OF chosen(1) assms(3,4)] by simp
    obtain l' where "ptr_erase (tasks w) 0 = Inr l'"
      using ptr_erase_at[OF assms(6), of 0] assms(5) by auto
    then have "erase_loop p 0 1 ?m2 = Inr (put_worker p (w\<lparr>tasks := l'\<rparr>) ?m2)"
      using dead assms(2)
      by (subst erase_loop.simps) (simp add: get_worker_def erase_loop.simps[of p 1])
    with resend have "reschedule raw p m = Inr (put_worker p (w\<lparr>tasks := l'\<rparr>) ?m2)"
      using get n by (simp add: reschedule_def)
    from that[OF this v] s(2) show ?thesis by simp
  qed
qed

section \<open>The heartbeat monitor\<close>

definition expired :: "dbl \<Rightarrow> worker \<Rightarrow> bool" where
  "expired t w \<longleftrightarrow> Num 0 < last_beat_received w \<and> alive w = 1 \<and> Num 3 < t - last_beat_received w"

text \<open>A pass over workers without tasks marks exactly those whose last heartbeat is more than three
  seconds old, and does nothing else.\<close>

definition mark_expired :: "dbl \<Rightarrow> ptr \<Rightarrow> mstate \<Rightarrow> mstate" where
  "mark_expired t p m = (case m_workers m p of
     Some w \<Rightarrow> if expired t w then put_worker p (w\<lparr>alive := 0\<rparr>) m else m | None \<Rightarrow> m)"

lemma mark_expired_frame [simp]:
  "worker_list (mark_expired t p m) = worker_list m" "mutex (mark_expired t p m) = mutex m"
  by (simp_all add: mark_expired_def split: option.split)

lemma detect_loop_idle:
  assumes "ptr_vector_ok (worker_list m)" "\<not> mutex m" "vlist (worker_list m) = xs @ ys"
    "unat i = length xs"
    "\<forall>p\<in>set ys. p \<noteq> NULL \<and> (\<exists>w. m_workers m p = Some w \<and> ptr_vector_ok (tasks w)
       \<and> vlist (tasks w) = [])"
  shows "detect_loop raw t i (vector_size (worker_list m)) m = Inr (fold (mark_expired t) ys m)"
  using assms
proof (induction ys arbitrary: xs i m)
  case Nil
  then show ?case using ptrs.count[OF Nil(1)]
    by (subst detect_loop.simps) (simp add: word_less_nat_alt)
next
  case (Cons p ys)
  have lt: "i < vector_size (worker_list m)"
    using ptrs.count[OF Cons.prems(1)] Cons.prems by (simp add: word_less_nat_alt)
  have g: "vector_get (worker_list m) i = Inr p"
    using ptrs.get[OF Cons.prems(1), of i] Cons.prems by simp
  obtain w where w: "p \<noteq> NULL" "m_workers m p = Some w" "ptr_vector_ok (tasks w)"
    "vlist (tasks w) = []" using Cons.prems(5) by auto
  have next_i: "unat (i + 1) = length (xs @ [p])" using unat_suc[OF lt] Cons.prems(4) by simp
  let ?m = "mark_expired t p m"
  have rest: "\<forall>q\<in>set ys. q \<noteq> NULL \<and> (\<exists>w. m_workers ?m q = Some w \<and> ptr_vector_ok (tasks w)
      \<and> vlist (tasks w) = [])"
    using Cons.prems(5) w by (auto simp: mark_expired_def)
  have IH: "detect_loop raw t (i + 1) (vector_size (worker_list ?m)) ?m
      = Inr (fold (mark_expired t) ys ?m)"
    using Cons.prems(1-3) next_i rest by (intro Cons.IH[of _ "xs @ [p]"]) auto
  have quiet: "reschedule raw p (put_worker p (w\<lparr>alive := 0\<rparr>) m)
      = Inr (put_worker p (w\<lparr>alive := 0\<rparr>) m)"
    using w by (intro reschedule_none[where w = "w\<lparr>alive := 0\<rparr>"]) simp_all
  have "detect_loop raw t i (vector_size (worker_list m)) m
      = detect_loop raw t (i + 1) (vector_size (worker_list m)) ?m"
    using lt g w(1,2) Cons.prems(2) quiet
    by (subst detect_loop.simps)
      (simp add: lock_free get_worker_def mark_expired_def expired_def Let_def del: dbl_ops)
  with IH show ?case by simp
qed

lemma detect_pass_many:
  assumes "ptr_vector_ok (worker_list m)" "vlist (worker_list m) = p # ps" "p \<noteq> NULL"
    "m_workers m p = Some w" "expired t w" "ptr_vector_ok (tasks w)"
    "2 \<le> length (vlist (tasks w))" "\<not> mutex m"
  shows "detect_pass raw t m \<noteq> Inr m'"
proof
  assume d: "detect_pass raw t m = Inr m'"
  have lt: "0 < vector_size (worker_list m)"
    using ptrs.count[OF assms(1)] assms(2) by (simp add: word_less_nat_alt)
  have g: "vector_get (worker_list m) 0 = Inr p"
    using ptrs.get[OF assms(1), of 0] assms(2) by simp
  obtain m1 where "reschedule raw p (put_worker p (w\<lparr>alive := 0\<rparr>) m) = Inr m1"
    using d lt g assms(3,4,5,8)
    by (subst (asm) detect_pass_def, subst (asm) detect_loop.simps)
      (auto simp: lock_free get_worker_def expired_def Let_def bindr_eq_Inr simp del: dbl_ops)
  moreover have "reschedule raw p (put_worker p (w\<lparr>alive := 0\<rparr>) m) \<noteq> Inr m1"
    using assms(6,7) by (intro reschedule_many[where w = "w\<lparr>alive := 0\<rparr>"]) simp_all
  ultimately show False by simp
qed

end
