(* ===== verification/Master_Events.thy ===== *)
theory Master_Events
  imports Sched_Props
begin

text \<open>
  The master's event loop: \<open>accept_connections\<close> and \<open>handle_data\<close>, which runs the parser state
  machine of a connection (\<^verbatim>\<open>START\<close>, \<^verbatim>\<open>NEED_SIZE\<close>, \<^verbatim>\<open>RECIEVING_DATA\<close>, \<^verbatim>\<open>FORWARD_DATA\<close>,
  \<^verbatim>\<open>FORWARDING_DATA\<close>), and the step relation of the whole master. Each \<^verbatim>\<open>if (curr->status == ...)\<close>
  block of \<open>handle_data\<close> is a definition; it returns from the handler or goes on to the next.
\<close>

section \<open>New connections\<close>

datatype accept_result = Accepted int string | Accept_fails errno

text \<open>The pending connections are given as a list; when it is empty \<^verbatim>\<open>accept\<close> says \<^verbatim>\<open>EAGAIN\<close>. \<open>raw\<close> is
  fresh memory; \<open>epoll_add\<close> says whether \<^verbatim>\<open>epoll_ctl\<close> takes the descriptor. The descriptor becomes a
  non-blocking socket.\<close>

definition open_socket :: "int \<Rightarrow> osys \<Rightarrow> osys" where
  "open_socket fd os = os\<lparr>fds := (fds os)(fd \<mapsto> Sock True), incoming := (incoming os)(fd := []),
     wplan := (wplan os)(fd := []), sent := (sent os)(fd := []),
     next_fd := max (next_fd os) (fd + 1)\<rparr>"

fun accept_connections ::
  "worker \<Rightarrow> (int \<Rightarrow> bool) \<Rightarrow> accept_result list \<Rightarrow> mstate \<Rightarrow> mstate res" where
  "accept_connections raw epoll_add [] m = Inr m"
| "accept_connections raw epoll_add (Accept_fails e # rest) m =
     (if e = EAGAIN then Inr m else Inl (Exits 1))"
| "accept_connections raw epoll_add (Accepted new_fd connected_ip # rest) m =
     bindr (create_worker raw new_fd connected_ip (open_socket new_fd (m_os m))) (\<lambda>(w, os).
       let (newWorker, m1) = alloc_worker w (m\<lparr>m_os := os\<rparr>) in
       bindr (ptr_push (worker_list m1) newWorker) (\<lambda>l.
         if epoll_add new_fd
         then accept_connections raw epoll_add rest (m1\<lparr>worker_list := l\<rparr>)
         else Inl (Exits 1)))"

text \<open>\<^verbatim>\<open>accept\<close> returns a descriptor that is not in use.\<close>

fun accept_fresh :: "accept_result list \<Rightarrow> osys \<Rightarrow> bool" where
  "accept_fresh [] os = True"
| "accept_fresh (Accept_fails e # rest) os = accept_fresh rest os"
| "accept_fresh (Accepted fd ip # rest) os =
     (0 \<le> fd \<and> fds os fd = None \<and> accept_fresh rest (open_socket fd os))"

section \<open>Data on a connection\<close>

datatype flow = Return mstate | Go_on mstate

text \<open>A reader of \<^verbatim>\<open>master.c\<close> run on the worker at \<open>p\<close>.\<close>

definition m_read :: "(worker \<Rightarrow> osys \<Rightarrow> (int \<times> worker \<times> osys) res) \<Rightarrow> ptr \<Rightarrow> mstate \<Rightarrow>
    (int \<times> mstate) res" where
  "m_read reader p m =
     bindr (get_worker m p) (\<lambda>w.
     bindr (reader w (m_os m)) (\<lambda>(check, w', os).
       Inr (check, put_worker p w' (m\<lparr>m_os := os\<rparr>))))"

definition become_interface :: "int \<Rightarrow> ptr \<Rightarrow> mstate \<Rightarrow> mstate res" where
  "become_interface e_fd cur m =
     bindr (get_worker m cur) (\<lambda>w.
     bindr (lock_mutex (m\<lparr>interface_fd := worker_fd w, interface := cur\<rparr>)) (\<lambda>m.
     bindr (find_worker_pos m e_fd) (\<lambda>pos.
     bindr (ptr_erase (worker_list m) (of_int pos)) (\<lambda>l.
       Inr (unlock_mutex (m\<lparr>worker_list := l\<rparr>))))))"

definition handle_start :: "int \<Rightarrow> ptr \<Rightarrow> mstate \<Rightarrow> flow res" where
  "handle_start e_fd cur m =
     bindr (get_worker m cur) (\<lambda>w0.
     if status w0 \<noteq> START then Inr (Go_on m)
     else bindr (m_read get_command cur m) (\<lambda>(check, m).
     bindr (get_worker m cur) (\<lambda>w.
       if check = NOT_DONE_SENDING then Inr (Return m)
       else if check = DONE_SENDING then
         (let m = put_worker cur (w\<lparr>status := NEED_SIZE\<rparr>) m in
          if to_do w = INTERFACE_PUT \<and> interface_fd m = - 1
          then bindr (become_interface e_fd cur m) (\<lambda>m. Inr (Go_on m))
          else Inr (Go_on m))
       else
         (let m = put_worker cur (w\<lparr>alive := 0\<rparr>) m in
          if e_fd = interface_fd m
          then Inr (Return (m\<lparr>m_os := sys_close (m_os m) (interface_fd m), interface_fd := - 1\<rparr>))
          else Inr (Go_on m)))))"

definition handle_need_size :: "ptr \<Rightarrow> mstate \<Rightarrow> flow res" where
  "handle_need_size cur m =
     bindr (get_worker m cur) (\<lambda>w0.
     if status w0 \<noteq> NEED_SIZE then Inr (Go_on m)
     else bindr (m_read get_size cur m) (\<lambda>(check, m).
     bindr (get_worker m cur) (\<lambda>w.
       if check = NOT_DONE_SENDING then Inr (Return m)
       else if check = DONE_SENDING then
         Inr (Go_on (put_worker cur
           (w\<lparr>alive := (if file_size w = 0 then 0 else alive w), status := RECIEVING_DATA\<rparr>) m))
       else Inr (Go_on m))))"

definition handle_recieving :: "ptr \<Rightarrow> mstate \<Rightarrow> flow res" where
  "handle_recieving cur m =
     bindr (get_worker m cur) (\<lambda>w0.
     if status w0 \<noteq> RECIEVING_DATA then Inr (Go_on m)
     else bindr (m_read get_binary_data cur m) (\<lambda>(check, m).
     bindr (get_worker m cur) (\<lambda>w.
       if check = NOT_DONE_SENDING then Inr (Return m)
       else if check = DONE_SENDING
       then Inr (Go_on (put_worker cur (w\<lparr>status := FORWARD_DATA\<rparr>) m))
       else Inr (Go_on m))))"

definition handle_forward :: "int \<Rightarrow> ptr \<Rightarrow> mstate \<Rightarrow> flow res" where
  "handle_forward e_fd cur m =
     bindr (get_worker m cur) (\<lambda>w0.
     if status w0 \<noteq> FORWARD_DATA then Inr (Go_on m)
     else if e_fd = interface_fd m then
       bindr (make_task w0) (\<lambda>t.
       let (new_task, m) = alloc_task t m in
       bindr (schedule new_task m) (\<lambda>(fd, m).
       bindr (get_worker m cur) (\<lambda>w.
         Inr (Go_on (put_worker cur (w\<lparr>fd_to_send_to := fd, status := FORWARDING_DATA\<rparr>) m)))))
     else if alive w0 = 0 then Inr (Return m)
     else
       bindr (or_fault Null_deref (temp_file_name w0)) (\<lambda>name.
       bindr (scheduler_remove_task (worker_fd w0) name m) (\<lambda>m.
       bindr (get_worker m cur) (\<lambda>w.
         Inr (Go_on (put_worker cur
           (w\<lparr>fd_to_send_to := interface_fd m, status := FORWARDING_DATA\<rparr>) m))))))"

definition handle_forwarding :: "ptr \<Rightarrow> mstate \<Rightarrow> mstate res" where
  "handle_forwarding cur m =
     bindr (get_worker m cur) (\<lambda>w.
     if status w \<noteq> FORWARDING_DATA then Inr m
     else bindr (m_do_put (fd_to_send_to w) w m) (\<lambda>(s, m).
       let (w', os) = reset_worker_for_parsing w (m_os m) in
       Inr (put_worker cur (w'\<lparr>status := START\<rparr>) (m\<lparr>m_os := os\<rparr>))))"

text \<open>The blocks one after the other; a \<^verbatim>\<open>return\<close> skips the rest.\<close>

definition andthen :: "flow res \<Rightarrow> (mstate \<Rightarrow> flow res) \<Rightarrow> flow res" where
  "andthen r f = bindr r (\<lambda>x. case x of Return m \<Rightarrow> Inr (Return m) | Go_on m \<Rightarrow> f m)"

definition run_blocks :: "int \<Rightarrow> ptr \<Rightarrow> mstate \<Rightarrow> mstate res" where
  "run_blocks e_fd cur m =
     bindr (andthen (andthen (andthen (handle_start e_fd cur m) (handle_need_size cur))
              (handle_recieving cur)) (handle_forward e_fd cur))
       (\<lambda>x. case x of Return m \<Rightarrow> Inr m | Go_on m \<Rightarrow> handle_forwarding cur m)"

definition handle_data :: "int \<Rightarrow> mstate \<Rightarrow> mstate res" where
  "handle_data e_fd m =
     bindr (find_worker_pos m e_fd) (\<lambda>vector_pos.
     bindr (if vector_pos = - 1 then Inr (interface m)
            else vector_get (worker_list m) (of_int vector_pos)) (\<lambda>cur.
       if cur = NULL then Inr m
       else bindr (get_worker m cur) (\<lambda>w.
         if alive w = 0 then Inr m else run_blocks e_fd cur m)))"

section \<open>The master as a state machine\<close>

text \<open>What happens between two steps: data arrives on a connection. A step is an event of the loop, a
  heartbeat datagram, or a pass of the monitor; a step with a fault is a crash and is not a
  transition.\<close>

inductive master_step :: "mstate \<Rightarrow> mstate \<Rightarrow> bool" where
  arrives: "master_step m (m\<lparr>m_os := feed (m_os m) fd es\<rparr>)"
| connects: "accept_connections raw epoll_add pending m = Inr m' \<Longrightarrow>
    accept_fresh pending (m_os m) \<Longrightarrow> master_step m m'"
| data: "handle_data e_fd m = Inr m' \<Longrightarrow> master_step m m'"
| heartbeat: "report_heartbeat addr usage t m = Inr m' \<Longrightarrow> master_step m m'"
| monitor: "detect_pass raw t m = Inr m' \<Longrightarrow> master_step m m'"

inductive master_reach :: "mstate \<Rightarrow> mstate \<Rightarrow> bool" for m0 where
  start: "master_reach m0 m0"
| step: "master_reach m0 m \<Longrightarrow> master_step m m' \<Longrightarrow> master_reach m0 m'"

text \<open>\<^verbatim>\<open>setUpGlobals\<close>: two empty vectors, no interface.\<close>

definition initial_master :: "osys \<Rightarrow> mstate res" where
  "initial_master os =
     bindr ptr_create (\<lambda>wl. bindr ptr_create (\<lambda>tl.
       Inr \<lparr>m_workers = (\<lambda>_. None), m_tasks = (\<lambda>_. None), worker_list = wl, task_list = tl,
            interface_fd = - 1, interface = NULL, mutex = False, next_ptr = 1, m_os = os\<rparr>))"

end
