(* ===== verification/Master_Inv.thy ===== *)
theory Master_Inv
  imports Master_Events
begin

text \<open>
  The invariant of the master: its vectors and heap are well formed, the mutex is free between
  events, a worker is in the list at most once, and the interface is a connection outside the list,
  known by its descriptor as long as it is alive. Every step keeps it.
\<close>

section \<open>The invariant\<close>

definition fresh_ok :: "mstate \<Rightarrow> bool" where
  "fresh_ok m \<longleftrightarrow> 0 < next_ptr m
     \<and> (\<forall>p. next_ptr m \<le> p \<longrightarrow> m_workers m p = None \<and> m_tasks m p = None)"

definition iface_ok :: "mstate \<Rightarrow> bool" where
  "iface_ok m \<longleftrightarrow> distinct (vlist (worker_list m)) \<and> interface m \<notin> set (vlist (worker_list m))
     \<and> (interface m = NULL \<or> worker_ptr m (interface m))
     \<and> (if interface_fd m = - 1
        then interface m = NULL \<or> worker_is m (\<lambda>w. alive w = 0) (interface m)
        else interface m \<noteq> NULL \<and> worker_is m (\<lambda>w. worker_fd w = interface_fd m) (interface m))
     \<and> (\<forall>p\<in>dom (m_workers m). worker_ptr m p \<and> worker_is m (\<lambda>w. worker_fd w \<noteq> - 1) p)"

definition master_ok :: "mstate \<Rightarrow> bool" where
  "master_ok m \<longleftrightarrow> sched_ok m \<and> iface_ok m \<and> fresh_ok m"

lemma master_okD:
  assumes "master_ok m"
  shows "sched_ok m" "iface_ok m" "fresh_ok m" "\<not> mutex m"
  using assms by (auto simp: master_ok_def sched_ok_def)

lemma iface_ok_worker:
  assumes "iface_ok m" "m_workers m p = Some w"
  shows "worker_ptr m p" "worker_fd w \<noteq> - 1"
proof -
  have "p \<in> dom (m_workers m)" using assms(2) by blast
  with assms(1) have "worker_ptr m p \<and> worker_is m (\<lambda>w. worker_fd w \<noteq> - 1) p"
    unfolding iface_ok_def by blast
  then show "worker_ptr m p" "worker_fd w \<noteq> - 1" using assms(2) by (simp_all add: worker_is_def)
qed

lemma initial_master_ok:
  obtains m where "initial_master os = Inr m" "master_ok m" "m_os m = os"
    "vlist (worker_list m) = []" "vlist (task_list m) = []" "interface_fd m = - 1"
proof (rule ptr_create_ok)
  fix v assume v: "ptr_create = Inr v" "ptr_vector_ok v" "vlist v = []"
  show thesis
    by (intro that[of "\<lparr>m_workers = (\<lambda>_. None), m_tasks = (\<lambda>_. None), worker_list = v,
          task_list = v, interface_fd = - 1, interface = NULL, mutex = False, next_ptr = 1,
          m_os = os\<rparr>"])
      (simp_all add: v initial_master_def master_ok_def sched_ok_def tasks_ok_def iface_ok_def
        fresh_ok_def)
qed

section \<open>Updates that keep it\<close>

lemma sched_ok_os [simp]: "sched_ok (m\<lparr>m_os := os\<rparr>) = sched_ok m"
proof -
  have f: "tasks_ok (m\<lparr>m_os := os\<rparr>) v = tasks_ok m v" for v by (rule tasks_ok_frame) simp
  show ?thesis by (auto simp: sched_ok_def worker_ptr_def f)
qed

lemma worker_is_put [simp]:
  "worker_is (put_worker p w m) q p' = (if p' = p then q w else worker_is m q p')"
  by (simp add: worker_is_def)

lemma worker_is_frame: "m_workers m' = m_workers m \<Longrightarrow> worker_is m' q p = worker_is m q p"
  by (simp add: worker_is_def)

lemma worker_ptr_frame:
  "m_workers m' = m_workers m \<Longrightarrow> m_tasks m' = m_tasks m \<Longrightarrow> worker_ptr m' p = worker_ptr m p"
  using tasks_ok_frame[of m' m] by (simp add: worker_ptr_def)

lemma master_ok_os [simp]: "master_ok (m\<lparr>m_os := os\<rparr>) = master_ok m"
proof -
  have w: "worker_is (m\<lparr>m_os := os\<rparr>) q p = worker_is m q p" for q p by (rule worker_is_frame) simp
  have p: "worker_ptr (m\<lparr>m_os := os\<rparr>) p = worker_ptr m p" for p by (rule worker_ptr_frame) simp_all
  show ?thesis by (simp add: master_ok_def iface_ok_def fresh_ok_def w p)
qed

lemma master_ok_put:
  assumes "master_ok m" "m_workers m p = Some w" "tasks_ok m (tasks w')"
    "worker_fd w' = worker_fd w" "alive w = 0 \<longrightarrow> alive w' = 0 \<or> p \<in> set (vlist (worker_list m))"
  shows "master_ok (put_worker p w' m)"
proof -
  have f: "tasks_ok (put_worker p w' m) v = tasks_ok m v" for v by (rule tasks_ok_frame) simp
  have q: "worker_ptr (put_worker p w' m) q" if "worker_ptr m q" for q
    using that assms(3) by (auto simp: worker_ptr_def f)
  have s: "sched_ok (put_worker p w' m)" using assms(1,3) by (intro sched_ok_put) (rule master_okD)
  have i: "iface_ok m" using assms(1) by (rule master_okD)
  note p = iface_ok_worker[OF i assms(2)]
  have "iface_ok (put_worker p w' m)"
    using i q p assms(2,4,5) by (auto simp: iface_ok_def worker_is_def split: if_splits)
  moreover have "fresh_ok (put_worker p w' m)"
    using master_okD(3)[OF assms(1)] assms(2) by (auto simp: fresh_ok_def)
  ultimately show ?thesis using s by (simp add: master_ok_def)
qed

lemma master_ok_worker:
  assumes "master_ok m" "get_worker m p = Inr w"
  shows "m_workers m p = Some w" "tasks_ok m (tasks w)" "p \<noteq> NULL" "worker_fd w \<noteq> - 1"
proof -
  show w: "m_workers m p = Some w" "p \<noteq> NULL"
    using assms(2) by (simp_all add: get_worker_def deref_Inr)
  show "tasks_ok m (tasks w)" "worker_fd w \<noteq> - 1"
    using iface_ok_worker[OF master_okD(2)[OF assms(1)] w(1)] w(1)
    by (auto simp: worker_ptr_def)
qed

text \<open>A step of the scheduler.\<close>

lemma schedule_Inr:
  assumes "sched_ok m" "task_ptr m t" "schedule t m = Inr (fd, m')"
  obtains (nobody) l where "fd = - 1" "m' = m\<lparr>task_list := l\<rparr>"
      "vlist l = vlist (task_list m) @ [t]" "tasks_ok m l"
  | (chosen) b w l where "fd = worker_fd w" "m' = put_worker b (w\<lparr>tasks := l\<rparr>) m"
      "b \<in> set (vlist (worker_list m))" "runs m b w" "vlist l = vlist (tasks w) @ [t]"
      "tasks_ok m l"
proof -
  let ?m = "m\<lparr>mutex := True\<rparr>"
  note ok = sched_okD[OF assms(1)]
  obtain b where b:
    "schedule_loop ?m 0 (vector_size (worker_list m)) (Num 100000000) NULL = Inr b"
    "(b = NULL \<and> (\<forall>p\<in>set (vlist (worker_list m)). \<forall>w. runs m p w \<longrightarrow> \<not> load_factor w < Num 100000000))
     \<or> (\<exists>w. b \<in> set (vlist (worker_list m)) \<and> runs m b w \<and> load_factor w < Num 100000000
          \<and> (\<forall>p\<in>set (vlist (worker_list m)). \<forall>v. runs m p v \<longrightarrow> \<not> load_factor v < load_factor w))"
    using assms(1) by (rule schedule_choice)
  note run = assms(3)[unfolded schedule_def lock_free[OF ok(3)] bindr_Inr]
  have unlock: "unlock_mutex (?m\<lparr>task_list := l\<rparr>) = m\<lparr>task_list := l\<rparr>"
    "unlock_mutex (put_worker p w ?m) = put_worker p w m" for l p w
    using ok(3) by (cases m; simp add: unlock_mutex_def put_worker_def)+
  have pushed: "tasks_ok m l \<and> vlist l = vlist v @ [t]"
    if "ptr_push v t = Inr l" "tasks_ok m v" for v l
    using ptr_push_Inr[OF that(1)] that(2) assms(2) by (auto simp: tasks_ok_def)
  show thesis
  proof (cases "b = NULL")
    case True
    then obtain l where "ptr_push (task_list m) t = Inr l" "fd = - 1" "m' = m\<lparr>task_list := l\<rparr>"
      using run b(1) unlock by (auto simp: bindr_eq_Inr)
    with pushed[OF this(1) ok(2)] show thesis by (intro nobody) auto
  next
    case False
    with b(2) obtain w where w: "b \<in> set (vlist (worker_list m))" "runs m b w" by blast
    then have bw: "m_workers m b = Some w" "tasks_ok m (tasks w)"
      using ok(4)[OF w(1)] by (auto simp: runs_def worker_ptr_def)
    obtain l where "ptr_push (tasks w) t = Inr l" "fd = worker_fd w"
      "m' = put_worker b (w\<lparr>tasks := l\<rparr>) m"
      using run b(1) unlock False bw(1) by (auto simp: bindr_eq_Inr get_worker_def)
    with pushed[OF this(1) bw(2)] w show thesis by (intro chosen) auto
  qed
qed

text \<open>No descriptor is closed.\<close>

definition opens :: "osys \<Rightarrow> osys \<Rightarrow> bool" where
  "opens os os' \<longleftrightarrow> (\<forall>fd. fds os fd \<noteq> None \<longrightarrow> fds os' fd \<noteq> None)"

lemma opens_refl [simp]: "opens os os"
  by (simp add: opens_def)

lemma opens_trans: "opens os os1 \<Longrightarrow> opens os1 os' \<Longrightarrow> opens os os'"
  by (simp add: opens_def)

lemma opens_read: "sys_read os fd n = (r, os') \<Longrightarrow> opens os os'"
  by (auto simp: opens_def sys_read_def Let_def
      split: option.splits fd_kind.splits list.splits arrival.splits prod.splits if_splits)

lemma opens_write_all: "write_all_to_socket os fd bs = (r, os') \<Longrightarrow> opens os os'"
  using write_all_frame[of os fd bs 0 r os'] unfolding opens_def write_all_to_socket_def by metis

lemma opens_open: "sys_open_trunc os f = (fd, os') \<Longrightarrow> opens os os'"
  by (auto simp: opens_def sys_open_trunc_def split: if_splits)

text \<open>Where a call leaves the workers' identity alone.\<close>

definition same_shape :: "mstate \<Rightarrow> mstate \<Rightarrow> bool" where
  "same_shape m m' \<longleftrightarrow> dom (m_workers m') = dom (m_workers m) \<and> worker_list m' = worker_list m
     \<and> (\<forall>p w w'. m_workers m p = Some w \<longrightarrow> m_workers m' p = Some w' \<longrightarrow>
          worker_fd w' = worker_fd w)
     \<and> interface m' = interface m \<and> interface_fd m' = interface_fd m
     \<and> opens (m_os m) (m_os m')"

lemma same_shape_refl [simp]: "same_shape m m"
  by (simp add: same_shape_def)

lemma master_ok_task_list:
  assumes "master_ok m" "tasks_ok m l"
  shows "master_ok (m\<lparr>task_list := l\<rparr>)"
proof -
  have w: "worker_is (m\<lparr>task_list := l\<rparr>) q p = worker_is m q p" for q p
    by (rule worker_is_frame) simp
  have p: "worker_ptr (m\<lparr>task_list := l\<rparr>) p = worker_ptr m p" for p
    by (rule worker_ptr_frame) simp_all
  show ?thesis using assms sched_ok_task_list[OF master_okD(1)[OF assms(1)] assms(2)]
    by (simp add: master_ok_def iface_ok_def fresh_ok_def w p)
qed

lemma schedule_master_ok:
  assumes "master_ok m" "task_ptr m t" "schedule t m = Inr (fd, m')"
  shows "master_ok m'" "same_shape m m'" "m_os m' = m_os m" "m_tasks m' = m_tasks m"
    "next_ptr m' = next_ptr m"
proof -
  from master_okD(1)[OF assms(1)] assms(2,3)
  have "master_ok m' \<and> same_shape m m' \<and> m_os m' = m_os m \<and> m_tasks m' = m_tasks m
    \<and> next_ptr m' = next_ptr m"
  proof (cases rule: schedule_Inr)
    case (nobody l)
    then show ?thesis using assms(1) by (simp add: master_ok_task_list same_shape_def)
  next
    case (chosen b w l)
    then have b: "m_workers m b = Some w" "alive w \<noteq> 0" by (simp_all add: runs_def)
    then have "master_ok m'"
      unfolding chosen(2) using chosen(3,6) assms(1) by (intro master_ok_put[OF assms(1) b(1)]) auto
    then show ?thesis using b chosen(2) by (auto simp: same_shape_def)
  qed
  then show "master_ok m'" "same_shape m m'" "m_os m' = m_os m" "m_tasks m' = m_tasks m"
    "next_ptr m' = next_ptr m" by simp_all
qed

lemma remove_task_master_ok:
  assumes "master_ok m" "scheduler_remove_task fd f m = Inr m'"
  shows "master_ok m'" "same_shape m m'" "m_os m' = m_os m"
proof -
  have "master_ok m' \<and> same_shape m m' \<and> m_os m' = m_os m"
  proof (cases "List.find (worker_is m (\<lambda>w. worker_fd w = fd)) (vlist (worker_list m))")
    case None
    then show ?thesis
      using scheduler_remove_task_ok[OF master_okD(1)[OF assms(1)], of fd f] assms by simp
  next
    case (Some p)
    with scheduler_remove_task_ok[OF master_okD(1)[OF assms(1)], of fd f] assms(2)
    obtain w l where r: "m_workers m p = Some w" "p \<in> set (vlist (worker_list m))"
      "m' = put_worker p (w\<lparr>tasks := l\<rparr>) m" "tasks_ok m l" by auto
    then have "master_ok m'" unfolding r(3)
      by (intro master_ok_put[OF assms(1) r(1)]) auto
    then show ?thesis using r(1,3) by (auto simp: same_shape_def)
  qed
  then show "master_ok m'" "same_shape m m'" "m_os m' = m_os m" by simp_all
qed

lemma fresh_task:
  assumes "fresh_ok m"
  shows "m_tasks m (next_ptr m) = None" "m_workers m (next_ptr m) = None" "next_ptr m \<noteq> NULL"
  using assms by (auto simp: fresh_ok_def)

lemma alloc_task_ok:
  assumes "master_ok m" "alloc_task t m = (p, m')"
  shows "master_ok m'" "task_ptr m' p" "same_shape m m'" "m_os m' = m_os m"
    "m_workers m' = m_workers m"
proof -
  have m': "p = next_ptr m" "m' = m\<lparr>next_ptr := next_ptr m + 1, m_tasks := (m_tasks m)(p \<mapsto> t)\<rparr>"
    using assms(2) by (auto simp: alloc_task_def put_task_def)
  note fresh = fresh_task[OF master_okD(3)[OF assms(1)]]
  have t: "task_ptr m' x" if "task_ptr m x" for x
    using that m' by (auto simp: task_ptr_def)
  then have v: "tasks_ok m' v" if "tasks_ok m v" for v
    using that by (auto simp: tasks_ok_def)
  have w: "worker_ptr m' x" if "worker_ptr m x" for x
    using that v m'(2) by (auto simp: worker_ptr_def)
  have i: "worker_is m' q x = worker_is m q x" for q x
    using m'(2) by (intro worker_is_frame) simp
  show "master_ok m'"
    using assms(1) v w m' unfolding master_ok_def sched_ok_def iface_ok_def fresh_ok_def i by auto
  show "task_ptr m' p" using m' fresh(3) by (simp add: task_ptr_def)
  show "same_shape m m'" "m_os m' = m_os m" "m_workers m' = m_workers m"
    using m'(2) by (simp_all add: same_shape_def)
qed

section \<open>The readers\<close>

definition keeps :: "worker \<Rightarrow> worker \<Rightarrow> bool" where
  "keeps w w' \<longleftrightarrow> tasks w' = tasks w \<and> worker_fd w' = worker_fd w \<and> alive w' = alive w
     \<and> IP w' = IP w \<and> CPU_usage w' = CPU_usage w \<and> status w' = status w
     \<and> last_beat_received w' = last_beat_received w"

lemma keeps_refl [simp]: "keeps w w"
  by (simp add: keeps_def)

lemma keeps_trans: "keeps w w1 \<Longrightarrow> keeps w1 w' \<Longrightarrow> keeps w w'"
  by (simp add: keeps_def)

definition tame :: "worker \<times> osys \<Rightarrow> worker \<times> osys \<Rightarrow> bool" where
  "tame = (\<lambda>(w, os) (w', os'). keeps w w' \<and> opens os os')"

lemma tame_refl [simp]: "tame x x"
  by (simp add: tame_def split_beta)

lemma tame_trans: "tame x y \<Longrightarrow> tame y z \<Longrightarrow> tame x z"
  unfolding tame_def using keeps_trans opens_trans by (fastforce simp: split_beta)

lemma tame_os: "opens os os' \<Longrightarrow> tame (w, os) (w, os')"
  by (simp add: tame_def)

lemma tame_worker: "keeps w w' \<Longrightarrow> opens os os' \<Longrightarrow> tame (w, os) (w', os')"
  by (simp add: tame_def)

lemma get_command_loop_tame:
  "get_command_loop w os = Inr (c, w', os') \<Longrightarrow> tame (w, os) (w', os')"
proof (induction w os rule: get_command_loop.induct)
  case (1 w os)
  obtain q os1 where q: "sys_read os (worker_fd w) 1 = (q, os1)" by fastforce
  note now = "1.prems"[unfolded get_command_loop.simps[of w os] q]
  note o = opens_read[OF q]
  show ?case
  proof (cases q)
    case (RData bs)
    show ?thesis
    proof (cases bs)
      case (Cons b bs')
      let ?w = "store_byte w b"
      have k: "tame (w, os) (?w, os1)"
        by (rule tame_worker[OF _ o]) (simp add: keeps_def store_byte_def)
      show ?thesis
      proof (cases "b = NEWLINE \<or> 1025 < command_size ?w")
        case True
        then show ?thesis using now RData Cons tame_os[OF o] k
          by (auto simp: store_byte_def split: if_splits)
      next
        case False
        then have stop: "b \<noteq> NEWLINE" "command_size w < length (command w)"
          "\<not> 1025 < command_size ?w" "get_command_loop ?w os1 = Inr (c, w', os')"
          using now RData Cons by (auto simp: store_byte_def split: if_splits)
        from "1.IH"(1)[OF q[symmetric] RData Cons stop(1,2) store_byte_def stop(3,4)] k
        show ?thesis by (rule tame_trans[rotated])
      qed
    qed (use now RData tame_os[OF o] in auto)
  next
    case (RErr e)
    then show ?thesis using now "1.IH"(2)[OF q[symmetric] RErr] tame_os[OF o]
      by (auto intro: tame_trans split: if_splits)
  qed (use now in auto)
qed

lemma parse_header_tame: "parse_header w os = Inr (c, w', os') \<Longrightarrow> tame (w, os) (w', os')"
  by (auto simp: parse_header_def bindr_eq_Inr tame_def keeps_def Let_def split: if_splits)

lemma get_command_tame:
  assumes "get_command w os = Inr (c, w', os')"
  shows "tame (w, os) (w', os')"
proof -
  obtain r w1 os1 where l: "get_command_loop w os = Inr (r, w1, os1)"
    using assms by (auto simp: get_command_def bindr_eq_Inr)
  note k = get_command_loop_tame[OF l]
  show ?thesis
  proof (cases r)
    case None
    then have "parse_header w1 os1 = Inr (c, w', os')" using assms l by (simp add: get_command_def)
    with k show ?thesis using parse_header_tame tame_trans by blast
  next
    case (Some code)
    then show ?thesis using assms l k by (simp add: get_command_def)
  qed
qed

lemma get_size_tame: "get_size w os = Inr (c, w', os') \<Longrightarrow> tame (w, os) (w', os')"
proof (induction w os rule: get_size.induct)
  case (1 w os)
  obtain q os1 where q: "sys_read os (worker_fd w) 1 = (q, os1)" by fastforce
  note now = "1.prems"[unfolded get_size.simps[of w os] q]
  note o = opens_read[OF q]
  show ?case
  proof (cases q)
    case (RData bs)
    show ?thesis
    proof (cases bs)
      case (Cons b bs')
      let ?w = "w\<lparr>file_size := set_size_byte (size_buffer_pos w) b (file_size w),
                  size_buffer_pos := size_buffer_pos w + 1\<rparr>"
      have k: "tame (w, os) (?w, os1)" by (rule tame_worker[OF _ o]) (simp add: keeps_def)
      have p: "size_buffer_pos w < 8" using now RData Cons by (auto split: if_splits)
      show ?thesis
      proof (cases "size_buffer_pos ?w = 8")
        case True
        then show ?thesis using now RData Cons p k by auto
      next
        case False
        then have "get_size ?w os1 = Inr (c, w', os')" using now RData Cons p by (simp add: Let_def)
        from "1.IH"(1)[OF q[symmetric] RData Cons p refl False this] k
        show ?thesis by (rule tame_trans[rotated])
      qed
    qed (use now RData tame_os[OF o] in auto)
  next
    case (RErr e)
    then show ?thesis using now "1.IH"(2)[OF q[symmetric] RErr] tame_os[OF o]
      by (auto intro: tame_trans split: if_splits)
  qed (use now in auto)
qed

lemma receive_loop_tame: "receive_loop w os = Inr (c, w', os') \<Longrightarrow> tame (w, os) (w', os')"
proof (induction w os rule: receive_loop.induct)
  case (1 w os)
  show ?case
  proof (cases "0 < file_size w")
    case True
    obtain q os1 where q: "sys_read os (worker_fd w) (block_size (file_size w)) = (q, os1)"
      by fastforce
    note now = "1.prems"[unfolded receive_loop.simps[of w os] q if_P[OF True]]
    note o = opens_read[OF q]
    show ?thesis
    proof (cases q)
      case (RData bs)
      show ?thesis
      proof (cases "bs = []")
        case ne: False
        obtain k os2 where s: "write_all_to_socket os1 (temp_fd w) bs = (k, os2)" by fastforce
        have o2: "opens os os2" using o opens_write_all[OF s] by (rule opens_trans)
        let ?w = "w\<lparr>file_size := file_size w - of_nat (length bs)\<rparr>"
        show ?thesis
        proof (cases "k = - 1 \<or> k = 0")
          case True
          then show ?thesis using now RData ne s tame_os[OF o2] by auto
        next
          case False
          then have "receive_loop ?w os2 = Inr (c, w', os')" using now RData ne s by simp
          moreover have "tame (w, os) (?w, os2)"
            by (rule tame_worker[OF _ o2]) (simp add: keeps_def)
          ultimately show ?thesis
            using "1.IH"(1)[OF True q[symmetric] RData ne s[symmetric] refl False] tame_trans
            by blast
        qed
      qed (use now RData tame_os[OF o] in auto)
    next
      case (RErr e)
      then show ?thesis using now "1.IH"(2)[OF True q[symmetric] RErr] tame_os[OF o]
        by (auto intro: tame_trans split: if_splits)
    qed (use now in auto)
  next
    case False
    then show ?thesis using "1.prems" by (simp add: receive_loop.simps[of w])
  qed
qed

lemma get_binary_data_tame:
  assumes "get_binary_data w os = Inr (c, w', os')"
  shows "tame (w, os) (w', os')"
proof (cases "temp_fd w = - 1")
  case True
  then obtain name where name: "temp_file_name w = Some name"
    using assms by (cases "temp_file_name w") (auto simp: get_binary_data_def)
  obtain fd os1 where o: "sys_open_trunc os name = (fd, os1)" by fastforce
  have "receive_loop (w\<lparr>temp_fd := fd\<rparr>) os1 = Inr (c, w', os')"
    using assms True name o by (simp add: get_binary_data_def open_with_all_permission_def)
  moreover have "tame (w, os) (w\<lparr>temp_fd := fd\<rparr>, os1)"
    by (rule tame_worker[OF _ opens_open[OF o]]) (simp add: keeps_def)
  ultimately show ?thesis using receive_loop_tame tame_trans by blast
next
  case False
  then show ?thesis using assms receive_loop_tame by (simp add: get_binary_data_def)
qed

lemma m_read_ok:
  assumes "m_read reader p m = Inr (c, m')" "master_ok m"
    "\<And>w os c w' os'. reader w os = Inr (c, w', os') \<Longrightarrow> tame (w, os) (w', os')"
  obtains w w' os where "m' = put_worker p w' (m\<lparr>m_os := os\<rparr>)" "get_worker m p = Inr w"
    "keeps w w'" "master_ok m'" "same_shape m m'" "reader w (m_os m) = Inr (c, w', os)"
    "get_worker m' p = Inr w'"
proof -
  obtain w w' os where r: "get_worker m p = Inr w" "reader w (m_os m) = Inr (c, w', os)"
    "m' = put_worker p w' (m\<lparr>m_os := os\<rparr>)"
    using assms(1) by (auto simp: m_read_def bindr_eq_Inr)
  have k: "keeps w w'" "opens (m_os m) os" using assms(3)[OF r(2)] by (simp_all add: tame_def)
  note w = master_ok_worker[OF assms(2) r(1)]
  have f: "tasks_ok (m\<lparr>m_os := os\<rparr>) v = tasks_ok m v" for v by (rule tasks_ok_frame) simp
  have "master_ok m'" unfolding r(3)
    using assms(2) w k by (intro master_ok_put[where w = w]) (simp_all add: f keeps_def)
  moreover have "same_shape m m'" using w(1) k r(3) by (auto simp: same_shape_def keeps_def)
  moreover have "get_worker m' p = Inr w'" using r(3) w(3) by (simp add: get_worker_def)
  ultimately show thesis using that r k by blast
qed

section \<open>The blocks of the handler\<close>

fun flow_state :: "flow \<Rightarrow> mstate" where
  "flow_state (Return m) = m"
| "flow_state (Go_on m) = m"

lemma master_ok_update:
  assumes "master_ok m" "get_worker m p = Inr w" "tasks w' = tasks w" "worker_fd w' = worker_fd w"
    "alive w' = 0 \<or> alive w' = alive w"
  shows "master_ok (put_worker p w' m)"
  using master_ok_worker[OF assms(1,2)] assms by (intro master_ok_put[where w = w]) auto

lemma become_interface_ok:
  assumes "master_ok m" "become_interface e_fd p m = Inr m'" "interface_fd m = - 1"
    "List.find (worker_is m (\<lambda>w. worker_fd w = e_fd)) (vlist (worker_list m)) = Some p"
  shows "master_ok m'"
proof -
  note ok = master_okD[OF assms(1)]
  obtain w where w: "get_worker m p = Inr w" "m_workers m p = Some w" "p \<noteq> NULL" "worker_fd w = e_fd"
    "p \<in> set (vlist (worker_list m))"
    using worker_found[OF ok(1) assms(4)] by metis
  let ?q = "worker_is m (\<lambda>w. worker_fd w = e_fd)" and ?l = "vlist (worker_list m)"
  let ?m = "m\<lparr>interface_fd := worker_fd w, interface := p, mutex := True\<rparr>"
  have eq: "worker_list ?m = worker_list m" "m_workers ?m = m_workers m" "m_tasks ?m = m_tasks m"
    by simp_all
  have "find_worker_pos ?m e_fd = find_worker_pos m e_fd"
    unfolding find_worker_pos_def get_worker_def eq ..
  moreover have "\<exists>p\<in>set ?l. ?q p" using w by (intro bexI[of _ p]) (auto simp: worker_is_def)
  ultimately have pos: "find_worker_pos ?m e_fd = Inr (int (length (takeWhile (\<lambda>p. \<not> ?q p) ?l)))"
    using find_worker_pos_ok[OF ok(1)] by simp
  obtain l where l: "ptr_erase (worker_list m) (of_nat (length (takeWhile (\<lambda>p. \<not> ?q p) ?l))) = Inr l"
    "ptr_vector_ok l" "vlist l = remove_first ?q ?l"
    using ptrs.erase_found[OF sched_okD(1)[OF ok(1)] assms(4)] by blast
  have m': "m' = unlock_mutex (?m\<lparr>worker_list := l\<rparr>)"
    using assms(2) w(1) pos l(1) ok(4)
    by (simp add: become_interface_def lock_mutex_def)
  have d: "distinct ?l" using ok(2) by (simp add: iface_ok_def)
  obtain ys zs where s: "?l = ys @ p # zs" "remove_first ?q ?l = ys @ zs"
    using assms(4) by (rule find_split)
  have out: "p \<notin> set (vlist l)" "distinct (vlist l)" "set (vlist l) \<subseteq> set ?l"
    using d s l(3) by auto
  have same: "m_workers m' = m_workers m" "m_tasks m' = m_tasks m" using m' by simp_all
  note ptr = worker_ptr_frame[OF same] and wis = worker_is_frame[OF same(1)]
  note tasks = tasks_ok_frame[OF same(2)]
  have "sched_ok m'"
    using ok(1) l(2) out(3) m' unfolding sched_ok_def ptr tasks by auto
  moreover have "iface_ok m'"
    using ok(2) out w iface_ok_worker[OF ok(2) w(2)] m'
    unfolding iface_ok_def ptr wis same by (auto simp: worker_is_def)
  moreover have "fresh_ok m'" using ok(3) m' same by (simp add: fresh_ok_def)
  ultimately show ?thesis by (simp add: master_ok_def)
qed

section \<open>Forwarding\<close>

lemma opens_seek: "opens os (seek_start os fd)"
  by (auto simp: opens_def seek_start_def split: option.splits fd_kind.splits)

lemma opens_put_loop: "put_loop os src dst left = Inr (r, os') \<Longrightarrow> opens os os'"
proof (induction os src dst left rule: put_loop.induct)
  case (1 os src dst left)
  show ?case
  proof (cases "left = 0")
    case True
    then show ?thesis using "1.prems" by (simp add: put_loop.simps[of os])
  next
    case False
    obtain q os1 where q: "sys_read os src (block_size left) = (q, os1)" by fastforce
    note now = "1.prems"[unfolded put_loop.simps[of os] q if_P[OF False]]
    note o = opens_read[OF q]
    show ?thesis
    proof (cases q)
      case (RData bs)
      show ?thesis
      proof (cases "bs = []")
        case ne: False
        obtain k os2 where s: "write_all_to_socket os1 dst bs = (k, os2)" by fastforce
        have o2: "opens os os2" using o opens_write_all[OF s] by (rule opens_trans)
        show ?thesis
        proof (cases "k = - 1 \<or> k = 0 \<or> k \<noteq> int (length bs)")
          case True
          then show ?thesis using now RData ne s o2 by auto
        next
          case ok: False
          then have "put_loop os2 src dst (left - of_nat (length bs)) = Inr (r, os')"
            using now RData ne s by simp
          from "1.IH"(1)[OF False q[symmetric] RData ne s[symmetric] refl ok this] o2
          show ?thesis by (rule opens_trans[rotated])
        qed
      qed (use now RData o in auto)
    next
      case (RErr e)
      then show ?thesis using now "1.IH"(2)[OF False q[symmetric] RErr] o
        by (auto intro: opens_trans split: if_splits)
    qed (use now in auto)
  qed
qed

lemma opens_do_put:
  assumes "do_put fd w (mu, os) = Inr (r, mu', os')"
  shows "opens os os'"
proof -
  obtain name where name: "temp_file_name w = Some name"
    using assms by (cases "temp_file_name w") (auto simp: do_put_def split: if_splits)
  obtain r1 os1 where w1: "write_all_to_socket os fd (put_header name) = (r1, os1)" by fastforce
  obtain r2 os2 where w2:
    "write_all_to_socket os1 fd (size_bytes (get_file_size os name)) = (r2, os2)" by fastforce
  note o1 = opens_write_all[OF w1]
  note o2 = opens_trans[OF o1 opens_write_all[OF w2]]
  note o3 = opens_trans[OF o2 opens_seek]
  show ?thesis
    using assms name w1 w2 o1 o2 opens_trans[OF o3 opens_put_loop]
    by (auto simp: do_put_def Let_def bindr_eq_Inr split: if_splits)
qed

lemma m_do_put_ok:
  assumes "m_do_put fd w m = Inr (r, m')" "master_ok m"
  shows "master_ok m'" "same_shape m m'" "m_workers m' = m_workers m"
proof -
  obtain mu os where d: "do_put fd w (mutex m, m_os m) = Inr (r, mu, os)"
    "m' = m\<lparr>mutex := mu, m_os := os\<rparr>"
    using assms(1) by (auto simp: m_do_put_def bindr_eq_Inr)
  have "m' = m\<lparr>m_os := os\<rparr>" using do_put_unlocked[OF d(1)] d(2) by (cases m) simp
  then show "master_ok m'" "same_shape m m'" "m_workers m' = m_workers m"
    using assms(2) opens_do_put[OF d(1)] by (simp_all add: same_shape_def)
qed

lemma reset_worker_tame:
  "reset_worker_for_parsing w os = (w', os') \<Longrightarrow> tasks w' = tasks w \<and> worker_fd w' = worker_fd w
    \<and> alive w' = alive w \<and> os' = os"
  by (auto simp: reset_worker_for_parsing_def Let_def)

lemma same_shape_trans: "same_shape m m1 \<Longrightarrow> same_shape m1 m' \<Longrightarrow> same_shape m m'"
  by (simp add: same_shape_def) (metis domD domI opens_trans)

lemma same_shape_put:
  "get_worker m p = Inr w \<Longrightarrow> worker_fd w' = worker_fd w \<Longrightarrow> same_shape m (put_worker p w' m)"
  by (auto simp: same_shape_def get_worker_def deref_Inr)

lemma master_put:
  assumes "master_ok m" "get_worker m p = Inr w" "tasks w' = tasks w" "worker_fd w' = worker_fd w"
    "alive w' = 0 \<or> alive w' = alive w"
  shows "master_ok (put_worker p w' m) \<and> same_shape m (put_worker p w' m)"
  using master_ok_update[OF assms] same_shape_put[OF assms(2,4)] by simp

lemma handle_need_size_ok:
  assumes "handle_need_size p m = Inr x" "master_ok m"
  shows "master_ok (flow_state x) \<and> same_shape m (flow_state x)"
proof -
  obtain w0 where w0: "get_worker m p = Inr w0"
    using assms(1) by (auto simp: handle_need_size_def bindr_eq_Inr)
  show ?thesis
  proof (cases "status w0 = NEED_SIZE")
    case False
    then show ?thesis using assms w0 by (auto simp: handle_need_size_def)
  next
    case True
    obtain c m1 where r: "m_read get_size p m = Inr (c, m1)"
      using assms(1) w0 True by (auto simp: handle_need_size_def bindr_eq_Inr)
    from r assms(2) get_size_tame obtain w w' os where m1: "master_ok m1" "same_shape m m1"
      "get_worker m1 p = Inr w'" by (rule m_read_ok)
    show ?thesis
      using assms(1) w0 True r m1 master_put[OF m1(1,3),
          of "w'\<lparr>alive := (if file_size w' = 0 then 0 else alive w'), status := RECIEVING_DATA\<rparr>"]
      by (auto simp: handle_need_size_def intro: same_shape_trans split: if_splits)
  qed
qed

lemma handle_recieving_ok:
  assumes "handle_recieving p m = Inr x" "master_ok m"
  shows "master_ok (flow_state x) \<and> same_shape m (flow_state x)"
proof -
  obtain w0 where w0: "get_worker m p = Inr w0"
    using assms(1) by (auto simp: handle_recieving_def bindr_eq_Inr)
  show ?thesis
  proof (cases "status w0 = RECIEVING_DATA")
    case False
    then show ?thesis using assms w0 by (auto simp: handle_recieving_def)
  next
    case True
    obtain c m1 where r: "m_read get_binary_data p m = Inr (c, m1)"
      using assms(1) w0 True by (auto simp: handle_recieving_def bindr_eq_Inr)
    from r assms(2) get_binary_data_tame obtain w w' os where m1: "master_ok m1"
      "same_shape m m1" "get_worker m1 p = Inr w'" by (rule m_read_ok)
    show ?thesis
      using assms(1) w0 True r m1 master_put[OF m1(1,3), of "w'\<lparr>status := FORWARD_DATA\<rparr>"]
      by (auto simp: handle_recieving_def intro: same_shape_trans split: if_splits)
  qed
qed

lemma handle_forward_ok:
  assumes "handle_forward e_fd p m = Inr x" "master_ok m"
  shows "master_ok (flow_state x) \<and> same_shape m (flow_state x)"
proof -
  obtain w0 where w0: "get_worker m p = Inr w0"
    using assms(1) by (auto simp: handle_forward_def bindr_eq_Inr)
  consider (other) "status w0 \<noteq> FORWARD_DATA"
    | (interface) "status w0 = FORWARD_DATA" "e_fd = interface_fd m"
    | (worker) "status w0 = FORWARD_DATA" "e_fd \<noteq> interface_fd m" by blast
  then show ?thesis
  proof cases
    case other
    then show ?thesis using assms w0 by (auto simp: handle_forward_def)
  next
    case interface
    obtain t where t: "make_task w0 = Inr t"
      using assms(1) w0 interface by (auto simp: handle_forward_def bindr_eq_Inr)
    obtain q m1 where a: "alloc_task t m = (q, m1)" by fastforce
    note m1 = alloc_task_ok[OF assms(2) a]
    obtain fd m2 where s: "schedule q m1 = Inr (fd, m2)"
      using assms(1) w0 interface t a by (auto simp: handle_forward_def bindr_eq_Inr)
    note m2 = schedule_master_ok[OF m1(1,2) s]
    obtain w where w: "get_worker m2 p = Inr w"
      "x = Go_on (put_worker p (w\<lparr>fd_to_send_to := fd, status := FORWARDING_DATA\<rparr>) m2)"
      using assms(1) w0 interface t a s by (auto simp: handle_forward_def bindr_eq_Inr)
    show ?thesis
      using master_put[OF m2(1) w(1), of "w\<lparr>fd_to_send_to := fd, status := FORWARDING_DATA\<rparr>"]
        same_shape_trans[OF same_shape_trans[OF m1(3) m2(2)]] w(2) by simp
  next
    case worker
    show ?thesis
    proof (cases "alive w0 = 0")
      case True
      then show ?thesis using assms w0 worker by (auto simp: handle_forward_def)
    next
      case False
      obtain name m1 where s: "scheduler_remove_task (worker_fd w0) name m = Inr m1"
        "temp_file_name w0 = Some name"
        using assms(1) w0 worker False
        by (auto simp: handle_forward_def bindr_eq_Inr or_fault_Inr)
      note m1 = remove_task_master_ok[OF assms(2) s(1)]
      obtain w where w: "get_worker m1 p = Inr w"
        "x = Go_on (put_worker p (w\<lparr>fd_to_send_to := interface_fd m1, status := FORWARDING_DATA\<rparr>) m1)"
        using assms(1) w0 worker False s by (auto simp: handle_forward_def bindr_eq_Inr)
      show ?thesis
        using master_put[OF m1(1) w(1),
            of "w\<lparr>fd_to_send_to := interface_fd m1, status := FORWARDING_DATA\<rparr>"]
          same_shape_trans[OF m1(2)] w(2) by simp
    qed
  qed
qed

lemma handle_forwarding_ok:
  assumes "handle_forwarding p m = Inr m'" "master_ok m"
  shows "master_ok m' \<and> same_shape m m'"
proof -
  obtain w where w: "get_worker m p = Inr w"
    using assms(1) by (auto simp: handle_forwarding_def bindr_eq_Inr)
  show ?thesis
  proof (cases "status w = FORWARDING_DATA")
    case False
    then show ?thesis using assms w by (auto simp: handle_forwarding_def)
  next
    case True
    obtain r m1 where d: "m_do_put (fd_to_send_to w) w m = Inr (r, m1)"
      using assms(1) w True by (auto simp: handle_forwarding_def bindr_eq_Inr)
    note m1 = m_do_put_ok[OF d assms(2)]
    obtain w' os where rs: "reset_worker_for_parsing w (m_os m1) = (w', os)" by fastforce
    note same = reset_worker_tame[OF rs]
    have "get_worker m1 p = Inr w" using w m1(3) by (simp add: get_worker_def)
    from master_put[OF m1(1) this, of "w'\<lparr>status := START\<rparr>"] same
    have "master_ok (put_worker p (w'\<lparr>status := START\<rparr>) m1)
      \<and> same_shape m1 (put_worker p (w'\<lparr>status := START\<rparr>) m1)" by simp
    moreover have "m' = put_worker p (w'\<lparr>status := START\<rparr>) m1"
      using assms(1) w True d rs same by (cases m1) (auto simp: handle_forwarding_def)
    ultimately show ?thesis using same_shape_trans[OF m1(2)] by simp
  qed
qed

section \<open>The connections\<close>

text \<open>Each listed worker has an open descriptor of its own, and the interface has another.\<close>

definition fd_of :: "mstate \<Rightarrow> ptr \<Rightarrow> int" where
  "fd_of m p = (case m_workers m p of Some w \<Rightarrow> worker_fd w | None \<Rightarrow> - 1)"

definition conn_ok :: "mstate \<Rightarrow> bool" where
  "conn_ok m \<longleftrightarrow> inj_on (fd_of m) (set (vlist (worker_list m)))
     \<and> (\<forall>p\<in>set (vlist (worker_list m)). fds (m_os m) (fd_of m p) \<noteq> None \<and> fd_of m p \<noteq> interface_fd m)
     \<and> (interface_fd m \<noteq> - 1 \<longrightarrow> fds (m_os m) (interface_fd m) \<noteq> None)"

definition master_inv :: "mstate \<Rightarrow> bool" where
  "master_inv m \<longleftrightarrow> master_ok m \<and> conn_ok m"

lemma same_shapeD:
  assumes "same_shape m m'"
  shows "worker_list m' = worker_list m" "interface m' = interface m"
    "interface_fd m' = interface_fd m" "opens (m_os m) (m_os m')"
proof -
  note d = assms[unfolded same_shape_def]
  show "worker_list m' = worker_list m" using d by (elim conjE)
  show "interface m' = interface m" using d by (elim conjE)
  show "interface_fd m' = interface_fd m" using d by (elim conjE)
  show "opens (m_os m) (m_os m')" using d by (elim conjE)
qed

lemma same_shape_worker:
  assumes "same_shape m m'"
  obtains "m_workers m p = None" "m_workers m' p = None"
  | w w' where "m_workers m p = Some w" "m_workers m' p = Some w'" "worker_fd w' = worker_fd w"
proof -
  have d: "dom (m_workers m') = dom (m_workers m)"
    using assms[unfolded same_shape_def] by (elim conjE)
  have f: "\<forall>p w w'. m_workers m p = Some w \<longrightarrow> m_workers m' p = Some w' \<longrightarrow>
      worker_fd w' = worker_fd w"
    using assms[unfolded same_shape_def] by (elim conjE)
  from d have n: "m_workers m' p = None \<longleftrightarrow> m_workers m p = None" by (metis domIff)
  show thesis
  proof (cases "m_workers m p")
    case None
    then show thesis using n that(1) by simp
  next
    case (Some w)
    then obtain w' where w': "m_workers m' p = Some w'" using n by auto
    with f Some have "worker_fd w' = worker_fd w" by blast
    with Some w' show thesis by (rule that(2))
  qed
qed

lemma fd_of_shape: "same_shape m m' \<Longrightarrow> fd_of m' p = fd_of m p"
  by (erule same_shape_worker[where p = p]) (simp_all add: fd_of_def)

lemma conn_ok_shape: "same_shape m m' \<Longrightarrow> conn_ok m \<Longrightarrow> conn_ok m'"
proof -
  assume s: "same_shape m m'" and c: "conn_ok m"
  have "fd_of m' = fd_of m" using fd_of_shape[OF s] by (simp add: fun_eq_iff)
  then show ?thesis using same_shapeD(1-4)[OF s] c by (auto simp: conn_ok_def opens_def)
qed

lemma listed_fd:
  assumes "master_ok m" "p \<in> set (vlist (worker_list m))"
  shows "worker_is m (\<lambda>w. worker_fd w = fd) p \<longleftrightarrow> fd_of m p = fd"
  using sched_okD(4)[OF master_okD(1)[OF assms(1)] assms(2)]
  by (auto simp: worker_is_def fd_of_def worker_ptr_def)

text \<open>The worker an event is for.\<close>

definition in_focus :: "int \<Rightarrow> ptr \<Rightarrow> mstate \<Rightarrow> bool" where
  "in_focus e_fd p m \<longleftrightarrow>
     (case List.find (worker_is m (\<lambda>w. worker_fd w = e_fd)) (vlist (worker_list m)) of
        Some q \<Rightarrow> p = q | None \<Rightarrow> p = interface m)"

lemma worker_is_shape:
  assumes "same_shape m m'"
  shows "worker_is m' (\<lambda>w. worker_fd w = e) = worker_is m (\<lambda>w. worker_fd w = e)"
proof
  fix q show "worker_is m' (\<lambda>w. worker_fd w = e) q = worker_is m (\<lambda>w. worker_fd w = e) q"
    by (rule same_shape_worker[OF assms, of q]) (simp_all add: worker_is_def)
qed

lemma find_shape:
  assumes "same_shape m m'"
  shows "List.find (worker_is m' (\<lambda>w. worker_fd w = e)) (vlist (worker_list m'))
    = List.find (worker_is m (\<lambda>w. worker_fd w = e)) (vlist (worker_list m))"
  unfolding worker_is_shape[OF assms] same_shapeD(1)[OF assms] ..

lemma in_focus_shape:
  assumes "same_shape m m'"
  shows "in_focus e_fd p m' = in_focus e_fd p m"
  unfolding in_focus_def find_shape[OF assms] same_shapeD(2)[OF assms] ..

lemma become_interface_conn:
  assumes "master_ok m" "conn_ok m" "become_interface e_fd p m = Inr m'" "interface_fd m = - 1"
    "List.find (worker_is m (\<lambda>w. worker_fd w = e_fd)) (vlist (worker_list m)) = Some p"
  shows "conn_ok m' \<and> interface_fd m' = e_fd \<and> interface m' = p"
proof -
  note ok = master_okD[OF assms(1)]
  obtain w where w: "get_worker m p = Inr w" "m_workers m p = Some w" "worker_fd w = e_fd"
    "p \<in> set (vlist (worker_list m))"
    using worker_found[OF ok(1) assms(5)] by metis
  have fd: "fd_of m p = e_fd" using w by (simp add: fd_of_def)
  obtain ys zs where s: "vlist (worker_list m) = ys @ p # zs"
    "takeWhile (\<lambda>q. \<not> worker_is m (\<lambda>w. worker_fd w = e_fd) q) (vlist (worker_list m)) = ys"
    using assms(5) by (rule find_split)
  let ?m = "m\<lparr>interface_fd := worker_fd w, interface := p, mutex := True\<rparr>"
  have eq: "worker_list ?m = worker_list m" "m_workers ?m = m_workers m" by simp_all
  have same: "find_worker_pos ?m e_fd = find_worker_pos m e_fd"
    unfolding find_worker_pos_def get_worker_def eq ..
  have "\<exists>p\<in>set (vlist (worker_list m)). worker_is m (\<lambda>w. worker_fd w = e_fd) p"
    using w by (intro bexI[of _ p]) (auto simp: worker_is_def)
  then have pos: "find_worker_pos ?m e_fd = Inr (int (length ys))"
    using find_worker_pos_ok[OF ok(1)] same s(2) by simp
  obtain l where l: "ptr_erase (worker_list m) (of_int (int (length ys))) = Inr l"
    "m' = unlock_mutex (?m\<lparr>worker_list := l\<rparr>)"
    using assms(3) w(1) pos ok(4)
    by (auto simp: become_interface_def lock_mutex_def bindr_eq_Inr)
  have "length ys < unat (vector_size (worker_list m))"
    using ptrs.count[OF sched_okD(1)[OF ok(1)]] s(1) by simp
  then have n: "unat (of_nat (length ys) :: size_t) = length ys"
    using unat_bound[of "vector_size (worker_list m)"] by (intro unat_of_nat_small) linarith
  have "vlist l = ys @ zs"
    using ptrs.erase[OF sched_okD(1)[OF ok(1)] s(1) n] l(1) by auto
  moreover have "fd_of m' = fd_of m" using l(2) by (simp add: fd_of_def fun_eq_iff)
  moreover have "p \<notin> set (ys @ zs)" using ok(2) s(1) by (simp add: iface_ok_def)
  ultimately show ?thesis using assms(2) l(2) s(1) w(3) fd
    by (auto simp: conn_ok_def inj_on_def)
qed

text \<open>The only transitions that change who is listed: a connection becomes the interface, and the
  interface leaves.\<close>

lemma master_inv_shape: "master_inv m \<Longrightarrow> master_ok m' \<and> same_shape m m' \<Longrightarrow> master_inv m'"
  unfolding master_inv_def using conn_ok_shape[of m m'] by blast

text \<open>The ways through the first block.\<close>

lemma start_cases:
  assumes "handle_start e_fd p m = Inr x" "master_ok m"
  obtains (skips) "x = Go_on m"
  | (waits) m1 where "m_read get_command p m = Inr (NOT_DONE_SENDING, m1)" "x = Return m1"
  | (header) m1 w where "m_read get_command p m = Inr (DONE_SENDING, m1)" "get_worker m1 p = Inr w"
      "x = Go_on (put_worker p (w\<lparr>status := NEED_SIZE\<rparr>) m1)"
  | (becomes) m1 w m3 where "m_read get_command p m = Inr (DONE_SENDING, m1)" "get_worker m1 p = Inr w"
      "interface_fd m1 = - 1" "x = Go_on m3"
      "become_interface e_fd p (put_worker p (w\<lparr>status := NEED_SIZE\<rparr>) m1) = Inr m3"
  | (fails) c m1 w where "m_read get_command p m = Inr (c, m1)" "get_worker m1 p = Inr w"
      "x = Go_on (put_worker p (w\<lparr>alive := 0\<rparr>) m1)"
  | (quits) c m1 w where "m_read get_command p m = Inr (c, m1)" "get_worker m1 p = Inr w"
      "e_fd = interface_fd m1" "x = Return ((put_worker p (w\<lparr>alive := 0\<rparr>) m1)
        \<lparr>m_os := sys_close (m_os m1) (interface_fd m1), interface_fd := - 1\<rparr>)"
proof -
  obtain w0 where w0: "get_worker m p = Inr w0"
    using assms(1) by (auto simp: handle_start_def bindr_eq_Inr)
  show thesis
  proof (cases "status w0 = START")
    case False
    then show thesis using assms(1) w0 skips by (auto simp: handle_start_def)
  next
    case True
    obtain c m1 where r: "m_read get_command p m = Inr (c, m1)"
      using assms(1) w0 True by (auto simp: handle_start_def bindr_eq_Inr)
    from r assms(2) get_command_tame obtain w where w: "get_worker m1 p = Inr w" by (rule m_read_ok)
    note now = assms(1)[unfolded handle_start_def w0 bindr_Inr r w True, simplified]
    consider "c = NOT_DONE_SENDING" | "c = DONE_SENDING" | "c \<noteq> NOT_DONE_SENDING" "c \<noteq> DONE_SENDING" by blast
    then show thesis
    proof cases
      case 1
      then show thesis using now w r waits by auto
    next
      case 2
      then show thesis
        using now w r header[of m1 w] becomes[of m1 w] by (auto simp: bindr_eq_Inr Let_def split: if_splits)
    next
      case 3
      then show thesis
        using now w r fails[of c m1 w] quits[of c m1 w] by (auto simp: Let_def split: if_splits)
    qed
  qed
qed

text \<open>Who is in focus, with and without an interface.\<close>

lemma focus_listed:
  assumes "in_focus e p m" "iface_ok m" "interface_fd m = - 1" "worker_is m (\<lambda>w. alive w \<noteq> 0) p"
    "p \<noteq> NULL"
  shows "List.find (worker_is m (\<lambda>w. worker_fd w = e)) (vlist (worker_list m)) = Some p"
proof -
  have "interface m = NULL \<or> worker_is m (\<lambda>w. alive w = 0) (interface m)"
    using assms(2,3) by (simp add: iface_ok_def)
  then have "p \<noteq> interface m" using assms(4,5) by (auto simp: worker_is_def split: option.splits)
  then show ?thesis using assms(1) by (auto simp: in_focus_def split: option.splits)
qed

lemma focus_interface:
  assumes "in_focus (interface_fd m) p m" "master_inv m"
  shows "p = interface m"
proof -
  have ok: "master_ok m" "conn_ok m" using assms(2) by (simp_all add: master_inv_def)
  have "\<forall>q\<in>set (vlist (worker_list m)). fd_of m q \<noteq> interface_fd m" using ok(2) by (simp add: conn_ok_def)
  then have "List.find (worker_is m (\<lambda>w. worker_fd w = interface_fd m)) (vlist (worker_list m)) = None"
    using listed_fd[OF ok(1)] by (auto simp: find_None_iff)
  then show ?thesis using assms(1) by (simp add: in_focus_def)
qed

text \<open>A dead interface may be closed.\<close>

lemma interface_closed:
  assumes "master_inv m" "worker_is m (\<lambda>w. alive w = 0) (interface m)"
  shows "master_inv (m\<lparr>m_os := sys_close (m_os m) (interface_fd m), interface_fd := - 1\<rparr>)"
proof -
  let ?m' = "m\<lparr>m_os := sys_close (m_os m) (interface_fd m), interface_fd := - 1\<rparr>"
  have ok: "master_ok m" "conn_ok m" using assms(1) by (simp_all add: master_inv_def)
  have frame: "worker_is ?m' q r = worker_is m q r" "worker_ptr ?m' r = worker_ptr m r"
    "tasks_ok ?m' v = tasks_ok m v" "fd_of ?m' r = fd_of m r" for q r v
    using worker_is_frame[of ?m' m] worker_ptr_frame[of ?m' m] tasks_ok_frame[of ?m' m]
    by (simp_all add: fd_of_def)
  have "sched_ok ?m'" using ok(1) by (auto simp: master_ok_def sched_ok_def frame)
  moreover have "iface_ok ?m'" using ok(1) assms(2) unfolding master_ok_def iface_ok_def frame by auto
  moreover have "fresh_ok ?m'" using ok(1) by (simp add: master_ok_def fresh_ok_def)
  moreover have "conn_ok ?m'"
  proof -
    have bad: "fd_of m q \<noteq> - 1" if "q \<in> set (vlist (worker_list m))" for q
      using that sched_okD(4)[OF master_okD(1)[OF ok(1)] that]
        iface_ok_worker(2)[OF master_okD(2)[OF ok(1)]]
      by (auto simp: fd_of_def worker_ptr_def)
    then show ?thesis using ok(2) unfolding conn_ok_def frame
      by (auto simp: sys_close_def inj_on_def frame)
  qed
  ultimately show ?thesis by (simp add: master_inv_def master_ok_def)
qed

lemma handle_start_inv:
  assumes "handle_start e_fd p m = Inr x" "master_inv m" "in_focus e_fd p m"
    "worker_is m (\<lambda>w. alive w \<noteq> 0) p"
  shows "master_inv (flow_state x)"
proof -
  have ok: "master_ok m" "conn_ok m" using assms(2) by (simp_all add: master_inv_def)
  have read: "master_inv m1 \<and> same_shape m m1" if "m_read get_command p m = Inr (c, m1)" for c m1
  proof -
    from that ok(1) get_command_tame obtain "master_ok m1" "same_shape m m1" by (rule m_read_ok)
    then show ?thesis using master_inv_shape[OF assms(2)] by blast
  qed
  have put: "master_inv (put_worker p w' m1) \<and> same_shape m1 (put_worker p w' m1)"
    if "master_inv m1" "get_worker m1 p = Inr w" "tasks w' = tasks w" "worker_fd w' = worker_fd w"
      "alive w' = 0 \<or> alive w' = alive w" for m1 w w'
    using master_put[OF _ that(2-5)] that(1) master_inv_shape[OF that(1)] by (simp add: master_inv_def)
  from assms(1) ok(1) show ?thesis
  proof (cases rule: start_cases)
    case skips
    then show ?thesis using assms(2) by simp
  next
    case (waits m1)
    then show ?thesis using read by simp
  next
    case (header m1 w)
    then show ?thesis using read put[of m1 w "w\<lparr>status := NEED_SIZE\<rparr>"] by simp
  next
    case (becomes m1 w m3)
    let ?m = "put_worker p (w\<lparr>status := NEED_SIZE\<rparr>) m1"
    have m1: "master_inv m1" "same_shape m m1" using read[OF becomes(1)] by blast+
    have m2: "master_inv ?m" "same_shape m ?m"
      using put[OF m1(1) becomes(2)] same_shape_trans[OF m1(2)] by simp_all
    have "interface_fd m = - 1" using m1(2) becomes(3) by (simp add: same_shape_def)
    moreover have "p \<noteq> NULL" using becomes(2) by (simp add: get_worker_def deref_Inr)
    ultimately have "List.find (worker_is m (\<lambda>w. worker_fd w = e_fd)) (vlist (worker_list m)) = Some p"
      using focus_listed[OF assms(3) master_okD(2)[OF ok(1)] _ assms(4)] by blast
    then have "List.find (worker_is ?m (\<lambda>w. worker_fd w = e_fd)) (vlist (worker_list ?m)) = Some p"
      using find_shape[OF m2(2), of e_fd] by (simp only:)
    with m2(1) becomes show ?thesis
      using become_interface_ok[of ?m e_fd p m3] become_interface_conn[of ?m e_fd p m3]
      by (simp add: master_inv_def)
  next
    case (fails c m1 w)
    then show ?thesis using read put[of m1 w "w\<lparr>alive := 0\<rparr>"] by simp
  next
    case (quits c m1 w)
    let ?m = "put_worker p (w\<lparr>alive := 0\<rparr>) m1"
    have m1: "master_inv m1" "same_shape m m1" using read[OF quits(1)] by blast+
    have m2: "master_inv ?m" using put[OF m1(1) quits(2)] by simp
    have "interface_fd m = e_fd" "interface m = interface m1" using m1(2) quits(3) by (simp_all add: same_shape_def)
    then have "p = interface m1" using focus_interface[OF _ assms(2), of p] assms(3) by simp
    then have "worker_is ?m (\<lambda>w. alive w = 0) (interface ?m)" using quits(2)
      by (auto simp: worker_is_def get_worker_def deref_Inr)
    from interface_closed[OF m2 this] show ?thesis using quits(4) by simp
  qed
qed

section \<open>The events\<close>

lemma andthen_Inr:
  "andthen r f = Inr x \<Longrightarrow> (\<exists>m. r = Inr (Return m) \<and> x = Return m) \<or> (\<exists>m. r = Inr (Go_on m) \<and> f m = Inr x)"
  unfolding andthen_def bindr_eq_Inr by (metis flow.exhaust flow.simps(5,6) sum.inject(2))

text \<open>What each block keeps, the handler keeps; the last two may weaken it.\<close>

lemma run_blocks_rule:
  assumes "run_blocks e_fd p m = Inr m'"
    "\<And>x. handle_start e_fd p m = Inr x \<Longrightarrow> Q (flow_state x)"
    "\<And>n x. Q n \<Longrightarrow> handle_need_size p n = Inr x \<Longrightarrow> Q (flow_state x)"
    "\<And>n x. Q n \<Longrightarrow> handle_recieving p n = Inr x \<Longrightarrow> Q (flow_state x)"
    "\<And>n x. Q n \<Longrightarrow> handle_forward e_fd p n = Inr x \<Longrightarrow> R (flow_state x)"
    "\<And>n. Q n \<Longrightarrow> R n" "\<And>n. R n \<Longrightarrow> handle_forwarding p n = Inr m' \<Longrightarrow> R m'"
  shows "R m'"
proof -
  have block: "S (flow_state y)" if "andthen r f = Inr y" "\<And>x. r = Inr x \<Longrightarrow> Q (flow_state x)"
    "\<And>n x. Q n \<Longrightarrow> f n = Inr x \<Longrightarrow> S (flow_state x)" "\<And>n. Q n \<Longrightarrow> S n" for r f y and S
    using andthen_Inr[OF that(1)] that(2-4) by fastforce
  obtain x where x: "andthen (andthen (andthen (handle_start e_fd p m) (handle_need_size p))
      (handle_recieving p)) (handle_forward e_fd p) = Inr x"
    and rest: "(case x of Return m \<Rightarrow> Inr m | Go_on m \<Rightarrow> handle_forwarding p m) = Inr m'"
    using assms(1) by (auto simp: run_blocks_def bindr_eq_Inr)
  have size: "Q (flow_state y)" if "andthen (handle_start e_fd p m) (handle_need_size p) = Inr y" for y
    using block[of _ _ y Q, OF that assms(2,3)] by simp
  have data: "Q (flow_state y)"
    if "andthen (andthen (handle_start e_fd p m) (handle_need_size p)) (handle_recieving p) = Inr y" for y
    using block[of _ _ y Q, OF that size assms(4)] by simp
  have "R (flow_state x)" by (rule block[of _ _ x R, OF x data assms(5,6)])
  then show ?thesis using rest assms(7) by (cases x) auto
qed

lemma run_blocks_inv:
  assumes "run_blocks e_fd p m = Inr m'" "master_inv m" "in_focus e_fd p m"
    "worker_is m (\<lambda>w. alive w \<noteq> 0) p"
  shows "master_inv m'"
  using assms(1)
proof (rule run_blocks_rule[where Q = master_inv])
  fix x assume "handle_start e_fd p m = Inr x"
  then show "master_inv (flow_state x)" using assms(2-4) by (rule handle_start_inv)
next
  fix n x assume "master_inv n" "handle_need_size p n = Inr x"
  then show "master_inv (flow_state x)"
    using handle_need_size_ok master_inv_shape unfolding master_inv_def by blast
next
  fix n x assume "master_inv n" "handle_recieving p n = Inr x"
  then show "master_inv (flow_state x)"
    using handle_recieving_ok master_inv_shape unfolding master_inv_def by blast
next
  fix n x assume "master_inv n" "handle_forward e_fd p n = Inr x"
  then show "master_inv (flow_state x)"
    using handle_forward_ok master_inv_shape unfolding master_inv_def by blast
next
  fix n assume "master_inv n" "handle_forwarding p n = Inr m'"
  then show "master_inv m'"
    using handle_forwarding_ok master_inv_shape unfolding master_inv_def by blast
qed

text \<open>An event is for nobody, for a dead connection, or runs the blocks on the connection it is for.\<close>

lemma handle_data_cases:
  assumes "handle_data e_fd m = Inr m'" "master_inv m"
  obtains "m' = m"
  | p w where "in_focus e_fd p m" "get_worker m p = Inr w" "alive w \<noteq> 0" "run_blocks e_fd p m = Inr m'"
proof -
  have ok: "master_ok m" using assms(2) by (simp add: master_inv_def)
  note sched = master_okD(1)[OF ok]
  let ?q = "worker_is m (\<lambda>w. worker_fd w = e_fd)" and ?l = "vlist (worker_list m)"
  obtain pos where pos: "find_worker_pos m e_fd = Inr pos"
    using find_worker_pos_ok[OF sched] by simp
  obtain p where p: "(if pos = - 1 then Inr (interface m)
      else vector_get (worker_list m) (of_int pos)) = Inr p"
    using assms(1) pos by (auto simp: handle_data_def bindr_eq_Inr)
  have focus: "in_focus e_fd p m"
  proof (cases "List.find ?q ?l")
    case None
    then have "pos = - 1" using pos find_worker_pos_ok[OF sched, of e_fd] by (auto simp: find_None_iff)
    with p None show ?thesis by (simp add: in_focus_def)
  next
    case (Some q)
    then obtain ys zs where s: "?l = ys @ q # zs" "takeWhile (\<lambda>p. \<not> ?q p) ?l = ys" "?q q"
      by (rule find_split)
    then have pos': "pos = int (length ys)"
      using pos find_worker_pos_ok[OF sched, of e_fd] by auto
    have "length ys < unat (vector_size (worker_list m))"
      using ptrs.count[OF sched_okD(1)[OF sched]] s(1) by simp
    then have "unat (of_nat (length ys) :: size_t) = length ys"
      using unat_bound[of "vector_size (worker_list m)"] by (intro unat_of_nat_small) linarith
    then have "vector_get (worker_list m) (of_nat (length ys)) = Inr q"
      using ptrs.get[OF sched_okD(1)[OF sched], of "of_nat (length ys)"] s(1) by simp
    with p pos' Some show ?thesis by (simp add: in_focus_def)
  qed
  note now = assms(1)[unfolded handle_data_def pos bindr_Inr p]
  show thesis
  proof (cases "p = NULL")
    case True
    then show thesis using now that(1) by simp
  next
    case False
    then obtain w where w: "get_worker m p = Inr w" using now by (auto simp: bindr_eq_Inr)
    then show thesis using now False that focus by (cases "alive w = 0") auto
  qed
qed

lemma handle_data_inv:
  assumes "handle_data e_fd m = Inr m'" "master_inv m"
  shows "master_inv m'"
  using assms
proof (cases rule: handle_data_cases)
  case 1
  then show ?thesis using assms(2) by simp
next
  case (2 p w)
  then have "worker_is m (\<lambda>w. alive w \<noteq> 0) p" by (simp add: worker_is_def get_worker_def deref_Inr)
  with 2(4) assms(2) 2(1) show ?thesis by (rule run_blocks_inv)
qed

lemma report_heartbeat_inv:
  assumes "report_heartbeat a u t m = Inr m'" "master_inv m"
  shows "master_inv m'"
proof -
  have ok: "master_ok m" using assms(2) by (simp add: master_inv_def)
  note sched = master_okD(1)[OF ok]
  show ?thesis
  proof (cases "List.find (worker_is m (\<lambda>w. IP w = a)) (vlist (worker_list m))")
    case None
    then show ?thesis using report_heartbeat_ok[OF sched, of a u t] assms by simp
  next
    case (Some p)
    with sched obtain w where w: "m_workers m p = Some w" "tasks_ok m (tasks w)" "p \<noteq> NULL"
      "p \<in> set (vlist (worker_list m))" "get_worker m p = Inr w" by (rule worker_found)
    let ?w = "w\<lparr>CPU_usage := u, last_beat_received := t, alive := (if alive w = 0 then 1 else alive w)\<rparr>"
    have "m' = put_worker p ?w m"
      using report_heartbeat_ok[OF sched, of a u t] assms(1) Some w(1) by simp
    moreover have "master_ok (put_worker p ?w m)"
      using w by (intro master_ok_put[OF ok w(1)]) auto
    moreover have "same_shape m (put_worker p ?w m)" using w(5) by (rule same_shape_put) simp
    ultimately show ?thesis using master_inv_shape[OF assms(2)] by simp
  qed
qed

text \<open>The monitor.\<close>

lemma schedule_m_tasks: "schedule t m = Inr (fd, m') \<Longrightarrow> m_tasks m' = m_tasks m"
  by (auto simp: schedule_def bindr_eq_Inr lock_mutex_def split: if_splits)

lemma resend_loop_ok:
  "resend_loop raw p i n m = Inr m' \<Longrightarrow> master_ok m \<Longrightarrow> master_ok m' \<and> same_shape m m'"
proof (induction raw p i n m rule: resend_loop.induct)
  case (1 raw p i n m)
  show ?case
  proof (cases "i < n")
    case True
    note now = "1.prems"(1)[unfolded resend_loop.simps[of raw p i] if_P[OF True]]
    obtain d where d: "get_worker m p = Inr d" using now by (auto simp: bindr_eq_Inr)
    obtain t where t: "vector_get (tasks d) i = Inr t" using now d by (auto simp: bindr_eq_Inr)
    obtain fd m1 where s: "schedule t m = Inr (fd, m1)" using now d t by (auto simp: bindr_eq_Inr)
    obtain x where x: "get_task m1 t = Inr x" using now d t s by (auto simp: bindr_eq_Inr)
    obtain f os where o: "sys_open_trunc (m_os m1) (file_name x) = (f, os)" by fastforce
    let ?w = "raw\<lparr>temp_file_name := Some (file_name x), temp_fd := f\<rparr>"
    obtain r m2 where r: "m_do_put fd ?w (m1\<lparr>m_os := os\<rparr>) = Inr (r, m2)"
      using now d t s x o by (auto simp: bindr_eq_Inr)
    have rec: "resend_loop raw p (i + 1) n m2 = Inr m'" using now d t s x o r by simp
    have "task_ptr m t"
      using x schedule_m_tasks[OF s] by (auto simp: task_ptr_def get_task_def deref_Inr)
    note m1 = schedule_master_ok[OF "1.prems"(2) this s]
    have o1: "same_shape m1 (m1\<lparr>m_os := os\<rparr>)"
      using opens_open[OF o] by (simp add: same_shape_def)
    have m2: "master_ok m2" "same_shape (m1\<lparr>m_os := os\<rparr>) m2"
      using m_do_put_ok[OF r] m1(1) by simp_all
    have m02: "same_shape m m2"
      using same_shape_trans[OF same_shape_trans[OF m1(2) o1] m2(2)] .
    from "1.IH"[OF True d t s _ x o[symmetric] refl refl r _ rec m2(1)] m02
    show ?thesis using same_shape_trans by blast
  next
    case False
    then show ?thesis using "1.prems" by (simp add: resend_loop.simps[of raw p i])
  qed
qed

lemma ptr_erase_Inr:
  assumes "ptr_erase v i = Inr v'" "ptr_vector_ok v"
  shows "ptr_vector_ok v' \<and> set (vlist v') \<subseteq> set (vlist v)"
proof (cases "unat i < length (vlist v)")
  case True
  then have s: "vlist v = take (unat i) (vlist v) @ vlist v ! unat i # drop (Suc (unat i)) (vlist v)"
    by (simp add: id_take_nth_drop)
  have n: "unat i = length (take (unat i) (vlist v))" using True by simp
  from ptrs.erase[OF assms(2) s n] assms(1)
  have "ptr_vector_ok v'" "vlist v' = take (unat i) (vlist v) @ drop (Suc (unat i)) (vlist v)"
    by auto
  then show ?thesis using set_take_subset set_drop_subset by fastforce
next
  case False
  show ?thesis
  proof (cases "i = v_size v - 1")
    case last: True
    have ok: "vec_ok v" using assms(2) by (simp add: ptr_vector_ok_def)
    have "vlist v = []"
    proof (rule ccontr)
      assume "vlist v \<noteq> []"
      then have "0 < unat (v_size v)" using vec_ok_size[OF ok] by simp
      then have "unat (v_size v - 1) = unat (v_size v) - 1"
        by (subst unat_sub_small) (auto simp: word_le_nat_alt)
      then show False using False last vec_ok_size[OF ok] \<open>0 < unat (v_size v)\<close> by simp
    qed
    then have "v' = v" using assms(1) vector_pop_back_empty[OF ok] last
      by (simp add: ptr_erase_def vector_erase_def)
    then show ?thesis using assms(2) by simp
  next
    case False
    then show ?thesis
      using ptr_erase_past_end[OF assms(2)] assms(1) \<open>\<not> unat i < length (vlist v)\<close> by simp
  qed
qed

lemma tasks_ok_erase: "ptr_erase v i = Inr l \<Longrightarrow> tasks_ok m v \<Longrightarrow> tasks_ok m l"
  using ptr_erase_Inr by (fastforce simp: tasks_ok_def)

lemma erase_loop_ok:
  "erase_loop p i n m = Inr m' \<Longrightarrow> master_ok m \<Longrightarrow> master_ok m' \<and> same_shape m m'"
proof (induction p i n m rule: erase_loop.induct)
  case (1 p i n m)
  show ?case
  proof (cases "i < n")
    case True
    note now = "1.prems"(1)[unfolded erase_loop.simps[of p i] if_P[OF True]]
    obtain d l where d: "get_worker m p = Inr d" "ptr_erase (tasks d) i = Inr l"
      using now by (auto simp: bindr_eq_Inr)
    let ?m = "put_worker p (d\<lparr>tasks := l\<rparr>) m"
    note w = master_ok_worker[OF "1.prems"(2) d(1)]
    have "master_ok ?m"
      using tasks_ok_erase[OF d(2) w(2)] by (intro master_ok_put[OF "1.prems"(2) w(1)]) auto
    moreover have "same_shape m ?m" by (rule same_shape_put[OF d(1)]) simp
    moreover have "erase_loop p (i + 1) n ?m = Inr m'" using now d by simp
    ultimately show ?thesis using "1.IH"[OF True d] same_shape_trans by blast
  next
    case False
    then show ?thesis using "1.prems" by (simp add: erase_loop.simps[of p i])
  qed
qed

lemma reschedule_ok:
  assumes "reschedule raw p m = Inr m'" "master_ok m"
  shows "master_ok m' \<and> same_shape m m'"
proof -
  obtain d :: worker and m1 where d: "resend_loop raw p 0 (vector_size (tasks d)) m = Inr m1"
    "erase_loop p 0 (vector_size (tasks d)) m1 = Inr m'"
    using assms(1) unfolding reschedule_def bindr_eq_Inr Let_def by blast
  from resend_loop_ok[OF d(1) assms(2)] erase_loop_ok[OF d(2)] show ?thesis
    using same_shape_trans by blast
qed

lemma detect_loop_ok:
  "detect_loop raw t i n m = Inr m' \<Longrightarrow> master_ok m \<Longrightarrow> master_ok m' \<and> same_shape m m'"
proof (induction raw t i n m rule: detect_loop.induct)
  case (1 raw t i n m)
  show ?case
  proof (cases "i < n")
    case True
    note now = "1.prems"(1)[unfolded detect_loop.simps[of raw t i] if_P[OF True]]
    obtain p where p: "vector_get (worker_list m) i = Inr p" using now by (auto simp: bindr_eq_Inr)
    have free: "\<not> mutex m" using "1.prems"(2) by (rule master_okD)
    show ?thesis
    proof (cases "p = NULL")
      case null: True
      then show ?thesis using now p "1.IH"(1)[OF True p null] "1.prems"(2) by simp
    next
      case False
      let ?m1 = "m\<lparr>mutex := True\<rparr>"
      have l: "lock_mutex m = Inr ?m1" using free by (rule lock_free)
      have u: "unlock_mutex ?m1 = m" using free by simp
      obtain w where w: "get_worker ?m1 p = Inr w"
        using now p False l by (auto simp: bindr_eq_Inr)
      have w': "get_worker m p = Inr w" using w by (simp add: get_worker_def)
      have e: "(Num 0 < last_beat_received w \<and> alive w = 1 \<and> Num 3 < t - last_beat_received w)
        = expired t w" by (simp only: expired_def)
      note now' = now[unfolded p bindr_Inr if_not_P[OF False] l w Let_def u e]
      show ?thesis
      proof (cases "expired t w")
        case ex: True
        let ?m = "put_worker p (w\<lparr>alive := 0\<rparr>) m"
        obtain m3 where m3: "reschedule raw p ?m = Inr m3" "detect_loop raw t (i + 1) n m3 = Inr m'"
          using now' ex by (auto simp: bindr_eq_Inr)
        have "master_ok ?m \<and> same_shape m ?m" by (rule master_put[OF "1.prems"(2) w']) simp_all
        with reschedule_ok[OF m3(1)] have k: "master_ok m3" "same_shape m m3"
          using same_shape_trans by blast+
        have "master_ok m' \<and> same_shape m3 m'"
          using "1.IH"(2)[OF True p False l w refl refl, unfolded u e, OF ex m3(1,2) k(1)] .
        with k(2) show ?thesis using same_shape_trans by blast
      next
        case fine: False
        have "detect_loop raw t (i + 1) n m = Inr m'" using now' fine by simp
        from "1.IH"(3)[OF True p False l w refl refl, unfolded u e, OF fine this "1.prems"(2)]
        show ?thesis .
      qed
    qed
  next
    case False
    then show ?thesis using "1.prems" by (simp add: detect_loop.simps[of raw t i])
  qed
qed

text \<open>New connections.\<close>

lemma create_worker_Inr:
  assumes "create_worker raw fd ip os = Inr (w, os')"
  shows "worker_fd w = fd \<and> IP w = ip \<and> alive w = 1 \<and> status w = START \<and> CPU_usage w = Num (- 1)
    \<and> ptr_vector_ok (tasks w) \<and> vlist (tasks w) = [] \<and> command_ok w \<and> command_size w = 0
    \<and> size_buffer_pos w = 0 \<and> temp_fd w = - 1 \<and> os' = os"
proof -
  obtain v where v: "ptr_create = Inr v" "ptr_vector_ok v" "vlist v = []" by (rule ptr_create_ok)
  then show ?thesis using assms
    by (auto simp: v(1) create_worker_def reset_worker_for_parsing_def Let_def command_ok_def)
qed

lemma accept_one:
  assumes "master_inv m" "0 \<le> fd" "fds (m_os m) fd = None" "worker_fd w = fd" "tasks_ok m (tasks w)"
    "alloc_worker w (m\<lparr>m_os := open_socket fd (m_os m)\<rparr>) = (p, m1)"
    "ptr_push (worker_list m1) p = Inr l"
  shows "master_inv (m1\<lparr>worker_list := l\<rparr>)"
proof -
  have ok: "master_ok m" "conn_ok m" using assms(1) by (simp_all add: master_inv_def)
  note parts = master_okD[OF ok(1)]
  let ?m' = "m1\<lparr>worker_list := l\<rparr>"
  have p: "p = next_ptr m" and m1: "m1 = m\<lparr>m_os := open_socket fd (m_os m),
      next_ptr := next_ptr m + 1, m_workers := (m_workers m)(p \<mapsto> w)\<rparr>"
    using assms(6) by (auto simp: alloc_worker_def put_worker_def)
  have list: "ptr_vector_ok l" "vlist l = vlist (worker_list m) @ [p]"
    using ptr_push_Inr[OF assms(7)] sched_okD(1)[OF parts(1)] m1 by simp_all
  note fresh = fresh_task[OF parts(3)]
  have mw: "m_workers (m1\<lparr>worker_list := l\<rparr>) = (m_workers m)(p \<mapsto> w)" by (simp add: m1)
  have tasks: "tasks_ok ?m' v = tasks_ok m v" for v by (rule tasks_ok_frame) (simp add: m1)
  have ptr: "worker_ptr ?m' q" if "worker_ptr m q" for q
    using that assms(5) unfolding worker_ptr_def tasks mw by auto
  have new: "worker_ptr ?m' p" using fresh(3) p assms(5) unfolding worker_ptr_def tasks mw by simp
  have wis: "worker_is ?m' q r = (if r = p then q w else worker_is m q r)" for q r
    unfolding worker_is_def mw by simp
  have old: "q \<noteq> p" if "worker_ptr m q" for q using that fresh(2) p by (auto simp: worker_ptr_def)
  have fd: "fd_of ?m' q = (if q = p then fd else fd_of m q)" for q
    using assms(4) unfolding fd_of_def mw by simp
  have "sched_ok ?m'"
    using parts(1) list ptr new unfolding sched_ok_def tasks by (auto simp: m1)
  moreover have "iface_ok ?m'"
  proof -
    have i: "interface m \<noteq> p"
      using parts(2) old fresh(3) p by (auto simp: iface_ok_def)
    have d: "worker_ptr ?m' q \<and> worker_is ?m' (\<lambda>w. worker_fd w \<noteq> - 1) q"
      if "q \<in> dom (m_workers ?m')" for q
    proof (cases "q = p")
      case True
      then show ?thesis using new assms(2,4) by (simp add: wis)
    next
      case False
      then have "q \<in> dom (m_workers m)" using that unfolding mw by (simp add: dom_def)
      then show ?thesis using parts(2) ptr False by (auto simp: iface_ok_def wis)
    qed
    have "p \<notin> set (vlist (worker_list m))" using sched_okD(4)[OF parts(1)] old by blast
    moreover have eq: "interface ?m' = interface m" "interface_fd ?m' = interface_fd m"
      "worker_list ?m' = l" by (simp_all add: m1)
    ultimately show ?thesis using parts(2) i d list(2) ptr
      unfolding iface_ok_def wis eq by (auto split: if_splits)
  qed
  moreover have "fresh_ok ?m'" using parts(3) p by (auto simp: fresh_ok_def m1)
  moreover have "conn_ok ?m'"
  proof -
    have other: "fd_of m q \<noteq> fd" if "q \<in> set (vlist (worker_list m))" for q
      using ok(2) that assms(3) by (auto simp: conn_ok_def)
    have np: "q \<noteq> p" if "q \<in> set (vlist (worker_list m))" for q
      using sched_okD(4)[OF parts(1) that] old by blast
    have inj: "inj_on (fd_of ?m') (set (vlist l))"
      using ok(2) other np by (fastforce simp: list(2) inj_on_def fd conn_ok_def)
    have ifd: "interface_fd m \<noteq> fd" using ok(2) assms(2,3) by (auto simp: conn_ok_def)
    have open_fds: "fds (m_os ?m') x \<noteq> None \<longleftrightarrow> x = fd \<or> fds (m_os m) x \<noteq> None" for x
      by (simp add: m1 open_socket_def)
    have eq: "interface_fd ?m' = interface_fd m" "worker_list ?m' = l" by (simp_all add: m1)
    have "\<forall>q\<in>set (vlist l). fds (m_os ?m') (fd_of ?m' q) \<noteq> None \<and> fd_of ?m' q \<noteq> interface_fd m"
      using ok(2) ifd unfolding open_fds fd list(2) conn_ok_def by auto
    moreover have "interface_fd m \<noteq> - 1 \<longrightarrow> fds (m_os ?m') (interface_fd m) \<noteq> None"
      using ok(2) unfolding open_fds conn_ok_def by blast
    ultimately show ?thesis using inj unfolding conn_ok_def eq by blast
  qed
  ultimately show ?thesis by (simp add: master_inv_def master_ok_def)
qed

lemma accept_connections_inv:
  "accept_connections raw epoll_add pending m = Inr m' \<Longrightarrow> accept_fresh pending (m_os m) \<Longrightarrow>
    master_inv m \<Longrightarrow> master_inv m'"
proof (induction raw epoll_add pending m rule: accept_connections.induct)
  case (3 raw epoll_add new_fd ip rest m)
  obtain w os where c: "create_worker raw new_fd ip (open_socket new_fd (m_os m)) = Inr (w, os)"
    using "3.prems"(1) by (auto simp: bindr_eq_Inr)
  note w = create_worker_Inr[OF c]
  obtain p m1 where a: "alloc_worker w (m\<lparr>m_os := os\<rparr>) = (p, m1)" by fastforce
  obtain l where l: "ptr_push (worker_list m1) p = Inr l" "epoll_add new_fd"
    "accept_connections raw epoll_add rest (m1\<lparr>worker_list := l\<rparr>) = Inr m'"
    using "3.prems"(1) c a by (auto simp: bindr_eq_Inr split: if_splits)
  have "tasks_ok m (tasks w)" using w by (simp add: tasks_ok_def)
  then have inv: "master_inv (m1\<lparr>worker_list := l\<rparr>)"
    using "3.prems"(2,3) w a l(1) by (intro accept_one[where w = w and fd = new_fd and m = m]) auto
  have os: "m_os m1 = open_socket new_fd (m_os m)"
    using a w by (auto simp: alloc_worker_def)
  show ?case
    using "3.prems"(2) os
    by (intro "3.IH"[OF c refl refl a[symmetric] l(1,2,3) _ inv]) simp
qed (auto split: if_splits)

section \<open>Reachable states\<close>

lemma master_step_inv: "master_step m m' \<Longrightarrow> master_inv m \<Longrightarrow> master_inv m'"
proof (induction rule: master_step.induct)
  case (arrives m fd es)
  then show ?case
    by (intro master_inv_shape[OF arrives]) (simp add: master_inv_def same_shape_def opens_def)
next
  case (monitor raw t m m')
  then have "master_ok m' \<and> same_shape m m'"
    using detect_loop_ok by (auto simp: detect_pass_def master_inv_def)
  with monitor show ?case using master_inv_shape by blast
qed (auto intro: accept_connections_inv handle_data_inv report_heartbeat_inv)

lemma master_reach_inv: "master_reach m0 m \<Longrightarrow> master_inv m0 \<Longrightarrow> master_inv m"
  by (induction rule: master_reach.induct) (auto dest: master_step_inv)

lemma initial_master_inv: "initial_master os = Inr m \<Longrightarrow> master_inv m"
  by (rule initial_master_ok[of os]) (auto simp: master_inv_def conn_ok_def)

end
