(* ===== verification/Master_Message.thy ===== *)
theory Master_Message
  imports Master_Inv
begin

text \<open>
  One complete message through \<open>handle_data\<close>: a connection that is between two messages sends a
  header, a size and a body; the handler stores the body under the name of the header, sends the
  stored file on as one frame, and leaves the connection ready for the next message.
\<close>

section \<open>Between two messages\<close>

definition ready :: "worker \<Rightarrow> bool" where
  "ready w \<longleftrightarrow> status w = START \<and> command_ok w \<and> command_size w = 0 \<and> size_buffer_pos w = 0
     \<and> temp_fd w = - 1"

lemma reset_ready:
  "reset_worker_for_parsing w os = (w', os') \<Longrightarrow> ready w'"
  by (auto simp: reset_worker_for_parsing_def ready_def command_ok_def Let_def)

text \<open>The descriptor of the temporary file is overwritten before it is tested, so it is never
  closed.\<close>

lemma reset_never_closes: "reset_worker_for_parsing w os = (w', os') \<Longrightarrow> os' = os \<and> temp_fd w' = - 1"
  by (auto simp: reset_worker_for_parsing_def Let_def)

lemma create_worker_ready: "create_worker raw fd ip os = Inr (w, os') \<Longrightarrow> ready w"
  using create_worker_Inr by (auto simp: ready_def)

lemma ready_received: "ready w \<Longrightarrow> received w = []"
  by (simp add: ready_def received_def)

definition header_line :: "command \<Rightarrow> string \<Rightarrow> string" where
  "header_line c name = (case c of INTERFACE_PUT \<Rightarrow> ''INTERFACE_PUT '' | PUT \<Rightarrow> ''PUT '') @ name"

definition message :: "command \<Rightarrow> string \<Rightarrow> char list \<Rightarrow> char list" where
  "message c name body =
     header_line c name @ NEWLINE # size_bytes (of_nat (length body)) @ body"

definition good_name :: "string \<Rightarrow> bool" where
  "good_name name \<longleftrightarrow> name \<noteq> [] \<and> NUL \<notin> set name \<and> NEWLINE \<notin> set name \<and> length name \<le> 1000"

section \<open>Reading a message\<close>

abbreviation (input) eintr :: "errno \<Rightarrow> bool" where "eintr \<equiv> (\<lambda>e. e = EINTR)"

lemma get_command_message:
  assumes "ready w" "fds os (worker_fd w) = Some (Sock nb)" "good_name name"
    "stream eintr (incoming os (worker_fd w)) = header_line c name @ NEWLINE # rest"
  obtains es where "get_command w os = Inr (DONE_SENDING,
      (store_bytes w (header_line c name))\<lparr>to_do := c, temp_file_name := Some name\<rparr>,
      set_incoming os (worker_fd w) es)" "stream eintr es = rest"
proof -
  let ?line = "header_line c name"
  have r: "command_ok w" "command_size w = 0" using assms(1) by (simp_all add: ready_def)
  have n: "name \<noteq> []" "NUL \<notin> set name" "NEWLINE \<notin> set name" "length name \<le> 1000"
    using assms(3) by (simp_all add: good_name_def)
  have line: "NEWLINE \<notin> set ?line" "command_size w + length ?line < COMMAND_BUF_SIZE"
    using n r(2) by (auto simp: header_line_def split: command.split)
  obtain es where es:
    "get_command w os = parse_header (store_bytes w ?line) (set_incoming os (worker_fd w) es)"
    "stream eintr es = rest" "command_ok (store_bytes w ?line)"
    "received (store_bytes w ?line) = received w @ ?line"
    using get_command_line[OF assms(2) r(1) assms(4) line] by blast
  have rec: "received (store_bytes w ?line) = ?line"
    using es(4) ready_received[OF assms(1)] by simp
  have size: "command_size (store_bytes w ?line) < COMMAND_BUF_SIZE" using line(2) by simp
  have "parse_header (store_bytes w ?line) os1 = Inr (DONE_SENDING,
      (store_bytes w ?line)\<lparr>to_do := c, temp_file_name := Some name\<rparr>, os1)" for os1
  proof (cases c)
    case INTERFACE_PUT
    then show ?thesis
      using parse_header_interface_put[OF es(3) size _ n(2,1)] rec by (simp add: header_line_def)
  next
    case PUT
    then show ?thesis
      using parse_header_put[OF es(3) size _ n(2,1)] rec by (simp add: header_line_def)
  qed
  with es(1,2) that show thesis by simp
qed

lemma get_binary_data_message:
  assumes "temp_fd w = - 1" "temp_file_name w = Some name" "\<not> denied os name"
    "fds os (worker_fd w) = Some (Sock nb)" "next_fd os \<noteq> worker_fd w"
    "stream eintr (incoming os (worker_fd w)) = body @ rest" "unat (file_size w) = length body"
  obtains os' where "get_binary_data w os
      = Inr (DONE_SENDING, w\<lparr>temp_fd := next_fd os, file_size := 0\<rparr>, os')"
    "stream eintr (incoming os' (worker_fd w)) = rest" "disk os' = (disk os)(name \<mapsto> body)"
    "fds os' = (fds os)(next_fd os \<mapsto> File name (length body))" "sent os' = sent os"
    "\<forall>fd. fd \<noteq> next_fd os \<longrightarrow> wplan os' fd = wplan os fd" "incoming os' (next_fd os) = []"
    "next_fd os' = next_fd os + 1" "denied os' = denied os"
    "\<forall>fd. fd \<noteq> next_fd os \<longrightarrow> fd \<noteq> worker_fd w \<longrightarrow> incoming os' fd = incoming os fd"
proof -
  let ?tmp = "next_fd os" and ?w = "w\<lparr>temp_fd := next_fd os\<rparr>"
  let ?os1 = "os\<lparr>disk := (disk os)(name \<mapsto> []), fds := (fds os)(?tmp \<mapsto> File name 0),
      incoming := (incoming os)(?tmp := []), wplan := (wplan os)(?tmp := []),
      next_fd := ?tmp + 1\<rparr>"
  have run: "get_binary_data w os = receive_loop ?w ?os1"
    using assms(1-3) by (simp add: get_binary_data_def open_with_all_permission_def sys_open_trunc_def)
  have "\<exists>es ps. receive_loop ?w ?os1 = Inr (DONE_SENDING, ?w\<lparr>file_size := 0\<rparr>,
      set_incoming (accept_bytes (set_wplan ?os1 (temp_fd ?w) ps) (temp_fd ?w) body)
        (worker_fd ?w) es) \<and> stream eintr es = rest"
    using assms(4-7) by (intro receive_loop_whole[where nb = nb]) (auto simp: offset_ok_def)
  then obtain es ps where r: "receive_loop ?w ?os1 = Inr (DONE_SENDING, ?w\<lparr>file_size := 0\<rparr>,
      set_incoming (accept_bytes (set_wplan ?os1 ?tmp ps) ?tmp body) (worker_fd w) es)"
    "stream eintr es = rest" by auto
  let ?os' = "set_incoming (accept_bytes (set_wplan ?os1 ?tmp ps) ?tmp body) (worker_fd w) es"
  have a: "accept_bytes (set_wplan ?os1 ?tmp ps) ?tmp body
    = (set_wplan ?os1 ?tmp ps)\<lparr>disk := (disk os)(name \<mapsto> body),
        fds := (fds os)(?tmp \<mapsto> File name (length body))\<rparr>"
    by (simp add: accept_bytes_def file_bytes_def overwrite_def)
  have n: "?tmp \<noteq> worker_fd w" by (rule assms(5))
  show thesis
    by (rule that[of ?os']) (use run r n in \<open>simp_all add: a\<close>)
qed

section \<open>Up to the stored body\<close>

lemma put_worker_twice [simp]: "put_worker p w' (put_worker p w m) = put_worker p w' m"
  by (simp add: put_worker_def)

lemma put_worker_os [simp]: "(put_worker p w m)\<lparr>m_os := os\<rparr> = put_worker p w (m\<lparr>m_os := os\<rparr>)"
  by (simp add: put_worker_def)

lemma get_put_worker [simp]: "p \<noteq> NULL \<Longrightarrow> get_worker (put_worker p w m) p = Inr w"
  by (simp add: get_worker_def)

lemma m_read_run:
  assumes "get_worker m p = Inr w" "reader w (m_os m) = Inr (c, w', os')"
  shows "m_read reader p m = Inr (c, put_worker p w' (m\<lparr>m_os := os'\<rparr>))"
  using assms by (simp add: m_read_def)

text \<open>What a message leaves in the worker.\<close>

definition loaded :: "worker \<Rightarrow> command \<Rightarrow> string \<Rightarrow> char list \<Rightarrow> int \<Rightarrow> worker \<Rightarrow> bool" where
  "loaded w c name body tmp w' \<longleftrightarrow> status w' = FORWARD_DATA \<and> to_do w' = c
     \<and> temp_file_name w' = Some name \<and> temp_fd w' = tmp \<and> worker_fd w' = worker_fd w
     \<and> tasks w' = tasks w \<and> alive w' = (if body = [] then 0 else alive w)
     \<and> fd_to_send_to w' = fd_to_send_to w \<and> CPU_usage w' = CPU_usage w \<and> IP w' = IP w"

definition stored :: "osys \<Rightarrow> string \<Rightarrow> char list \<Rightarrow> osys \<Rightarrow> bool" where
  "stored os name body os' \<longleftrightarrow> disk os' = (disk os)(name \<mapsto> body)
     \<and> fds os' = (fds os)(next_fd os \<mapsto> File name (length body)) \<and> sent os' = sent os
     \<and> (\<forall>fd. fd \<noteq> next_fd os \<longrightarrow> wplan os' fd = wplan os fd) \<and> incoming os' (next_fd os) = []
     \<and> next_fd os' = next_fd os + 1"

lemma store_bytes_keeps [simp]:
  "tasks (store_bytes w bs) = tasks w" "temp_fd (store_bytes w bs) = temp_fd w"
  "size_buffer_pos (store_bytes w bs) = size_buffer_pos w" "alive (store_bytes w bs) = alive w"
  "fd_to_send_to (store_bytes w bs) = fd_to_send_to w" "CPU_usage (store_bytes w bs) = CPU_usage w"
  "IP (store_bytes w bs) = IP w"
  by (induction bs arbitrary: w) (simp_all add: store_byte_def)

lemma message_stored:
  assumes "get_worker m p = Inr w" "ready w" "good_name name" "length body < 2 ^ 64"
    "fds (m_os m) (worker_fd w) = Some (Sock nb)" "next_fd (m_os m) \<noteq> worker_fd w"
    "stream eintr (incoming (m_os m) (worker_fd w)) = message c name body @ rest"
    "\<not> denied (m_os m) name" "c = INTERFACE_PUT \<longrightarrow> interface_fd m \<noteq> - 1"
  obtains w' os' where
    "andthen (andthen (handle_start e_fd p m) (handle_need_size p)) (handle_recieving p)
      = Inr (Go_on (put_worker p w' (m\<lparr>m_os := os'\<rparr>)))"
    "loaded w c name body (next_fd (m_os m)) w'" "stored (m_os m) name body os'"
    "stream eintr (incoming os' (worker_fd w)) = rest"
proof -
  let ?fd = "worker_fd w" and ?os = "m_os m"
  have p: "p \<noteq> NULL" using assms(1) by (simp add: get_worker_def deref_Inr)
  have r: "status w = START" "size_buffer_pos w = 0" "temp_fd w = - 1"
    using assms(2) by (simp_all add: ready_def)
  have u: "unat (of_nat (length body) :: size_t) = length body"
    using assms(4) by (intro unat_of_nat_small) simp
  have str: "stream eintr (incoming ?os ?fd)
      = header_line c name @ NEWLINE # (size_bytes (of_nat (length body)) @ body @ rest)"
    using assms(7) by (simp add: message_def)
  obtain es1 where c1: "get_command w ?os = Inr (DONE_SENDING,
      (store_bytes w (header_line c name))\<lparr>to_do := c, temp_file_name := Some name\<rparr>,
      set_incoming ?os ?fd es1)" "stream eintr es1 = size_bytes (of_nat (length body)) @ body @ rest"
    using get_command_message[OF assms(2,5,3) str] by blast
  let ?w1 = "(store_bytes w (header_line c name))\<lparr>to_do := c, temp_file_name := Some name,
      status := NEED_SIZE\<rparr>"
  let ?os1 = "set_incoming ?os ?fd es1"
  have s1: "handle_start e_fd p m = Inr (Go_on (put_worker p ?w1 (m\<lparr>m_os := ?os1\<rparr>)))"
    using assms(9) p r(1) assms(1) m_read_run[of m p w get_command, OF assms(1) c1(1)]
    by (auto simp: handle_start_def Let_def)
  have "fds ?os1 (worker_fd ?w1) = Some (Sock nb)" "size_buffer_pos ?w1 = 0"
    "stream eintr (incoming ?os1 (worker_fd ?w1)) = size_bytes (of_nat (length body)) @ (body @ rest)"
    using assms(5) r(2) c1(2) by simp_all
  from get_size_whole[OF this] obtain es2 where c2: "get_size ?w1 ?os1 = Inr (DONE_SENDING,
      ?w1\<lparr>file_size := of_nat (length body), size_buffer_pos := 8\<rparr>, set_incoming ?os1 ?fd es2)"
    "stream eintr es2 = body @ rest" by auto
  let ?w2 = "?w1\<lparr>file_size := of_nat (length body), size_buffer_pos := 8,
      alive := (if body = [] then 0 else alive w), status := RECIEVING_DATA\<rparr>"
  let ?os2 = "set_incoming ?os ?fd es2"
  have zero: "(of_nat (length body) :: size_t) = 0 \<longleftrightarrow> body = []"
  proof
    assume "(of_nat (length body) :: size_t) = 0"
    then have "unat (0 :: size_t) = length body" using u by (simp only:)
    then show "body = []" by simp
  qed simp
  have s2: "handle_need_size p (put_worker p ?w1 (m\<lparr>m_os := ?os1\<rparr>))
      = Inr (Go_on (put_worker p ?w2 (m\<lparr>m_os := ?os2\<rparr>)))"
    using p m_read_run[of "put_worker p ?w1 (m\<lparr>m_os := ?os1\<rparr>)" p ?w1 get_size] c2(1) zero
    by (simp add: handle_need_size_def)
  obtain os' where c3: "get_binary_data ?w2 ?os2
      = Inr (DONE_SENDING, ?w2\<lparr>temp_fd := next_fd ?os2, file_size := 0\<rparr>, os')"
    "stream eintr (incoming os' (worker_fd ?w2)) = rest" "disk os' = (disk ?os2)(name \<mapsto> body)"
    "fds os' = (fds ?os2)(next_fd ?os2 \<mapsto> File name (length body))" "sent os' = sent ?os2"
    "\<forall>fd. fd \<noteq> next_fd ?os2 \<longrightarrow> wplan os' fd = wplan ?os2 fd" "incoming os' (next_fd ?os2) = []"
    "next_fd os' = next_fd ?os2 + 1"
    by (rule get_binary_data_message[of ?w2 name ?os2 nb body rest])
      (use r(3) assms(5,6,8) c2(2) u in simp_all)
  let ?w3 = "?w2\<lparr>temp_fd := next_fd ?os, file_size := 0, status := FORWARD_DATA\<rparr>"
  have s3: "handle_recieving p (put_worker p ?w2 (m\<lparr>m_os := ?os2\<rparr>))
      = Inr (Go_on (put_worker p ?w3 (m\<lparr>m_os := os'\<rparr>)))"
    using p m_read_run[of "put_worker p ?w2 (m\<lparr>m_os := ?os2\<rparr>)" p ?w2 get_binary_data] c3(1)
    by (simp add: handle_recieving_def)
  show thesis
  proof (rule that)
    show "andthen (andthen (handle_start e_fd p m) (handle_need_size p)) (handle_recieving p)
      = Inr (Go_on (put_worker p ?w3 (m\<lparr>m_os := os'\<rparr>)))"
      by (simp only: s1 s2 s3 andthen_def bindr_Inr flow.case)
    show "loaded w c name body (next_fd ?os) ?w3" by (simp add: loaded_def)
    show "stored ?os name body os'" using c3 by (simp add: stored_def)
  qed (use c3(2) in simp)
qed

section \<open>Sending it on\<close>

text \<open>Nothing is read but the stored file.\<close>

lemma sys_read_incoming: "sys_read os fd n = (r, os') \<Longrightarrow> fd' \<noteq> fd \<Longrightarrow> incoming os' fd' = incoming os fd'"
  by (auto simp: sys_read_def Let_def split: option.splits fd_kind.splits arrival.splits list.splits
      prod.splits if_splits)

lemma put_loop_incoming:
  "put_loop os src dst n = Inr (r, os') \<Longrightarrow> fd \<noteq> src \<Longrightarrow> incoming os' fd = incoming os fd"
proof (induction os src dst n rule: put_loop.induct)
  case (1 os src dst n)
  show ?case
  proof (cases "n = 0")
    case True
    then show ?thesis using "1.prems" by (simp add: put_loop.simps[of os])
  next
    case False
    obtain q os1 where r: "sys_read os src (block_size n) = (q, os1)" by fastforce
    have k: "incoming os1 fd = incoming os fd" by (rule sys_read_incoming[OF r "1.prems"(2)])
    note now = "1.prems"(1)[unfolded put_loop.simps[of os], simplified False, simplified, unfolded r]
    show ?thesis
    proof (cases q)
      case (RErr e)
      then show ?thesis
        using now k "1.IH"(2)[OF False r[symmetric] RErr] "1.prems"(2) by (auto split: if_splits)
    next
      case (RData bs)
      obtain c os2 where w: "write_all_to_socket os1 dst bs = (c, os2)" by fastforce
      have k2: "incoming os2 fd = incoming os fd"
        using write_all_frame[of os1 dst bs 0 c os2] w k by (simp add: write_all_to_socket_def)
      show ?thesis
        using now k k2 RData w "1.IH"(1)[OF False r[symmetric] RData _ refl w[symmetric]] "1.prems"(2)
        by (auto split: if_splits)
    qed (use now in simp)
  qed
qed

lemma do_put_incoming:
  assumes "do_put dst w (mu, os) = Inr (r, mu', os')" "fd \<noteq> temp_fd w"
  shows "incoming os' fd = incoming os fd"
proof -
  obtain name where name: "temp_file_name w = Some name"
    using assms(1) by (cases "temp_file_name w") (auto simp: do_put_def split: if_splits)
  obtain r1 os1 where w1: "write_all_to_socket os dst (put_header name) = (r1, os1)" by fastforce
  obtain r2 os2 where w2: "write_all_to_socket os1 dst (size_bytes (get_file_size os name)) = (r2, os2)"
    by fastforce
  have k: "incoming os1 = incoming os" "incoming os2 = incoming os"
    using write_all_frame[of os dst "put_header name" 0 r1 os1] w1
      write_all_frame[of os1 dst "size_bytes (get_file_size os name)" 0 r2 os2] w2
    by (simp_all add: write_all_to_socket_def)
  have "os' = os1 \<or> os' = os2
      \<or> put_loop (seek_start os2 (temp_fd w)) (temp_fd w) dst (get_file_size os name) = Inr (r, os')"
    using assms(1) name w1 w2 by (auto simp: do_put_def Let_def bindr_eq_Inr split: if_splits)
  moreover have "incoming (seek_start os2 (temp_fd w)) = incoming os2"
    by (simp add: seek_start_def split: option.split fd_kind.split)
  ultimately show ?thesis using k put_loop_incoming[OF _ assms(2)] by metis
qed

lemma forwarded:
  assumes "get_worker m p = Inr w" "status w = FORWARDING_DATA" "temp_file_name w = Some name"
    "good_name name" "length body < 2 ^ 64" "fds (m_os m) (fd_to_send_to w) = Some (Sock nb)"
    "willing retried_by_master (wplan (m_os m) (fd_to_send_to w))" "\<not> mutex m"
    "stored os name body (m_os m)" "temp_fd w = next_fd os"
  obtains m' w' where "handle_forwarding p m = Inr m'" "get_worker m' p = Inr w'" "ready w'"
    "tasks w' = tasks w" "alive w' = alive w" "\<forall>q. q \<noteq> p \<longrightarrow> m_workers m' q = m_workers m q"
    "sent (m_os m') (fd_to_send_to w) = sent (m_os m) (fd_to_send_to w) @ put_frame name body"
    "m_tasks m' = m_tasks m" "interface m' = interface m" "interface_fd m' = interface_fd m"
    "worker_fd w' = worker_fd w" "\<forall>fd. fd \<noteq> temp_fd w \<longrightarrow> incoming (m_os m') fd = incoming (m_os m) fd"
proof -
  have p: "p \<noteq> NULL" using assms(1) by (simp add: get_worker_def deref_Inr)
  have s: "fds (m_os m) (temp_fd w) = Some (File name (length body))" "disk (m_os m) name = Some body"
    "incoming (m_os m) (temp_fd w) = []"
    using assms(9,10) by (simp_all add: stored_def)
  have "length name + 6 \<le> 4096" using assms(4) by (simp add: good_name_def)
  from do_put_whole[OF assms(3) this s(1) assms(6) s(2) assms(5,7)] s(3)
  obtain os1 where d: "do_put (fd_to_send_to w) w (False, m_os m) = Inr (DONE_SENDING, False, os1)"
    "sent os1 (fd_to_send_to w) = sent (m_os m) (fd_to_send_to w) @ put_frame name body" by auto
  have put: "m_do_put (fd_to_send_to w) w m = Inr (DONE_SENDING, m\<lparr>m_os := os1\<rparr>)"
    using d(1) assms(8) by (cases m) (simp add: m_do_put_def)
  obtain w1 os2 where r: "reset_worker_for_parsing w os1 = (w1, os2)" by fastforce
  note k = reset_worker_tame[OF r] and ready = reset_ready[OF r]
  let ?w = "w1\<lparr>status := START\<rparr>"
  have "handle_forwarding p m = Inr (put_worker p ?w (m\<lparr>m_os := os1\<rparr>))"
    using assms(1,2) put r k by (simp add: handle_forwarding_def)
  moreover have "ready ?w"
    using ready unfolding ready_def command_ok_def by auto
  ultimately show thesis
    using p k d(2) do_put_incoming[OF d(1)]
    by (intro that[of "put_worker p ?w (m\<lparr>m_os := os1\<rparr>)" ?w]) auto
qed

lemma in_list_focus:
  assumes "master_inv m" "p \<in> set (vlist (worker_list m))" "get_worker m p = Inr w"
  shows "List.find (worker_is m (\<lambda>v. worker_fd v = worker_fd w)) (vlist (worker_list m)) = Some p"
proof -
  let ?q = "worker_is m (\<lambda>v. worker_fd v = worker_fd w)" and ?l = "vlist (worker_list m)"
  have ok: "master_ok m" "conn_ok m" using assms(1) by (simp_all add: master_inv_def)
  have fd: "fd_of m p = worker_fd w" using assms(3) by (simp add: fd_of_def get_worker_def deref_Inr)
  have "?q p" using listed_fd[OF ok(1) assms(2)] fd by simp
  then obtain q where q: "List.find ?q ?l = Some q" using assms(2)
    by (cases "List.find ?q ?l") (auto simp: find_None_iff)
  then have "q \<in> set ?l" "?q q" using find_Some_iff[of ?q ?l q] by auto
  then have "fd_of m q = fd_of m p" using listed_fd[OF ok(1)] fd by simp
  then have "q = p" using ok(2) \<open>q \<in> set ?l\<close> assms(2) by (auto simp: conn_ok_def inj_on_def)
  with q show ?thesis by simp
qed

lemma handle_data_found:
  assumes "master_inv m" "p \<in> set (vlist (worker_list m))" "get_worker m p = Inr w"
  shows "handle_data (worker_fd w) m =
    (if alive w = 0 then Inr m else run_blocks (worker_fd w) p m)"
proof -
  let ?q = "worker_is m (\<lambda>v. worker_fd v = worker_fd w)" and ?l = "vlist (worker_list m)"
  have ok: "sched_ok m" using assms(1) by (simp add: master_inv_def master_ok_def)
  obtain ys zs where s: "?l = ys @ p # zs" "takeWhile (\<lambda>p. \<not> ?q p) ?l = ys" "?q p"
    using in_list_focus[OF assms(1-3)] by (rule find_split)
  have "length ys < unat (vector_size (worker_list m))"
    using ptrs.count[OF sched_okD(1)[OF ok]] s(1) by simp
  then have "unat (of_nat (length ys) :: size_t) = length ys"
    using unat_bound[of "vector_size (worker_list m)"] by (intro unat_of_nat_small) linarith
  then have "vector_get (worker_list m) (of_nat (length ys)) = Inr p"
    using ptrs.get[OF sched_okD(1)[OF ok], of "of_nat (length ys)"] s(1) by simp
  moreover have "find_worker_pos m (worker_fd w) = Inr (int (length ys))"
    using find_worker_pos_ok[OF ok, of "worker_fd w"] s assms(2) by auto
  moreover have "p \<noteq> NULL" using assms(3) by (simp add: get_worker_def deref_Inr)
  ultimately show ?thesis using assms(3) by (simp add: handle_data_def)
qed

lemma handle_data_listed:
  assumes "master_inv m" "p \<in> set (vlist (worker_list m))" "get_worker m p = Inr w" "alive w \<noteq> 0"
  shows "handle_data (worker_fd w) m = run_blocks (worker_fd w) p m"
  using handle_data_found[OF assms(1-3)] assms(4) by simp

text \<open>A worker's answer: it goes to the interface, and its task is done.\<close>

lemma answer_forwarded:
  assumes "master_inv m" "p \<in> set (vlist (worker_list m))" "get_worker m p = Inr w" "alive w \<noteq> 0"
    "ready w" "good_name name" "length body < 2 ^ 64" "body \<noteq> []"
    "fds (m_os m) (worker_fd w) = Some (Sock nb)" "\<not> denied (m_os m) name"
    "fds (m_os m) (next_fd (m_os m)) = None"
    "stream eintr (incoming (m_os m) (worker_fd w)) = message PUT name body @ rest"
    "fds (m_os m) (interface_fd m) = Some (Sock nb')"
    "willing retried_by_master (wplan (m_os m) (interface_fd m))"
  obtains m' w' where "handle_data (worker_fd w) m = Inr m'" "get_worker m' p = Inr w'" "ready w'"
    "vlist (tasks w') = remove_first (task_named m name) (vlist (tasks w))"
    "sent (m_os m') (interface_fd m) = sent (m_os m) (interface_fd m) @ put_frame name body"
    "stream eintr (incoming (m_os m') (worker_fd w)) = rest"
proof -
  have ok: "master_ok m" "conn_ok m" using assms(1) by (simp_all add: master_inv_def)
  let ?tmp = "next_fd (m_os m)"
  have apart: "?tmp \<noteq> worker_fd w" "?tmp \<noteq> interface_fd m" using assms(9,11,13) by auto
  have p: "p \<noteq> NULL" "m_workers m p = Some w"
    using assms(3) by (simp_all add: get_worker_def deref_Inr)
  have "fd_of m p \<noteq> interface_fd m" using ok(2) assms(2) by (auto simp: conn_ok_def)
  then have iface: "worker_fd w \<noteq> interface_fd m" using p(2) by (simp add: fd_of_def)
  from assms(3,5,6,7,9) apart(1) assms(12,10) obtain w1 os1 where r:
    "andthen (andthen (handle_start (worker_fd w) p m) (handle_need_size p)) (handle_recieving p)
      = Inr (Go_on (put_worker p w1 (m\<lparr>m_os := os1\<rparr>)))"
    "loaded w PUT name body ?tmp w1" "stored (m_os m) name body os1"
    "stream eintr (incoming os1 (worker_fd w)) = rest"
    by (rule message_stored[where c = PUT and e_fd = "worker_fd w"]) simp_all
  have w1: "status w1 = FORWARD_DATA" "temp_file_name w1 = Some name" "temp_fd w1 = ?tmp"
    "worker_fd w1 = worker_fd w" "tasks w1 = tasks w" "alive w1 = alive w"
    using r(2) assms(8) by (simp_all add: loaded_def)
  let ?m1 = "put_worker p w1 (m\<lparr>m_os := os1\<rparr>)"
  have ok1: "master_ok ?m1"
    using ok(1) assms(3) w1 master_ok_worker[OF ok(1) assms(3)]
    by (intro master_ok_update[where w = w]) (simp_all add: get_worker_def)
  have named: "task_named ?m1 name = task_named m name" by (simp add: task_named_def fun_eq_iff)
  have "worker_is ?m1 (\<lambda>v. worker_fd v = worker_fd w) = worker_is m (\<lambda>v. worker_fd v = worker_fd w)"
    using p(2) w1(4) by (auto simp: fun_eq_iff worker_is_def)
  then have "List.find (worker_is ?m1 (\<lambda>v. worker_fd v = worker_fd w)) (vlist (worker_list ?m1))
      = Some p" using in_list_focus[OF assms(1-3)] by simp
  with scheduler_remove_task_ok[OF master_okD(1)[OF ok1], of "worker_fd w" name] named
  obtain l where l: "scheduler_remove_task (worker_fd w) name ?m1
      = Inr (put_worker p (w1\<lparr>tasks := l\<rparr>) ?m1)"
    "vlist l = remove_first (task_named m name) (vlist (tasks w))" using w1(5) by auto
  let ?w2 = "w1\<lparr>tasks := l, fd_to_send_to := interface_fd m, status := FORWARDING_DATA\<rparr>"
  let ?m2 = "put_worker p ?w2 (m\<lparr>m_os := os1\<rparr>)"
  have fwd: "handle_forward (worker_fd w) p ?m1 = Inr (Go_on ?m2)"
    using p(1) w1 iface assms(4) l(1) by (simp add: handle_forward_def)
  have st: "fds os1 (interface_fd m) = Some (Sock nb')" "wplan os1 (interface_fd m)
      = wplan (m_os m) (interface_fd m)" "sent os1 = sent (m_os m)"
    using r(3) apart(2) assms(13) by (simp_all add: stored_def)
  obtain m' w' where m': "handle_forwarding p ?m2 = Inr m'" "get_worker m' p = Inr w'" "ready w'"
    "tasks w' = l" "sent (m_os m') (interface_fd m) = sent os1 (interface_fd m) @ put_frame name body"
    "\<forall>fd. fd \<noteq> temp_fd ?w2 \<longrightarrow> incoming (m_os m') fd = incoming (m_os ?m2) fd"
    by (rule forwarded[of ?m2 p ?w2 name body nb' "m_os m"])
      (use p(1) w1 assms(6,7,14) st r(3) master_okD(4)[OF ok(1)] in simp_all)
  have "handle_data (worker_fd w) m = Inr m'"
    using handle_data_listed[OF assms(1-4)] m'(1)
    by (simp add: run_blocks_def andthen_def[of _ "handle_forward (worker_fd w) p"] r(1) fwd)
  moreover have "stream eintr (incoming (m_os m') (worker_fd w)) = rest"
    using m'(6) apart(1) w1(3) r(4) by simp
  ultimately show thesis using that m'(2-5) l(2) st(3) by simp
qed

lemma handle_data_interface:
  assumes "master_inv m" "get_worker m (interface m) = Inr w" "worker_fd w = interface_fd m"
  shows "handle_data (worker_fd w) m =
    (if alive w = 0 then Inr m else run_blocks (worker_fd w) (interface m) m)"
proof -
  have ok: "master_ok m" "conn_ok m" using assms(1) by (simp_all add: master_inv_def)
  have "\<not> (\<exists>q\<in>set (vlist (worker_list m)). worker_is m (\<lambda>v. worker_fd v = worker_fd w) q)"
    using listed_fd[OF ok(1)] ok(2) assms(3) by (auto simp: conn_ok_def)
  then have "find_worker_pos m (worker_fd w) = Inr (- 1)"
    using find_worker_pos_ok[OF master_okD(1)[OF ok(1)], of "worker_fd w"] by simp
  moreover have "interface m \<noteq> NULL" using assms(2) by (simp add: get_worker_def deref_Inr)
  ultimately show ?thesis using assms(2,3) by (simp add: handle_data_def)
qed

text \<open>A request of the interface, up to the task that is made of it; what follows depends on whom the
  scheduler finds.\<close>

lemma request_made:
  assumes "master_inv m" "interface m = p" "get_worker m p = Inr w" "alive w \<noteq> 0"
    "worker_fd w = interface_fd m" "ready w" "good_name name" "length body < 2 ^ 64"
    "fds (m_os m) (worker_fd w) = Some (Sock nb)" "\<not> denied (m_os m) name"
    "fds (m_os m) (next_fd (m_os m)) = None"
    "stream eintr (incoming (m_os m) (worker_fd w)) = message c name body @ rest"
  obtains w1 t m2 x where "loaded w c name body (next_fd (m_os m)) w1"
    "stored (m_os m) name body (m_os m2)" "master_ok m2" "task_ptr m2 t" "m_tasks m t = None"
    "m_tasks m2 = (m_tasks m)(t \<mapsto> x)" "file_name x = name" "m_workers m2 = (m_workers m)(p \<mapsto> w1)"
    "worker_list m2 = worker_list m" "task_list m2 = task_list m" "interface m2 = interface m"
    "interface_fd m2 = interface_fd m" "p \<noteq> NULL" "p \<notin> set (vlist (worker_list m))"
    "stream eintr (incoming (m_os m2) (worker_fd w)) = rest"
    "\<forall>fd m3 m'. schedule t m2 = Inr (fd, m3) \<longrightarrow> get_worker m3 p = Inr w1 \<longrightarrow>
      handle_forwarding p (put_worker p (w1\<lparr>fd_to_send_to := fd, status := FORWARDING_DATA\<rparr>) m3)
        = Inr m' \<longrightarrow> handle_data (worker_fd w) m = Inr m'"
proof -
  have ok: "master_ok m" "conn_ok m" using assms(1) by (simp_all add: master_inv_def)
  let ?tmp = "next_fd (m_os m)"
  have p: "p \<noteq> NULL" "m_workers m p = Some w"
    using assms(3) by (simp_all add: get_worker_def deref_Inr)
  have out: "p \<notin> set (vlist (worker_list m))" using ok(1) assms(2) by (auto simp: master_ok_def iface_ok_def)
  have iface: "c = INTERFACE_PUT \<longrightarrow> interface_fd m \<noteq> - 1" using master_ok_worker(4)[OF ok(1) assms(3)] assms(5) by simp
  have apart: "?tmp \<noteq> worker_fd w" using assms(9,11) by auto
  from assms(3,6,7,8,9) apart assms(12,10) iface obtain w1 os1 where r:
    "andthen (andthen (handle_start (worker_fd w) p m) (handle_need_size p)) (handle_recieving p)
      = Inr (Go_on (put_worker p w1 (m\<lparr>m_os := os1\<rparr>)))"
    "loaded w c name body ?tmp w1" "stored (m_os m) name body os1"
    "stream eintr (incoming os1 (worker_fd w)) = rest"
    by (rule message_stored[where c = c and e_fd = "worker_fd w"]) simp_all
  have w1: "status w1 = FORWARD_DATA" "temp_file_name w1 = Some name" "worker_fd w1 = worker_fd w"
    "tasks w1 = tasks w" "alive w1 = 0 \<or> alive w1 = alive w"
    using r(2) by (auto simp: loaded_def)
  let ?m1 = "put_worker p w1 (m\<lparr>m_os := os1\<rparr>)"
  have ok1: "master_ok ?m1"
    using ok(1) assms(3) w1 by (intro master_ok_update[where w = w]) (simp_all add: get_worker_def)
  let ?x = "\<lparr>file_name = name, orphan = 0, fd_owner = fd_to_send_to w1\<rparr>"
  obtain t m2 where a: "alloc_task ?x ?m1 = (t, m2)" by fastforce
  note m2 = alloc_task_ok[OF ok1 a]
  have m2_def: "m2 = put_task t ?x (?m1\<lparr>next_ptr := next_ptr m + 1\<rparr>)" "t = next_ptr m"
    using a by (auto simp: alloc_task_def)
  have new: "m_tasks m t = None" using master_okD(3)[OF ok(1)] m2_def(2) by (simp add: fresh_ok_def)
  have run: "handle_data (worker_fd w) m = Inr m'" if "schedule t m2 = Inr (fd, m3)"
    "get_worker m3 p = Inr w1"
    "handle_forwarding p (put_worker p (w1\<lparr>fd_to_send_to := fd, status := FORWARDING_DATA\<rparr>) m3) = Inr m'"
    for fd m3 m'
  proof -
    have "handle_forward (worker_fd w) p ?m1
        = Inr (Go_on (put_worker p (w1\<lparr>fd_to_send_to := fd, status := FORWARDING_DATA\<rparr>) m3))"
      using p(1) w1(1,2) assms(5) a that(1,2) by (simp add: handle_forward_def make_task_def)
    then have blocks: "run_blocks (worker_fd w) p m = Inr m'"
      using that(3) by (simp add: run_blocks_def andthen_def[of _ "handle_forward (worker_fd w) p"] r(1))
    have "handle_data (worker_fd w) m = run_blocks (worker_fd w) p m"
      using handle_data_interface[OF assms(1), of w] assms(2-5) by (simp only:) simp
    then show ?thesis unfolding blocks .
  qed
  show thesis
    by (rule that[OF r(2) _ m2(1,2) new _ _ _ _ _ _ _ p(1) out, where x = ?x])
      (use r(3,4) m2(4,5) run in \<open>simp_all add: m2_def(1) put_task_def\<close>)
qed

text \<open>A request of the interface: it becomes a task of a live worker than which none has less load,
  and the stored file goes there.\<close>

lemma request_scheduled:
  assumes "master_inv m" "interface m = p" "get_worker m p = Inr w" "alive w \<noteq> 0"
    "worker_fd w = interface_fd m" "ready w" "good_name name" "length body < 2 ^ 64"
    "fds (m_os m) (worker_fd w) = Some (Sock nb)" "\<not> denied (m_os m) name"
    "fds (m_os m) (next_fd (m_os m)) = None"
    "stream eintr (incoming (m_os m) (worker_fd w)) = message c name body @ rest"
    "\<forall>q v. runs m q v \<longrightarrow> q \<in> set (vlist (worker_list m)) \<longrightarrow> (\<exists>nb. fds (m_os m) (worker_fd v)
        = Some (Sock nb)) \<and> willing retried_by_master (wplan (m_os m) (worker_fd v))"
    "length (vlist (task_list m)) < 2 ^ 60"
    "\<forall>p w. m_workers m p = Some w \<longrightarrow> length (vlist (tasks w)) < 2 ^ 60"
    "\<exists>q v. q \<in> set (vlist (worker_list m)) \<and> runs m q v \<and> load_factor v < Num 100000000"
  obtains m' w' b v v' t x where "handle_data (worker_fd w) m = Inr m'" "get_worker m' p = Inr w'"
    "ready w'" "b \<in> set (vlist (worker_list m))" "runs m b v"
    "\<forall>q\<in>set (vlist (worker_list m)). \<forall>u. runs m q u \<longrightarrow> \<not> load_factor u < load_factor v"
    "m_workers m' b = Some v'" "vlist (tasks v') = vlist (tasks v) @ [t]"
    "m_tasks m' t = Some x" "file_name x = name"
    "sent (m_os m') (worker_fd v) = sent (m_os m) (worker_fd v) @ put_frame name body"
    "alive w' = (if body = [] then 0 else alive w)" "interface m' = p"
    "interface_fd m' = interface_fd m" "worker_fd w' = worker_fd w"
    "stream eintr (incoming (m_os m') (worker_fd w)) = rest"
proof -
  let ?tmp = "next_fd (m_os m)" and ?l = "vlist (worker_list m)"
  obtain w1 t m2 x where made: "loaded w c name body (next_fd (m_os m)) w1"
    "stored (m_os m) name body (m_os m2)" "master_ok m2" "task_ptr m2 t" "m_tasks m t = None"
    "m_tasks m2 = (m_tasks m)(t \<mapsto> x)" "file_name x = name" "m_workers m2 = (m_workers m)(p \<mapsto> w1)"
    "worker_list m2 = worker_list m" "task_list m2 = task_list m" "interface m2 = interface m"
    "interface_fd m2 = interface_fd m" "p \<noteq> NULL" "p \<notin> set (vlist (worker_list m))"
    "stream eintr (incoming (m_os m2) (worker_fd w)) = rest"
    "\<forall>fd m3 m'. schedule t m2 = Inr (fd, m3) \<longrightarrow> get_worker m3 p = Inr w1 \<longrightarrow>
      handle_forwarding p (put_worker p (w1\<lparr>fd_to_send_to := fd, status := FORWARDING_DATA\<rparr>) m3)
        = Inr m' \<longrightarrow> handle_data (worker_fd w) m = Inr m'"
    by (rule request_made[OF assms(1-12)]) (rule that)
  have apart: "worker_fd w \<noteq> ?tmp" using assms(9,11) by auto
  have w: "m_workers m p = Some w" using assms(3) by (simp add: get_worker_def deref_Inr)
  have w1: "temp_file_name w1 = Some name" "temp_fd w1 = ?tmp" "worker_fd w1 = worker_fd w"
    "tasks w1 = tasks w" "alive w1 = (if body = [] then 0 else alive w)"
    using made(1) by (auto simp: loaded_def)
  have runs2: "runs m2 q v \<longleftrightarrow> runs m q v" if "q \<in> set ?l" for q v
    using that made(8,14) by (auto simp: runs_def)
  have room: "\<forall>q v. m_workers m2 q = Some v \<longrightarrow> length (vlist (tasks v)) < 2 ^ 60"
    using assms(15) w w1(4) made(8) by auto
  have room': "length (vlist (task_list m2)) < 2 ^ 60" using assms(14) made(10) by simp
  from master_okD(1)[OF made(3)] made(4) room' room show thesis
  proof (cases rule: schedule_cases)
    case (nobody l)
    then show ?thesis using assms(16) runs2 made(9) by auto
  next
    case (chosen b v l)
    let ?m3 = "put_worker b (v\<lparr>tasks := l\<rparr>) m2"
    have b: "b \<in> set ?l" "b \<noteq> p" "runs m b v" using chosen(2,3) made(9,14) runs2 by auto
    have best: "\<forall>q\<in>set ?l. \<forall>u. runs m q u \<longrightarrow> \<not> load_factor u < load_factor v"
      using chosen(5) runs2 made(9) by simp
    obtain nb' where sock: "fds (m_os m) (worker_fd v) = Some (Sock nb')"
      "willing retried_by_master (wplan (m_os m) (worker_fd v))" using assms(13) b by blast
    have tmp: "worker_fd v \<noteq> ?tmp" using sock(1) assms(11) by auto
    let ?w2 = "w1\<lparr>fd_to_send_to := worker_fd v, status := FORWARDING_DATA\<rparr>"
    let ?m4 = "put_worker p ?w2 ?m3"
    have w3: "get_worker ?m3 p = Inr w1" using b(2) made(8,13) by (simp add: get_worker_def)
    have st: "fds (m_os m2) (worker_fd v) = Some (Sock nb')" "wplan (m_os m2) (worker_fd v)
        = wplan (m_os m) (worker_fd v)" "sent (m_os m2) = sent (m_os m)"
      using made(2) tmp sock(1) by (simp_all add: stored_def)
    have free: "\<not> mutex ?m4" using master_okD(4)[OF made(3)] by simp
    obtain m' w' where m': "handle_forwarding p ?m4 = Inr m'" "get_worker m' p = Inr w'" "ready w'"
      "\<forall>q. q \<noteq> p \<longrightarrow> m_workers m' q = m_workers ?m4 q" "m_tasks m' = m_tasks ?m4"
      "sent (m_os m') (worker_fd v) = sent (m_os m2) (worker_fd v) @ put_frame name body"
      "alive w' = alive w1" "interface m' = interface m2" "interface_fd m' = interface_fd m2"
      "worker_fd w' = worker_fd w1"
      "\<forall>fd. fd \<noteq> temp_fd ?w2 \<longrightarrow> incoming (m_os m') fd = incoming (m_os ?m4) fd"
      by (rule forwarded[of ?m4 p ?w2 name body nb' "m_os m"])
        (use made(2,13) w1 assms(7,8) st sock(2) free in simp_all)
    have run: "handle_data (worker_fd w) m = Inr m'" using made(16) chosen(1) w3 m'(1) by blast
    have v': "m_workers m' b = Some (v\<lparr>tasks := l\<rparr>)" using m'(4) b(2) by simp
    have t': "m_tasks m' t = Some x" using m'(5) made(6) by simp
    show thesis
      by (rule that[OF run m'(2,3) b(1,3) best v' _ t' made(7)])
        (use chosen(6) m'(6-11) st(3) w1 made(11,12,15) assms(2) apart in simp_all)
  qed
qed

text \<open>A request nobody can take: its task is parked, nothing is sent, and the interface is ready as
  after any other.\<close>

lemma request_parked:
  assumes "master_inv m" "interface m = p" "get_worker m p = Inr w" "alive w \<noteq> 0"
    "worker_fd w = interface_fd m" "ready w" "good_name name" "length body < 2 ^ 64"
    "fds (m_os m) (worker_fd w) = Some (Sock nb)" "\<not> denied (m_os m) name"
    "fds (m_os m) (next_fd (m_os m)) = None"
    "stream eintr (incoming (m_os m) (worker_fd w)) = message c name body @ rest"
    "0 \<le> next_fd (m_os m)" "fds (m_os m) (- 1) = None" "length (vlist (task_list m)) < 2 ^ 60"
    "\<forall>p w. m_workers m p = Some w \<longrightarrow> length (vlist (tasks w)) < 2 ^ 60"
    "\<forall>q\<in>set (vlist (worker_list m)). \<forall>v. \<not> runs m q v"
  obtains m' w' t x where "handle_data (worker_fd w) m = Inr m'" "get_worker m' p = Inr w'"
    "ready w'" "vlist (task_list m') = vlist (task_list m) @ [t]" "m_tasks m t = None"
    "m_tasks m' t = Some x" "file_name x = name" "sent (m_os m') = sent (m_os m)"
proof -
  let ?l = "vlist (worker_list m)"
  obtain w1 t m2 x where made: "loaded w c name body (next_fd (m_os m)) w1"
    "stored (m_os m) name body (m_os m2)" "master_ok m2" "task_ptr m2 t" "m_tasks m t = None"
    "m_tasks m2 = (m_tasks m)(t \<mapsto> x)" "file_name x = name" "m_workers m2 = (m_workers m)(p \<mapsto> w1)"
    "worker_list m2 = worker_list m" "task_list m2 = task_list m" "interface m2 = interface m"
    "interface_fd m2 = interface_fd m" "p \<noteq> NULL" "p \<notin> set ?l"
    "stream eintr (incoming (m_os m2) (worker_fd w)) = rest"
    "\<forall>fd m3 m'. schedule t m2 = Inr (fd, m3) \<longrightarrow> get_worker m3 p = Inr w1 \<longrightarrow>
      handle_forwarding p (put_worker p (w1\<lparr>fd_to_send_to := fd, status := FORWARDING_DATA\<rparr>) m3)
        = Inr m' \<longrightarrow> handle_data (worker_fd w) m = Inr m'"
    by (rule request_made[OF assms(1-12)]) (rule that)
  have w: "m_workers m p = Some w" using assms(3) by (simp add: get_worker_def deref_Inr)
  have w1: "temp_file_name w1 = Some name" "tasks w1 = tasks w" using made(1) by (auto simp: loaded_def)
  have room: "\<forall>q v. m_workers m2 q = Some v \<longrightarrow> length (vlist (tasks v)) < 2 ^ 60"
    using assms(16) w w1(2) made(8) by auto
  have room': "length (vlist (task_list m2)) < 2 ^ 60" using assms(15) made(10) by simp
  from master_okD(1)[OF made(3)] made(4) room' room show thesis
  proof (cases rule: schedule_cases)
    case (nobody l)
    let ?w2 = "w1\<lparr>fd_to_send_to := - 1, status := FORWARDING_DATA\<rparr>"
    let ?m4 = "put_worker p ?w2 (m2\<lparr>task_list := l\<rparr>)"
    have closed: "fds (m_os m2) (- 1) = None" using made(2) assms(13,14) by (simp add: stored_def)
    have name: "length name + 6 \<le> 4096" using assms(7) by (simp add: good_name_def)
    have "do_put (- 1) ?w2 (False, m_os m2) = Inr (BIG_FAILURE, False, m_os m2)"
      by (rule do_put_closed) (use w1(1) name closed in simp_all)
    then have put: "m_do_put (- 1) ?w2 ?m4 = Inr (BIG_FAILURE, ?m4)"
      using master_okD(4)[OF made(3)] by (simp add: m_do_put_def put_worker_def)
    obtain w3 os2 where r: "reset_worker_for_parsing ?w2 (m_os m2) = (w3, os2)" by fastforce
    let ?m' = "put_worker p (w3\<lparr>status := START\<rparr>) ?m4"
    have "os2 = m_os m2" using reset_worker_tame[OF r] by simp
    then have "handle_forwarding p ?m4 = Inr ?m'" using put r made(13) by (simp add: handle_forwarding_def)
    moreover have "get_worker (m2\<lparr>task_list := l\<rparr>) p = Inr w1" using made(8,13) by (simp add: get_worker_def)
    ultimately have run: "handle_data (worker_fd w) m = Inr ?m'" using made(16) nobody(1) by blast
    have ready: "ready (w3\<lparr>status := START\<rparr>)" using reset_ready[OF r] unfolding ready_def command_ok_def by auto
    have "sent (m_os m2) = sent (m_os m)" using made(2) by (simp add: stored_def)
    then show thesis
      using nobody(2) made(5-7,10,13) by (intro that[OF run _ ready, where t = t and x = x]) simp_all
  next
    case (chosen b v l)
    have b: "b \<in> set ?l" "b \<noteq> p" using chosen(2) made(9,14) by auto
    then have "runs m b v" using chosen(3) made(8) by (simp add: runs_def)
    then show ?thesis using assms(17) b(1) by blast
  qed
qed

text \<open>A worker that closes its connection between two messages is marked dead; nothing else happens.\<close>

lemma hang_up:
  assumes "master_inv m" "p \<in> set (vlist (worker_list m))" "get_worker m p = Inr w" "alive w \<noteq> 0"
    "status w = START" "fds (m_os m) (worker_fd w) = Some (Sock nb)"
    "incoming (m_os m) (worker_fd w) = Eof # es"
  shows "handle_data (worker_fd w) m = Inr (put_worker p (w\<lparr>alive := 0\<rparr>) m)"
proof -
  have ok: "conn_ok m" using assms(1) by (simp add: master_inv_def)
  have p: "p \<noteq> NULL" "m_workers m p = Some w"
    using assms(3) by (simp_all add: get_worker_def deref_Inr)
  have "fd_of m p \<noteq> interface_fd m" using ok assms(2) by (auto simp: conn_ok_def)
  then have iface: "worker_fd w \<noteq> interface_fd m" using p(2) by (simp add: fd_of_def)
  have "sys_read (m_os m) (worker_fd w) 1 = (RData [], m_os m)"
    using assms(6,7) by (simp add: sys_read_def set_incoming_def fun_upd_idem)
  then have "get_command w (m_os m) = Inr (BIG_FAILURE, w, m_os m)"
    by (simp add: get_command_def get_command_loop.simps[of w])
  from m_read_run[of m p w get_command, OF assms(3) this]
  have "m_read get_command p m = Inr (BIG_FAILURE, put_worker p w m)" by simp
  then have "handle_start (worker_fd w) p m = Inr (Go_on (put_worker p (w\<lparr>alive := 0\<rparr>) m))"
    using assms(3,5) p iface by (simp add: handle_start_def Let_def)
  then show ?thesis
    using handle_data_listed[OF assms(1-4)] p assms(5)
    by (simp add: run_blocks_def andthen_def handle_need_size_def handle_recieving_def handle_forward_def
        handle_forwarding_def)
qed

text \<open>An answer without output: the worker is marked dead and stays in the middle of the message, its
  task is kept, the interface hears nothing, and the next events of the connection are ignored.\<close>

lemma empty_answer:
  assumes "master_inv m" "p \<in> set (vlist (worker_list m))" "get_worker m p = Inr w" "alive w \<noteq> 0"
    "ready w" "good_name name" "fds (m_os m) (worker_fd w) = Some (Sock nb)" "\<not> denied (m_os m) name"
    "fds (m_os m) (next_fd (m_os m)) = None"
    "stream eintr (incoming (m_os m) (worker_fd w)) = message PUT name [] @ rest"
  obtains m' w' where "handle_data (worker_fd w) m = Inr m'" "get_worker m' p = Inr w'"
    "alive w' = 0" "status w' = FORWARD_DATA" "tasks w' = tasks w" "sent (m_os m') = sent (m_os m)"
    "worker_fd w' = worker_fd w" "worker_list m' = worker_list m" "IP w' = IP w"
proof -
  have ok: "conn_ok m" using assms(1) by (simp add: master_inv_def)
  let ?tmp = "next_fd (m_os m)"
  have apart: "?tmp \<noteq> worker_fd w" using assms(7,9) by auto
  have p: "p \<noteq> NULL" "m_workers m p = Some w"
    using assms(3) by (simp_all add: get_worker_def deref_Inr)
  have "fd_of m p \<noteq> interface_fd m" using ok assms(2) by (auto simp: conn_ok_def)
  then have iface: "worker_fd w \<noteq> interface_fd m" using p(2) by (simp add: fd_of_def)
  have len: "length ([] :: char list) < 2 ^ 64" by simp
  from assms(3,5,6) len assms(7) apart assms(10,8) obtain w1 os1 where r:
    "andthen (andthen (handle_start (worker_fd w) p m) (handle_need_size p)) (handle_recieving p)
      = Inr (Go_on (put_worker p w1 (m\<lparr>m_os := os1\<rparr>)))"
    "loaded w PUT name [] ?tmp w1" "stored (m_os m) name [] os1"
    by (rule message_stored[where c = PUT and e_fd = "worker_fd w"]) simp_all
  let ?m1 = "put_worker p w1 (m\<lparr>m_os := os1\<rparr>)"
  have w1: "status w1 = FORWARD_DATA" "alive w1 = 0" "tasks w1 = tasks w" "worker_fd w1 = worker_fd w"
    "IP w1 = IP w"
    using r(2) by (simp_all add: loaded_def)
  have "handle_forward (worker_fd w) p ?m1 = Inr (Return ?m1)"
    using p(1) w1 iface by (simp add: handle_forward_def)
  then have "handle_data (worker_fd w) m = Inr ?m1"
    using handle_data_listed[OF assms(1-4)]
    by (simp add: run_blocks_def andthen_def[of _ "handle_forward (worker_fd w) p"] r(1))
  then show thesis using p(1) w1 r(3) by (intro that[of ?m1 w1]) (simp_all add: stored_def)
qed

end
