(* ===== verification/Task_Queue.thy ===== *)
theory Task_Queue
  imports Prelude
begin

text \<open>
  \<^verbatim>\<open>queue.c\<close>: a queue of pointers as a singly linked list with a mutex and a condition variable. The
  part of each operation between the wait and the unlock is \<open>queue_push\<close> and \<open>queue_pull\<close> here, on the
  heap of list nodes; a call that would wait is \<open>Blocks\<close>. The monitor, with its threads, waits and
  broadcasts, is the step relation of the last section.
\<close>

section \<open>The structs\<close>

record queue_node =
  node_next :: ptr
  node_data :: ptr

record 's queue =
  max_size :: int
  q_copy :: "ptr \<Rightarrow> 's \<Rightarrow> ptr \<times> 's"
  q_destr :: "ptr \<Rightarrow> 's \<Rightarrow> 's"
  head :: ptr
  tail :: ptr
  q_size :: int
  q_nodes :: "ptr \<Rightarrow> queue_node option"
  q_fresh :: ptr

section \<open>The operations\<close>

definition queue_create :: "int \<Rightarrow> (ptr \<Rightarrow> 's \<Rightarrow> ptr \<times> 's) \<Rightarrow> (ptr \<Rightarrow> 's \<Rightarrow> 's) \<Rightarrow> 's queue" where
  "queue_create limit copy destr = \<lparr>max_size = limit, q_copy = copy, q_destr = destr, head = NULL,
     tail = NULL, q_size = 0, q_nodes = (\<lambda>_. None), q_fresh = 1\<rparr>"

text \<open>The loop frees each node it leaves; \<open>None\<close> would be a loop without an end.\<close>

partial_function (option) destroy_nodes :: "'s queue \<Rightarrow> ptr \<Rightarrow> 's \<Rightarrow> 's res option" where
  "destroy_nodes this cur s =
     (if cur \<noteq> NULL then
        (case q_nodes this cur of
           None \<Rightarrow> Some (Inl Out_of_bounds)
         | Some temp \<Rightarrow>
             destroy_nodes (this\<lparr>q_nodes := (q_nodes this)(cur := None)\<rparr>) (node_next temp)
               (q_destr this (node_data temp) s))
      else Some (Inr s))"

definition queue_destroy :: "'s queue \<Rightarrow> 's \<Rightarrow> 's res" where
  "queue_destroy this s = bindr (or_fault Diverges (destroy_nodes this (head this) s)) (\<lambda>r. r)"

definition queue_full :: "'s queue \<Rightarrow> bool" where
  "queue_full this \<longleftrightarrow> max_size this > 0 \<and> q_size this = max_size this"

definition link_node :: "'s queue \<Rightarrow> ptr \<Rightarrow> 's queue res" where
  "link_node this data =
     (let node = q_fresh this;
          this1 = this\<lparr>q_nodes := (q_nodes this)(node \<mapsto> \<lparr>node_next = NULL, node_data = data\<rparr>),
                       q_fresh := node + 1\<rparr> in
      bindr (if head this1 = NULL then Inr (this1\<lparr>head := node, tail := node\<rparr>)
             else bindr (deref (q_nodes this1) (tail this1)) (\<lambda>last.
               Inr (this1\<lparr>q_nodes := (q_nodes this1)(tail this1 \<mapsto> last\<lparr>node_next := node\<rparr>),
                          tail := node\<rparr>)))
        (\<lambda>this2. Inr (this2\<lparr>q_size := q_size this2 + 1\<rparr>)))"

definition queue_push :: "'s queue \<Rightarrow> ptr \<Rightarrow> 's \<Rightarrow> ('s queue \<times> 's) res" where
  "queue_push this data s =
     (if queue_full this then Inl Blocks
      else (let (p, s') = q_copy this data s in
            bindr (link_node this p) (\<lambda>this'. Inr (this', s'))))"

definition queue_pull :: "'s queue \<Rightarrow> (ptr \<times> 's queue) res" where
  "queue_pull this =
     (if q_size this = 0 then Inl Blocks
      else bindr (deref (q_nodes this) (head this)) (\<lambda>node.
        let this1 = this\<lparr>head := node_next node\<rparr>;
            this2 = (if head this1 = NULL then this1\<lparr>tail := NULL\<rparr> else this1) in
        Inr (node_data node, this2\<lparr>q_size := q_size this2 - 1,
          q_nodes := (q_nodes this2)(head this := None)\<rparr>)))"

text \<open>Whether the operation that led to this queue broadcasts.\<close>

definition push_broadcasts :: "'s queue \<Rightarrow> bool" where
  "push_broadcasts this \<longleftrightarrow> q_size this = 1"

definition pull_broadcasts :: "'s queue \<Rightarrow> bool" where
  "pull_broadcasts this \<longleftrightarrow> max_size this > 0 \<and> q_size this = max_size this - 1"

section \<open>The list a queue stands for\<close>

text \<open>The nodes from \<open>p\<close> on are at these addresses and hold these pointers.\<close>

fun linked :: "(ptr \<Rightarrow> queue_node option) \<Rightarrow> ptr \<Rightarrow> (ptr \<times> ptr) list \<Rightarrow> bool" where
  "linked h p [] \<longleftrightarrow> p = NULL"
| "linked h p ((a, d) # xs) \<longleftrightarrow> p = a \<and> a \<noteq> NULL \<and>
     (\<exists>nx. h a = Some \<lparr>node_next = nx, node_data = d\<rparr> \<and> linked h nx xs)"

definition queue_is :: "'s queue \<Rightarrow> (ptr \<times> ptr) list \<Rightarrow> bool" where
  "queue_is q xs \<longleftrightarrow> linked (q_nodes q) (head q) xs \<and> distinct (map fst xs)
     \<and> tail q = (if xs = [] then NULL else fst (last xs)) \<and> q_size q = int (length xs)
     \<and> dom (q_nodes q) = set (map fst xs) \<and> (\<forall>a\<in>set (map fst xs). a < q_fresh q) \<and> 0 < q_fresh q"

definition queue_holds :: "'s queue \<Rightarrow> ptr list \<Rightarrow> bool" where
  "queue_holds q ds \<longleftrightarrow> (\<exists>xs. queue_is q xs \<and> map snd xs = ds)"

lemma queue_holds_size: "queue_holds q ds \<Longrightarrow> q_size q = int (length ds)"
  by (auto simp: queue_holds_def queue_is_def)

lemma queue_create_holds: "queue_holds (queue_create n c d) []"
  by (auto simp: queue_holds_def queue_is_def queue_create_def)

lemma linked_frame:
  "(\<forall>a\<in>set (map fst xs). h' a = h a) \<Longrightarrow> linked h' p xs = linked h p xs"
  by (induction xs arbitrary: p) auto

lemma linked_snoc:
  assumes "linked h p (xs @ [(b, e)])" "distinct (map fst (xs @ [(b, e)]))" "a \<noteq> NULL"
    "a \<notin> set (map fst (xs @ [(b, e)]))"
  shows "linked (h(a \<mapsto> \<lparr>node_next = NULL, node_data = d\<rparr>, b \<mapsto> \<lparr>node_next = a, node_data = e\<rparr>))
    p (xs @ [(b, e), (a, d)])"
  using assms(1,2,4)
proof (induction xs arbitrary: p)
  case Nil
  then show ?case using assms(3) by simp
next
  case (Cons x xs)
  obtain c f where x: "x = (c, f)" by fastforce
  then show ?case using Cons by auto
qed

lemma linked_last:
  "linked h p (xs @ [(b, e)]) \<Longrightarrow> b \<noteq> NULL \<and> (\<exists>nx. h b = Some \<lparr>node_next = nx, node_data = e\<rparr>)"
  by (induction xs arbitrary: p) auto

lemma link_node_ok:
  assumes "queue_holds q ds"
  obtains q' where "link_node q d = Inr q'" "queue_holds q' (ds @ [d])"
    "max_size q' = max_size q" "q_copy q' = q_copy q" "q_destr q' = q_destr q"
proof -
  obtain xs where xs: "queue_is q xs" "map snd xs = ds"
    using assms by (auto simp: queue_holds_def)
  let ?a = "q_fresh q" and ?n = "\<lparr>node_next = NULL, node_data = d\<rparr>"
  have a: "?a \<noteq> NULL" "?a \<notin> set (map fst xs)" using xs(1) by (auto simp: queue_is_def)
  show thesis
  proof (cases xs rule: rev_cases)
    case Nil
    let ?q = "q\<lparr>q_nodes := (q_nodes q)(?a \<mapsto> ?n), q_fresh := ?a + 1, head := ?a, tail := ?a,
      q_size := q_size q + 1\<rparr>"
    have "link_node q d = Inr ?q" using xs(1) Nil by (simp add: link_node_def queue_is_def Let_def)
    moreover have "queue_is ?q [(?a, d)]" using xs(1) Nil a by (auto simp: queue_is_def)
    then have "queue_holds ?q (ds @ [d])" using xs(2) Nil by (auto simp: queue_holds_def)
    ultimately show thesis by (intro that[of ?q]) simp_all
  next
    case (snoc ys y)
    obtain b e where y: "y = (b, e)" by fastforce
    have l: "linked (q_nodes q) (head q) (ys @ [(b, e)])" "tail q = b"
      using xs(1) snoc y by (simp_all add: queue_is_def)
    obtain nx where nx: "b \<noteq> NULL" "q_nodes q b = Some \<lparr>node_next = nx, node_data = e\<rparr>"
      using linked_last[OF l(1)] by blast
    have head: "head q \<noteq> NULL" using l(1) by (cases ys) auto
    have ab: "?a \<noteq> b" using a(2) snoc y by auto
    let ?h = "(q_nodes q)(?a \<mapsto> ?n, b \<mapsto> \<lparr>node_next = ?a, node_data = e\<rparr>)"
    let ?q = "q\<lparr>q_nodes := ?h, q_fresh := ?a + 1, tail := ?a, q_size := q_size q + 1\<rparr>"
    have "link_node q d = Inr ?q"
      using head l(2) nx ab by (simp add: link_node_def Let_def)
    moreover have "linked ?h (head q) (ys @ [(b, e), (?a, d)])"
      using xs(1) snoc y a l(1) by (intro linked_snoc) (auto simp: queue_is_def)
    then have "queue_is ?q (ys @ [(b, e), (?a, d)])"
      using xs(1) snoc y a by (auto simp: queue_is_def less_Suc_eq)
    then have "queue_holds ?q (ds @ [d])"
      using xs(2) snoc y by (auto simp: queue_holds_def intro!: exI)
    ultimately show thesis by (intro that[of ?q]) simp_all
  qed
qed

lemma queue_push_ok:
  assumes "queue_holds q ds" "\<not> queue_full q" "q_copy q d s = (p, s')"
  obtains q' where "queue_push q d s = Inr (q', s')" "queue_holds q' (ds @ [p])"
    "max_size q' = max_size q" "q_copy q' = q_copy q" "q_destr q' = q_destr q"
proof (rule link_node_ok[OF assms(1), of p])
  fix q' assume "link_node q p = Inr q'" "queue_holds q' (ds @ [p])" "max_size q' = max_size q"
    "q_copy q' = q_copy q" "q_destr q' = q_destr q"
  then show thesis using assms(2,3) by (intro that[of q']) (simp_all add: queue_push_def)
qed

lemma queue_pull_ok:
  assumes "queue_holds q (d # ds)"
  obtains q' where "queue_pull q = Inr (d, q')" "queue_holds q' ds" "max_size q' = max_size q"
    "q_copy q' = q_copy q" "q_destr q' = q_destr q"
proof -
  obtain a xs where xs: "queue_is q ((a, d) # xs)" "map snd xs = ds"
    using assms by (auto simp: queue_holds_def)
  then obtain nx where nx: "head q = a" "a \<noteq> NULL"
    "q_nodes q a = Some \<lparr>node_next = nx, node_data = d\<rparr>" "linked (q_nodes q) nx xs"
    by (auto simp: queue_is_def)
  have out: "a \<notin> set (map fst xs)" using xs(1) by (simp add: queue_is_def)
  have empty: "nx = NULL \<longleftrightarrow> xs = []"
    using nx(4) by (cases xs) (auto split: prod.splits)
  let ?q = "q\<lparr>head := nx, tail := (if nx = NULL then NULL else tail q), q_size := q_size q - 1,
    q_nodes := (q_nodes q)(a := None)\<rparr>"
  have "queue_pull q = Inr (d, ?q)"
    using xs(1) nx(1-3) by (auto simp: queue_pull_def queue_is_def Let_def)
  moreover have "linked ((q_nodes q)(a := None)) nx xs"
    using nx(4) out by (subst linked_frame) auto
  then have "queue_is ?q xs"
    using xs(1) out empty by (auto simp: queue_is_def)
  then have "queue_holds ?q ds" using xs(2) by (auto simp: queue_holds_def)
  ultimately show thesis by (intro that[of ?q]) simp_all
qed

lemma destroy_nodes_ok:
  "linked (q_nodes q) p xs \<Longrightarrow> distinct (map fst xs) \<Longrightarrow>
    destroy_nodes q p s = Some (Inr (fold (q_destr q) (map snd xs) s))"
proof (induction xs arbitrary: q p s)
  case Nil
  then show ?case by (simp add: destroy_nodes.simps)
next
  case (Cons x xs)
  obtain a d where x: "x = (a, d)" by fastforce
  then obtain nx where nx: "p = a" "a \<noteq> NULL"
    "q_nodes q a = Some \<lparr>node_next = nx, node_data = d\<rparr>" "linked (q_nodes q) nx xs"
    using Cons.prems(1) by auto
  let ?q = "q\<lparr>q_nodes := (q_nodes q)(a := None)\<rparr>"
  have "linked (q_nodes ?q) nx xs"
    using nx(4) Cons.prems(2) x by (subst linked_frame[of _ _ "q_nodes q"]) auto
  moreover have "distinct (map fst xs)" using Cons.prems(2) by simp
  ultimately have "destroy_nodes ?q nx (q_destr q d s)
      = Some (Inr (fold (q_destr ?q) (map snd xs) (q_destr q d s)))"
    by (rule Cons.IH)
  then show ?case using nx x by (subst destroy_nodes.simps) simp
qed

lemma queue_destroy_ok:
  assumes "queue_holds q ds"
  shows "queue_destroy q s = Inr (fold (q_destr q) ds s)"
proof -
  obtain xs where xs: "queue_is q xs" "map snd xs = ds"
    using assms by (auto simp: queue_holds_def)
  then show ?thesis using destroy_nodes_ok[of q "head q" xs s]
    by (simp add: queue_destroy_def queue_is_def)
qed

section \<open>First in, first out\<close>

text \<open>What the worker's threads rely on.\<close>

locale fifo =
  fixes inv :: "'q \<Rightarrow> ptr list \<Rightarrow> bool"
    and add :: "'q \<Rightarrow> ptr \<Rightarrow> 'q res"
    and remove :: "'q \<Rightarrow> (ptr \<times> 'q) res"
  assumes add: "inv q ds \<Longrightarrow> \<exists>q'. add q d = Inr q' \<and> inv q' (ds @ [d])"
    and remove: "inv q (d # ds) \<Longrightarrow> \<exists>q'. remove q = Inr (d, q') \<and> inv q' ds"
begin

fun add_all :: "'q \<Rightarrow> ptr list \<Rightarrow> 'q res" where
  "add_all q [] = Inr q"
| "add_all q (d # ds) = bindr (add q d) (\<lambda>q. add_all q ds)"

fun remove_n :: "nat \<Rightarrow> 'q \<Rightarrow> (ptr list \<times> 'q) res" where
  "remove_n 0 q = Inr ([], q)"
| "remove_n (Suc n) q =
     bindr (remove q) (\<lambda>(d, q). bindr (remove_n n q) (\<lambda>(ds, q). Inr (d # ds, q)))"

lemma add_all_inv: "inv q ds \<Longrightarrow> \<exists>q'. add_all q es = Inr q' \<and> inv q' (ds @ es)"
proof (induction es arbitrary: q ds)
  case (Cons e es)
  obtain q1 where q1: "add q e = Inr q1" "inv q1 (ds @ [e])" using add[OF Cons.prems] by blast
  from Cons.IH[OF q1(2)] q1(1) show ?case by auto
qed auto

lemma remove_n_inv: "inv q (ds @ es) \<Longrightarrow> \<exists>q'. remove_n (length ds) q = Inr (ds, q') \<and> inv q' es"
proof (induction ds arbitrary: q)
  case (Cons d ds)
  obtain q1 where q1: "remove q = Inr (d, q1)" "inv q1 (ds @ es)"
    using remove[of q d "ds @ es"] Cons.prems by auto
  from Cons.IH[OF q1(2)] q1(1) show ?case by auto
qed auto

lemma in_order:
  assumes "inv q []"
  shows "\<exists>q'. bindr (add_all q ds) (remove_n (length ds)) = Inr (ds, q') \<and> inv q' []"
  using add_all_inv[OF assms, of ds] remove_n_inv[of _ ds "[]"] by auto

end

interpretation queue: fifo queue_holds link_node queue_pull
proof unfold_locales
  fix q :: "'s queue" and ds d
  assume "queue_holds q ds"
  then show "\<exists>q'. link_node q d = Inr q' \<and> queue_holds q' (ds @ [d])"
    by (rule link_node_ok[of q ds d]) auto
next
  fix q :: "'s queue" and ds d
  assume "queue_holds q (d # ds)"
  then show "\<exists>q'. queue_pull q = Inr (d, q') \<and> queue_holds q' ds"
    by (rule queue_pull_ok) auto
qed

section \<open>The monitor\<close>

text \<open>Each thread is at one point of an operation. The code between two waits runs under the mutex, so
  it is one step; \<^verbatim>\<open>pthread_cond_wait\<close> releases the mutex, and a broadcast lets every waiting thread
  run its test again, as a spurious wakeup does for one. What was pushed and pulled is recorded.\<close>

datatype tstate = Idle | Pushing ptr | Push_waits ptr | Pulling | Pull_waits | Has ptr

record 's monitor =
  mon_queue :: "'s queue"
  mon_client :: 's
  mon_threads :: "nat \<Rightarrow> tstate"
  mon_pushed :: "ptr list"
  mon_pulled :: "ptr list"

fun woken :: "tstate \<Rightarrow> tstate" where
  "woken (Push_waits d) = Pushing d"
| "woken Pull_waits = Pulling"
| "woken t = t"

definition broadcast_if :: "bool \<Rightarrow> (nat \<Rightarrow> tstate) \<Rightarrow> nat \<Rightarrow> tstate" where
  "broadcast_if b th = (\<lambda>t. if b then woken (th t) else th t)"

inductive monitor_step :: "'s monitor \<Rightarrow> 's monitor \<Rightarrow> bool" where
  call_push: "mon_threads m t \<in> {Idle, Has e} \<Longrightarrow>
    monitor_step m (m\<lparr>mon_threads := (mon_threads m)(t := Pushing d)\<rparr>)"
| call_pull: "mon_threads m t \<in> {Idle, Has e} \<Longrightarrow>
    monitor_step m (m\<lparr>mon_threads := (mon_threads m)(t := Pulling)\<rparr>)"
| push_waits: "mon_threads m t = Pushing d \<Longrightarrow>
    queue_push (mon_queue m) d (mon_client m) = Inl Blocks \<Longrightarrow>
    monitor_step m (m\<lparr>mon_threads := (mon_threads m)(t := Push_waits d)\<rparr>)"
| push_runs: "mon_threads m t = Pushing d \<Longrightarrow>
    queue_push (mon_queue m) d (mon_client m) = Inr (q, s) \<Longrightarrow>
    monitor_step m (m\<lparr>mon_queue := q, mon_client := s,
      mon_threads := (broadcast_if (push_broadcasts q) (mon_threads m))(t := Idle),
      mon_pushed := mon_pushed m @ [fst (q_copy (mon_queue m) d (mon_client m))]\<rparr>)"
| pull_waits: "mon_threads m t = Pulling \<Longrightarrow> queue_pull (mon_queue m) = Inl Blocks \<Longrightarrow>
    monitor_step m (m\<lparr>mon_threads := (mon_threads m)(t := Pull_waits)\<rparr>)"
| pull_runs: "mon_threads m t = Pulling \<Longrightarrow> queue_pull (mon_queue m) = Inr (d, q) \<Longrightarrow>
    monitor_step m (m\<lparr>mon_queue := q,
      mon_threads := (broadcast_if (pull_broadcasts q) (mon_threads m))(t := Has d),
      mon_pulled := mon_pulled m @ [d]\<rparr>)"
| wakes: "monitor_step m (m\<lparr>mon_threads := (mon_threads m)(t := woken (mon_threads m t))\<rparr>)"

inductive_cases monitor_stepE: "monitor_step m m'"

inductive monitor_reach :: "'s monitor \<Rightarrow> 's monitor \<Rightarrow> bool" for m0 where
  start: "monitor_reach m0 m0"
| step: "monitor_reach m0 m \<Longrightarrow> monitor_step m m' \<Longrightarrow> monitor_reach m0 m'"

definition initial_monitor ::
  "int \<Rightarrow> (ptr \<Rightarrow> 's \<Rightarrow> ptr \<times> 's) \<Rightarrow> (ptr \<Rightarrow> 's \<Rightarrow> 's) \<Rightarrow> 's \<Rightarrow> 's monitor" where
  "initial_monitor limit copy destr s = \<lparr>mon_queue = queue_create limit copy destr,
     mon_client = s, mon_threads = (\<lambda>_. Idle), mon_pushed = [], mon_pulled = []\<rparr>"

text \<open>A thread waits only while its condition is false: no wakeup is lost.\<close>

definition monitor_ok :: "'s monitor \<Rightarrow> bool" where
  "monitor_ok m \<longleftrightarrow> (\<exists>ds. queue_holds (mon_queue m) ds \<and> mon_pushed m = mon_pulled m @ ds
     \<and> (0 < max_size (mon_queue m) \<longrightarrow> int (length ds) \<le> max_size (mon_queue m))
     \<and> (\<forall>t. mon_threads m t = Pull_waits \<longrightarrow> ds = [])
     \<and> (\<forall>t d. mon_threads m t = Push_waits d \<longrightarrow> queue_full (mon_queue m)))"

lemma broadcast_waits:
  "broadcast_if b th t = Pull_waits \<longleftrightarrow> \<not> b \<and> th t = Pull_waits"
  "broadcast_if b th t = Push_waits d \<longleftrightarrow> \<not> b \<and> th t = Push_waits d"
  by (cases "th t"; simp add: broadcast_if_def)+

lemma woken_waits: "woken x \<noteq> Pull_waits" "woken x \<noteq> Push_waits d"
  by (cases x; simp)+

lemma monitor_threads_ok:
  assumes "monitor_ok m"
    "\<forall>t. th t = Pull_waits \<longrightarrow> mon_threads m t = Pull_waits \<or> q_size (mon_queue m) = 0"
    "\<forall>t d. th t = Push_waits d \<longrightarrow> (\<exists>e. mon_threads m t = Push_waits e) \<or> queue_full (mon_queue m)"
  shows "monitor_ok (m\<lparr>mon_threads := th\<rparr>)"
proof -
  obtain ds where ds: "queue_holds (mon_queue m) ds" "mon_pushed m = mon_pulled m @ ds"
    "0 < max_size (mon_queue m) \<longrightarrow> int (length ds) \<le> max_size (mon_queue m)"
    "\<forall>t. mon_threads m t = Pull_waits \<longrightarrow> ds = []"
    "\<forall>t d. mon_threads m t = Push_waits d \<longrightarrow> queue_full (mon_queue m)"
    using assms(1) by (auto simp: monitor_ok_def)
  have "q_size (mon_queue m) = 0 \<longrightarrow> ds = []" using queue_holds_size[OF ds(1)] by simp
  then have "\<forall>t. th t = Pull_waits \<longrightarrow> ds = []" using assms(2) ds(4) by blast
  moreover have "\<forall>t d. th t = Push_waits d \<longrightarrow> queue_full (mon_queue m)" using assms(3) ds(5) by blast
  ultimately show ?thesis unfolding monitor_ok_def using ds(1-3) by (intro exI[of _ ds]) simp
qed

lemma monitor_step_ok: "monitor_step m m' \<Longrightarrow> monitor_ok m \<Longrightarrow> monitor_ok m'"
proof (induction rule: monitor_step.induct)
  case (push_waits m t d)
  then have "queue_full (mon_queue m)"
    by (auto simp: queue_push_def link_node_def bindr_eq_Inl deref_def or_fault_def Let_def
        split: if_splits prod.splits option.splits)
  with push_waits show ?case by (intro monitor_threads_ok) (auto split: if_splits)
next
  case (push_runs m t d q s)
  obtain ds where ds: "queue_holds (mon_queue m) ds" "mon_pushed m = mon_pulled m @ ds"
    "0 < max_size (mon_queue m) \<longrightarrow> int (length ds) \<le> max_size (mon_queue m)"
    "\<forall>t. mon_threads m t = Pull_waits \<longrightarrow> ds = []"
    "\<forall>t d. mon_threads m t = Push_waits d \<longrightarrow> queue_full (mon_queue m)"
    using push_runs.prems by (auto simp: monitor_ok_def)
  have free: "\<not> queue_full (mon_queue m)" using push_runs(2) by (auto simp: queue_push_def)
  obtain p s' where c: "q_copy (mon_queue m) d (mon_client m) = (p, s')" by fastforce
  from ds(1) free c obtain q' where "queue_push (mon_queue m) d (mon_client m) = Inr (q', s')"
    "queue_holds q' (ds @ [p])" "max_size q' = max_size (mon_queue m)" by (rule queue_push_ok)
  then have q: "queue_holds q (ds @ [p])" "max_size q = max_size (mon_queue m)"
    using push_runs(2) by auto
  have "\<forall>t. mon_threads m t = Pull_waits \<longrightarrow> push_broadcasts q"
    using ds(4) queue_holds_size[OF q(1)] by (auto simp: push_broadcasts_def)
  moreover have "\<forall>t d. mon_threads m t \<noteq> Push_waits d" using ds(5) free by blast
  moreover have "0 < max_size q \<longrightarrow> int (length (ds @ [p])) \<le> max_size q"
    using ds(3) free q(2) queue_holds_size[OF ds(1)] by (auto simp: queue_full_def)
  ultimately show ?case unfolding monitor_ok_def using q(1) ds(2) c
    by (intro exI[of _ "ds @ [p]"]) (auto simp: broadcast_waits)
next
  case (pull_waits m t)
  then have "q_size (mon_queue m) = 0"
    by (auto simp: queue_pull_def bindr_eq_Inl deref_def or_fault_def Let_def
        split: if_splits option.splits)
  with pull_waits show ?case by (intro monitor_threads_ok) (auto split: if_splits)
next
  case (pull_runs m t d q)
  obtain ds where ds: "queue_holds (mon_queue m) ds" "mon_pushed m = mon_pulled m @ ds"
    "0 < max_size (mon_queue m) \<longrightarrow> int (length ds) \<le> max_size (mon_queue m)"
    "\<forall>t. mon_threads m t = Pull_waits \<longrightarrow> ds = []"
    "\<forall>t d. mon_threads m t = Push_waits d \<longrightarrow> queue_full (mon_queue m)"
    using pull_runs.prems by (auto simp: monitor_ok_def)
  have "ds \<noteq> []" using pull_runs(2) queue_holds_size[OF ds(1)] by (auto simp: queue_pull_def)
  then obtain e es where e: "ds = e # es" by (cases ds) auto
  from ds(1)[unfolded e] obtain q' where "queue_pull (mon_queue m) = Inr (e, q')"
    "queue_holds q' es" "max_size q' = max_size (mon_queue m)" by (rule queue_pull_ok)
  then have q: "d = e" "queue_holds q es" "max_size q = max_size (mon_queue m)"
    using pull_runs(2) by auto
  have "\<forall>t d. mon_threads m t = Push_waits d \<longrightarrow> pull_broadcasts q"
    using ds(5) queue_holds_size[OF q(2)] queue_holds_size[OF ds(1)] q(3) e
    by (auto simp: pull_broadcasts_def queue_full_def)
  moreover have "\<forall>t. mon_threads m t \<noteq> Pull_waits" using ds(4) e by blast
  ultimately show ?case unfolding monitor_ok_def using q ds(2,3) e
    by (intro exI[of _ es]) (auto simp: broadcast_waits)
next
  case (wakes m t)
  then show ?case by (intro monitor_threads_ok) (auto simp: woken_waits split: if_splits)
qed (auto intro!: monitor_threads_ok split: if_splits)

lemma initial_monitor_ok: "monitor_ok (initial_monitor limit copy destr s)"
  unfolding monitor_ok_def
  by (intro exI[of _ "[]"])
    (simp add: initial_monitor_def queue_create_holds)

lemma monitor_reach_ok: "monitor_reach m0 m \<Longrightarrow> monitor_ok m0 \<Longrightarrow> monitor_ok m"
  by (induction rule: monitor_reach.induct) (auto dest: monitor_step_ok)

end
