(* ===== verification/Worker_Net.thy ===== *)
theory Worker_Net
  imports Framing Task_Queue
begin

text \<open>
  \<^verbatim>\<open>worker.c\<close>: the loops that read and write the connection to the master, the handling of one request
  (header, size, program), and of one finished task (header, size, output). The connection is a
  blocking socket; only \<^verbatim>\<open>EINTR\<close> is retried. Memory that \<^verbatim>\<open>malloc\<close> returns or that is on the stack
  uninitialised is an argument \<open>raw\<close>.
\<close>

section \<open>Constants and structs\<close>

abbreviation (input) FILE_BUFFER_SIZE :: nat where "FILE_BUFFER_SIZE \<equiv> 4096"
abbreviation (input) PUT_REQUEST :: string where "PUT_REQUEST \<equiv> ''PUT''"
abbreviation (input) PUT_REQUEST_SIZE :: nat where "PUT_REQUEST_SIZE \<equiv> 3"
abbreviation (input) OUTPUT_FILE_FORMAT :: string where "OUTPUT_FILE_FORMAT \<equiv> ''_OUTPUT.OUTPUT''"
abbreviation (input) BAD_EXEC_MESSAGE :: string where "BAD_EXEC_MESSAGE \<equiv> ''Bad executable: ''"
abbreviation (input) NUM_THREAD :: nat where "NUM_THREAD \<equiv> 5"
abbreviation (input) HEARTBEAT_SIZE :: nat where "HEARTBEAT_SIZE \<equiv> 30"
abbreviation (input) MAX_CONCURRENT_TASK :: int where "MAX_CONCURRENT_TASK \<equiv> 15"

record task_t =
  input_filename :: "string option"
  output_filename :: "string option"
  output_fd :: int

definition retried_by_worker :: "errno \<Rightarrow> bool" where
  "retried_by_worker e \<longleftrightarrow> e = EINTR"

lemma retried_by_worker_simps [simp]:
  "retried_by_worker EINTR" "\<not> retried_by_worker EAGAIN" "\<not> retried_by_worker EBADF"
  "\<not> retried_by_worker EPIPE" "\<not> retried_by_worker EOTHER"
  by (simp_all add: retried_by_worker_def)

section \<open>Writing\<close>

text \<open>\<open>wrote\<close> bytes of the buffer are written.\<close>

function write_to_socket_loop :: "osys \<Rightarrow> int \<Rightarrow> char list \<Rightarrow> nat \<Rightarrow> int \<times> osys" where
  "write_to_socket_loop os socket_fd buffer wrote =
     (case sys_write os socket_fd (drop wrote buffer) of
        (WErr e, os') \<Rightarrow>
          if e \<noteq> EINTR then (- 1, os') else write_to_socket_loop os' socket_fd buffer wrote
      | (WCount byteWrote, os') \<Rightarrow>
          if byteWrote = 0 then (int wrote, os')
          else if length buffer \<le> wrote + byteWrote then (int (wrote + byteWrote), os')
          else write_to_socket_loop os' socket_fd buffer (wrote + byteWrote))"
  by pat_completeness auto
termination
  by (relation "measures [\<lambda>(os, fd, buffer, wrote). length buffer - wrote,
                          \<lambda>(os, fd, buffer, wrote). length (wplan os fd)]")
    (auto dest: sys_write_progress[OF sym])

declare write_to_socket_loop.simps [simp del]

definition write_to_socket :: "osys \<Rightarrow> int \<Rightarrow> char list \<Rightarrow> int \<times> osys" where
  "write_to_socket os socket_fd buffer = write_to_socket_loop os socket_fd buffer 0"

definition write_size_to_socket :: "osys \<Rightarrow> int \<Rightarrow> size_t \<Rightarrow> int \<times> osys" where
  "write_size_to_socket os socket_fd sz = write_to_socket os socket_fd (size_bytes sz)"

lemma write_to_socket_loop_complete:
  "fds os fd \<noteq> None \<Longrightarrow> offset_ok os fd \<Longrightarrow> willing retried_by_worker (wplan os fd) \<Longrightarrow>
    wrote \<le> length bs \<Longrightarrow> wrote = length bs \<longrightarrow> bs = [] \<Longrightarrow>
    \<exists>ps. write_to_socket_loop os fd bs wrote =
        (int (length bs), accept_bytes (set_wplan os fd ps) fd (drop wrote bs))
      \<and> willing retried_by_worker ps"
proof (induction os fd bs wrote rule: write_to_socket_loop.induct)
  case (1 os fd bs wrote)
  obtain r os' where w: "sys_write os fd (drop wrote bs) = (r, os')" by fastforce
  from w "1.prems"(1) show ?case
  proof (cases rule: sys_write_cases)
    case (refused e ps)
    then have e: "e = EINTR" "willing retried_by_worker ps" using "1.prems"(3) by (auto simp: retried_by_worker_def[of e])
    have "\<exists>qs. write_to_socket_loop os' fd bs wrote =
        (int (length bs), accept_bytes (set_wplan os' fd qs) fd (drop wrote bs))
      \<and> willing retried_by_worker qs"
      using "1.prems" refused e by (intro "1.IH"(2)[OF w[symmetric] refused(1)]) auto
    then show ?thesis using refused e(1) w by (subst write_to_socket_loop.simps) simp
  next
    case (counted n ps)
    note n = counted(4)[OF "1.prems"(3)]
    show ?thesis
    proof (cases "length bs \<le> wrote + n")
      case True
      then have all: "take n (drop wrote bs) = drop wrote bs" "wrote + n = length bs"
        using counted(2) "1.prems"(4) by auto
      show ?thesis
      proof (cases "n = 0")
        case z: True
        then have "bs = []" "wrote = 0" using n "1.prems"(4,5) all(2) by auto
        then show ?thesis using w counted(1,3) z n
          by (intro exI[of _ ps]) (simp add: write_to_socket_loop.simps[of os])
      next
        case False
        then show ?thesis using w counted(1,3) n all
          by (intro exI[of _ ps]) (simp add: write_to_socket_loop.simps[of os])
      qed
    next
      case False
      have nz: "n \<noteq> 0" using n False "1.prems"(4) by auto
      have "\<exists>qs. write_to_socket_loop os' fd bs (wrote + n) =
          (int (length bs), accept_bytes (set_wplan os' fd qs) fd (drop (wrote + n) bs))
        \<and> willing retried_by_worker qs"
        using "1.prems"(1,2) counted(3) n False
        by (intro "1.IH"(1)[OF w[symmetric] counted(1) nz False]) (auto simp: offset_ok_accept)
      moreover have "take n (drop wrote bs) @ drop (wrote + n) bs = drop wrote bs"
        by (metis append_take_drop_id drop_drop add.commute)
      ultimately show ?thesis using w counted(1,3) nz False
        by (subst write_to_socket_loop.simps) (auto simp: accept_bytes_set_wplan accept_bytes_append)
    qed
  qed
qed

lemma write_to_socket_loop_prefix:
  "fds os fd \<noteq> None \<Longrightarrow> offset_ok os fd \<Longrightarrow> write_to_socket_loop os fd bs wrote = (r, os') \<Longrightarrow>
    wrote \<le> length bs \<Longrightarrow>
    \<exists>n ps. n \<le> length bs - wrote \<and> os' = accept_bytes (set_wplan os fd ps) fd (take n (drop wrote bs))
      \<and> (r = - 1 \<or> r = int (wrote + n))"
proof (induction os fd bs wrote rule: write_to_socket_loop.induct)
  case (1 os fd bs wrote)
  obtain q os1 where w: "sys_write os fd (drop wrote bs) = (q, os1)" by fastforce
  note now = "1.prems"(3)[unfolded write_to_socket_loop.simps[of os] w]
  from w "1.prems"(1) show ?case
  proof (cases rule: sys_write_cases)
    case (refused e ps)
    show ?thesis
    proof (cases "e = EINTR")
      case True
      then have rec: "write_to_socket_loop os1 fd bs wrote = (r, os')" using now refused(1) by simp
      have "\<not> e \<noteq> EINTR" using True by simp
      from "1.IH"(2)[OF w[symmetric] refused(1) this _ _ rec "1.prems"(4)] refused(2) "1.prems"(1,2)
      show ?thesis by simp
    next
      case False
      then show ?thesis using now refused(1,2) "1.prems"(2)
        by (intro exI[of _ 0] exI[of _ ps]) auto
    qed
  next
    case (counted n ps)
    show ?thesis
    proof (cases "n = 0 \<or> length bs \<le> wrote + n")
      case True
      then show ?thesis using now counted(1-3)
        by (intro exI[of _ n] exI[of _ ps]) (auto split: if_splits)
    next
      case False
      then have nz: "n \<noteq> 0" "\<not> length bs \<le> wrote + n" by simp_all
      then have rec: "write_to_socket_loop os1 fd bs (wrote + n) = (r, os')"
        using now counted(1) by simp
      have "offset_ok os1 fd" "fds os1 fd \<noteq> None"
        using counted(3) "1.prems"(1,2) by (auto simp: offset_ok_accept)
      from "1.IH"(1)[OF w[symmetric] counted(1) nz this(2,1) rec] nz(2)
      obtain m qs where m: "m \<le> length bs - (wrote + n)"
        "os' = accept_bytes (set_wplan os1 fd qs) fd (take m (drop (wrote + n) bs))"
        "r = - 1 \<or> r = int (wrote + n + m)" by auto
      have "take n (drop wrote bs) @ take m (drop (wrote + n) bs) = take (n + m) (drop wrote bs)"
        by (simp add: take_add add.commute[of wrote n])
      then show ?thesis using m counted(2,3) nz(2)
        by (intro exI[of _ "n + m"] exI[of _ qs])
          (auto simp: accept_bytes_set_wplan accept_bytes_append)
    qed
  qed
qed

interpretation worker_writer: full_writer write_to_socket retried_by_worker
  by unfold_locales
    (use write_to_socket_loop_complete[where wrote = 0] write_to_socket_loop_prefix[where wrote = 0]
      in \<open>simp_all add: write_to_socket_def\<close>)

section \<open>Reading\<close>

function read_from_socket_loop ::
  "osys \<Rightarrow> int \<Rightarrow> nat \<Rightarrow> char list \<Rightarrow> (int \<times> char list \<times> osys) res" where
  "read_from_socket_loop os socket_fd count buffer =
     (case sys_read os socket_fd (count - length buffer) of
        (RBlock, os') \<Rightarrow> Inl Blocks
      | (RErr e, os') \<Rightarrow>
          if e \<noteq> EINTR then Inr (- 1, buffer, os')
          else read_from_socket_loop os' socket_fd count buffer
      | (RData bs, os') \<Rightarrow>
          if bs = [] then Inr (int (length buffer), buffer, os')
          else if count \<le> length (buffer @ bs) then Inr (int (length (buffer @ bs)), buffer @ bs, os')
          else read_from_socket_loop os' socket_fd count (buffer @ bs))"
  by pat_completeness auto
termination
  by (relation "measures [\<lambda>(os, fd, count, buffer). count - length buffer,
                          \<lambda>(os, fd, count, buffer). readable os fd]")
    (auto dest: sys_read_retry_progress[OF sym] simp: length_greater_0_conv[symmetric]
      simp del: length_greater_0_conv)

declare read_from_socket_loop.simps [simp del]

definition read_from_socket :: "osys \<Rightarrow> int \<Rightarrow> nat \<Rightarrow> (int \<times> char list \<times> osys) res" where
  "read_from_socket os socket_fd count = read_from_socket_loop os socket_fd count []"

lemma read_from_socket_loop_complete:
  "fds os fd = Some (Sock nb) \<Longrightarrow> length buf \<le> n \<Longrightarrow> length buf = n \<longrightarrow> buf = [] \<Longrightarrow>
    n - length buf \<le> length (stream retried_by_worker (incoming os fd)) \<Longrightarrow>
    \<exists>es. read_from_socket_loop os fd n buf = Inr (int n,
        buf @ take (n - length buf) (stream retried_by_worker (incoming os fd)), set_incoming os fd es)
      \<and> stream retried_by_worker es
        = drop (n - length buf) (stream retried_by_worker (incoming os fd))"
proof (induction os fd n buf rule: read_from_socket_loop.induct)
  case (1 os fd n buf)
  let ?str = "stream retried_by_worker"
  show ?case
  proof (cases "n = length buf")
    case True
    then have "sys_read os fd (n - length buf) = (RData [], os)"
      using "1.prems"(1) by (simp add: sys_read_def)
    then show ?thesis using True "1.prems"(3)
      by (intro exI[of _ "incoming os fd"])
        (simp add: read_from_socket_loop.simps[of os] set_incoming_same)
  next
    case False
    then have pos: "0 < n - length buf" using "1.prems"(2) by simp
    obtain q os1 where q: "sys_read os fd (n - length buf) = (q, os1)" by fastforce
    have ne: "?str (incoming os fd) \<noteq> []" using pos "1.prems"(4) by auto
    from q "1.prems"(1) pos ne show ?thesis
    proof (cases rule: sys_read_stream)
      case (retry e es)
      have "\<exists>es'. read_from_socket_loop os1 fd n buf = Inr (int n,
          buf @ take (n - length buf) (?str (incoming os1 fd)), set_incoming os1 fd es')
        \<and> ?str es' = drop (n - length buf) (?str (incoming os1 fd))"
        using "1.prems" retry retry(2)[unfolded retried_by_worker_def]
        by (intro "1.IH"(2)[OF q[symmetric] retry(1)]) auto
      then show ?thesis using retry(1,3,4) retry(2)[unfolded retried_by_worker_def] q
        by (subst read_from_socket_loop.simps) auto
    next
      case (bytes bs es)
      show ?thesis
      proof (cases "n \<le> length (buf @ bs)")
        case True
        then have "length bs = n - length buf" using bytes(3) by simp
        then show ?thesis using True bytes q "1.prems"(2)
          by (intro exI[of _ es]) (simp add: read_from_socket_loop.simps[of os])
      next
        case more: False
        have "\<exists>es'. read_from_socket_loop os1 fd n (buf @ bs) = Inr (int n,
            (buf @ bs) @ take (n - length (buf @ bs)) (?str (incoming os1 fd)),
            set_incoming os1 fd es')
          \<and> ?str es' = drop (n - length (buf @ bs)) (?str (incoming os1 fd))"
          using "1.prems"(1,4) bytes more
          by (intro "1.IH"(1)[OF q[symmetric] bytes(1,2) more]) auto
        then show ?thesis using bytes q more
          by (subst read_from_socket_loop.simps) auto
      qed
    qed
  qed
qed

lemma read_from_socket_loop_bounded:
  "read_from_socket_loop os fd n buf = Inr (r, bs, os') \<Longrightarrow> length buf \<le> n \<Longrightarrow>
    length bs \<le> n \<and> (r = - 1 \<or> r = int (length bs))"
proof (induction os fd n buf rule: read_from_socket_loop.induct)
  case (1 os fd n buf)
  obtain q os1 where q: "sys_read os fd (n - length buf) = (q, os1)" by fastforce
  note now = "1.prems"(1)[unfolded read_from_socket_loop.simps[of os] q]
  show ?case
  proof (cases q)
    case (RData cs)
    have len: "length (buf @ cs) \<le> n" using sys_read_length[OF q[unfolded RData]] "1.prems"(2) by simp
    then show ?thesis using now RData "1.IH"(1)[OF q[symmetric] RData] "1.prems"(2)
      by (auto split: if_splits)
  next
    case (RErr e)
    then show ?thesis using now "1.IH"(2)[OF q[symmetric] RErr] "1.prems"(2)
      by (auto split: if_splits)
  qed (use now in auto)
qed

interpretation worker_reader: full_reader read_from_socket retried_by_worker
proof unfold_locales
  fix os :: osys and fd nb n
  assume "fds os fd = Some (Sock nb)" "n \<le> length (stream retried_by_worker (incoming os fd))"
  with read_from_socket_loop_complete[of os fd nb "[]" n]
  show "\<exists>es. read_from_socket os fd n = Inr (int n,
      take n (stream retried_by_worker (incoming os fd)), set_incoming os fd es)
    \<and> stream retried_by_worker es = drop n (stream retried_by_worker (incoming os fd))"
    by (simp add: read_from_socket_def)
next
  fix os :: osys and fd n r bs os'
  assume "read_from_socket os fd n = Inr (r, bs, os')"
  then show "length bs \<le> n \<and> (r = - 1 \<or> r = int (length bs))"
    using read_from_socket_loop_bounded[of os fd n "[]"] by (simp add: read_from_socket_def)
qed

end
