(* ===== verification/Worker_Tasks.thy ===== *)
theory Worker_Tasks
  imports Worker_Net Doubles
begin

text \<open>
  The worker's requests and results: files sent and received in blocks of 4096 bytes, the header line
  and the file name in it, one turn of the request loop of \<^verbatim>\<open>worker_main\<close>, of \<^verbatim>\<open>sending\<close> and of
  \<^verbatim>\<open>tasking\<close>.
\<close>

section \<open>Files over the connection\<close>

text \<open>\<^verbatim>\<open>read(local_file_fd, buffer, n)\<close> with its result ignored: what was read overlays the buffer.\<close>

definition fill_buffer :: "osys \<Rightarrow> int \<Rightarrow> char list \<Rightarrow> nat \<Rightarrow> char list \<times> osys" where
  "fill_buffer os fd buffer n =
     (case sys_read os fd n of
        (RData bs, os') \<Rightarrow> (bs @ drop (length bs) buffer, os')
      | (_, os') \<Rightarrow> (buffer, os'))"

text \<open>A short count from \<^verbatim>\<open>write_to_socket\<close> makes the loop go on with the next part of the file. The
  loop ends with \<open>None\<close> when it would run for ever.\<close>

partial_function (option) write_file_loop ::
  "osys \<Rightarrow> int \<Rightarrow> int \<Rightarrow> char list \<Rightarrow> size_t \<Rightarrow> size_t \<Rightarrow> (int \<times> osys) option" where
  "write_file_loop os socket_fd local_file_fd buffer remain_size totalByteWrote =
     (if remain_size > 0 then
        (let count = (if 4096 \<le> remain_size then FILE_BUFFER_SIZE else unat remain_size);
             (buffer, os) = fill_buffer os local_file_fd buffer count;
             (byteWrote, os) = write_to_socket os socket_fd (take count buffer) in
         if byteWrote = - 1 then Some (- 1, os)
         else write_file_loop os socket_fd local_file_fd buffer
           (remain_size - of_int byteWrote) (totalByteWrote + of_int byteWrote))
      else Some (sint totalByteWrote, os))"

definition write_file_to_socket ::
  "osys \<Rightarrow> int \<Rightarrow> int \<Rightarrow> char list \<Rightarrow> size_t \<Rightarrow> (int \<times> osys) res" where
  "write_file_to_socket os socket_fd local_file_fd raw local_file_size =
     or_fault Diverges (write_file_loop os socket_fd local_file_fd raw local_file_size 0)"

text \<open>The results of the writes to the local file are ignored.\<close>

partial_function (option) read_file_loop ::
  "osys \<Rightarrow> int \<Rightarrow> int \<Rightarrow> size_t \<Rightarrow> size_t \<Rightarrow> (int \<times> osys) res option" where
  "read_file_loop os socket_fd local_file_fd remain_size totalByteRead =
     (case read_from_socket os socket_fd
             (if 4096 \<le> remain_size then FILE_BUFFER_SIZE else unat remain_size) of
        Inl e \<Rightarrow> Some (Inl e)
      | Inr (byteRead, buffer, os) \<Rightarrow>
          if byteRead = - 1 then Some (Inr (- 1, os))
          else
            (let remain_size = remain_size - of_int byteRead;
                 totalByteRead = totalByteRead + of_int byteRead;
                 (_, os) = sys_write os local_file_fd buffer in
             if remain_size = 0 then Some (Inr (sint totalByteRead, os))
             else read_file_loop os socket_fd local_file_fd remain_size totalByteRead))"

definition read_file_from_socket :: "osys \<Rightarrow> int \<Rightarrow> int \<Rightarrow> size_t \<Rightarrow> (int \<times> osys) res" where
  "read_file_from_socket os socket_fd local_file_fd count =
     bindr (or_fault Diverges (read_file_loop os socket_fd local_file_fd count 0)) (\<lambda>r. r)"

text \<open>Bytes of the size that did not arrive keep the value of the variable.\<close>

definition read_size_from_socket ::
  "osys \<Rightarrow> int \<Rightarrow> size_t \<Rightarrow> (int \<times> size_t \<times> osys) res" where
  "read_size_from_socket os socket_fd raw =
     bindr (read_from_socket os socket_fd 8) (\<lambda>(byteRead, bs, os).
       Inr (byteRead, bytes_size (bs @ drop (length bs) (size_bytes raw)), os))"

section \<open>The header line\<close>

text \<open>The buffer grows with the line; it is not terminated.\<close>

function read_line_loop :: "osys \<Rightarrow> int \<Rightarrow> char list \<Rightarrow> (int \<times> char list \<times> osys) res" where
  "read_line_loop os socket_fd buffer =
     (case sys_read os socket_fd 1 of
        (RBlock, os') \<Rightarrow> Inl Blocks
      | (RErr e, os') \<Rightarrow>
          if e \<noteq> EINTR then Inr (- 1, buffer, os') else read_line_loop os' socket_fd buffer
      | (RData [], os') \<Rightarrow> Inr (int (length buffer), buffer, os')
      | (RData (c # _), os') \<Rightarrow>
          if c = NEWLINE then Inr (int (length (buffer @ [c])), buffer @ [c], os')
          else read_line_loop os' socket_fd (buffer @ [c]))"
  by pat_completeness auto
termination
  by (relation "measure (\<lambda>(os, fd, buffer). readable os fd)")
    (auto dest: sys_read_retry_progress[OF sym] sys_read_data_progress[OF sym])

declare read_line_loop.simps [simp del]

definition read_line_from_socket :: "osys \<Rightarrow> int \<Rightarrow> (int \<times> char list \<times> osys) res" where
  "read_line_from_socket os socket_fd = read_line_loop os socket_fd []"

text \<open>The size is computed in \<^verbatim>\<open>size_t\<close> and read as \<^verbatim>\<open>ssize_t\<close>.\<close>

definition get_filename_from_header :: "char list \<Rightarrow> size_t \<Rightarrow> size_t \<Rightarrow> string option" where
  "get_filename_from_header header header_size verb_size =
     (let name_size = sint (header_size - verb_size - 2) in
      if name_size < 0 then None
      else Some (cstr (take (nat name_size) (drop (unat verb_size + 1) header))))"

definition create_header :: "string \<Rightarrow> string" where
  "create_header filename = PUT_REQUEST @ '' '' @ filename @ [NEWLINE]"

definition create_output_file :: "osys \<Rightarrow> string \<Rightarrow> int \<times> string \<times> osys" where
  "create_output_file os input =
     (let buffer = input @ OUTPUT_FILE_FORMAT; (fd, os') = sys_open_trunc os buffer
      in (fd, buffer, os'))"

section \<open>One request\<close>

definition read_file :: "osys \<Rightarrow> int \<Rightarrow> size_t \<Rightarrow> string \<Rightarrow> osys res" where
  "read_file os socket_fd raw local_path =
     bindr (read_size_from_socket os socket_fd raw) (\<lambda>(r, file_size, os).
     if r = - 1 then Inl (Exits (- 1))
     else (let (local_file_fd, os) = sys_open_trunc os local_path in
       if local_file_fd = - 1 then Inl (Exits (- 1))
       else bindr (read_file_from_socket os socket_fd local_file_fd file_size) (\<lambda>(r, os).
         if r < 0 then Inl (Exits (- 1)) else Inr (sys_close os local_file_fd))))"

datatype request = Stop | Skip | New_task task_t

text \<open>One turn of the loop of \<^verbatim>\<open>worker_main\<close>; \<open>quitting\<close> is the value of the flag after the line was
  read. A line of fewer than three bytes (the connection ended in it) is compared with what else the
  buffer holds, but either way it is skipped: it is too short for a name.\<close>

definition worker_request :: "bool \<Rightarrow> osys \<Rightarrow> int \<Rightarrow> size_t \<Rightarrow> (request \<times> osys) res" where
  "worker_request quitting os socket_fd raw =
     bindr (read_line_from_socket os socket_fd) (\<lambda>(byteRead, request, os).
     if quitting then Inr (Stop, os)
     else if byteRead = - 1 then Inl (Exits (- 1))
     else if byteRead = 0 then Inr (Stop, os)
     else if \<not> starts_with PUT_REQUEST request then Inr (Skip, os)
     else (case get_filename_from_header request (of_int byteRead) (of_nat PUT_REQUEST_SIZE) of
        None \<Rightarrow> Inr (Skip, os)
      | Some filename \<Rightarrow>
          bindr (read_file os socket_fd raw filename) (\<lambda>os.
            let (fd, out, os) = create_output_file os filename in
            Inr (New_task \<lparr>input_filename = Some filename, output_filename = Some out,
                           output_fd = fd\<rparr>, os))))"

section \<open>One finished task\<close>

text \<open>One turn of \<^verbatim>\<open>sending\<close>: \<open>True\<close> when the thread goes on.\<close>

definition send_result :: "osys \<Rightarrow> int \<Rightarrow> char list \<Rightarrow> task_t \<Rightarrow> (bool \<times> osys) res" where
  "send_result os socket_fd raw task =
     (case input_filename task of
        None \<Rightarrow> Inr (False, os)
      | Some name \<Rightarrow>
          (let (r1, os) = write_to_socket os socket_fd (create_header name) in
           if r1 = - 1 then Inr (False, os)
           else
             (let (file_size, os) = seek_end os (output_fd task);
                  os = seek_start os (output_fd task);
                  (r2, os) = write_size_to_socket os socket_fd (of_int file_size) in
              if r2 = - 1 then Inr (False, os)
              else bindr (write_file_to_socket os socket_fd (output_fd task) raw (of_int file_size))
                (\<lambda>(r3, os).
                  if r3 = - 1 then Inr (False, os)
                  else Inr (True, sys_close os (output_fd task))))))"

section \<open>Running a task\<close>

text \<open>The command line goes into a buffer of 1024 bytes. \<open>run\<close> is the system's \<^verbatim>\<open>system\<close>: its result,
  and what the program did to the system.\<close>

definition command_line :: "string \<Rightarrow> string \<Rightarrow> string" where
  "command_line exe out = ''./'' @ exe @ '' >'' @ out @ '' 2>&1''"

definition run_task ::
  "(string \<Rightarrow> osys \<Rightarrow> int \<times> osys) \<Rightarrow> osys \<Rightarrow> task_t \<Rightarrow> (bool \<times> osys) res" where
  "run_task run os task =
     (case input_filename task of
        None \<Rightarrow> Inr (False, os)
      | Some executable_name \<Rightarrow>
          bindr (or_fault Null_deref (output_filename task)) (\<lambda>out.
            let cmd = command_line executable_name out in
            if 1024 < length cmd + 1 then Inl Out_of_bounds
            else
              (let (r, os) = run cmd os in
               if r = - 1 then
                 (let (_, os) = sys_write os (output_fd task) BAD_EXEC_MESSAGE;
                      (_, os) = sys_write os (output_fd task) (executable_name @ [NUL])
                  in Inr (True, os))
               else Inr (True, os))))"

section \<open>Heartbeats\<close>

text \<open>The load between two readings \<open>a\<close> and \<open>b\<close> of the four counters of \<^verbatim>\<open>/proc/stat\<close>; an unreadable
  file gives -1. The text of \<^verbatim>\<open>sprintf("%f")\<close> is not modelled.\<close>

definition get_local_usage :: "(dbl \<times> dbl \<times> dbl \<times> dbl) option \<Rightarrow> (dbl \<times> dbl \<times> dbl \<times> dbl) option \<Rightarrow> dbl"
  where
  "get_local_usage a b = (case (a, b) of
     (Some (a0, a1, a2, a3), Some (b0, b1, b2, b3)) \<Rightarrow>
       dbl_div ((b0 + b1 + b2) - (a0 + a1 + a2)) ((b0 + b1 + b2 + b3) - (a0 + a1 + a2 + a3))
   | _ \<Rightarrow> Num (- 1))"

text \<open>\<^verbatim>\<open>sprintf("%f")\<close> is an argument, and so is \<^verbatim>\<open>sendto\<close>. The text goes into a buffer of the size of a
  datagram.\<close>

definition send_heartbeat ::
  "(dbl \<Rightarrow> string) \<Rightarrow> (char list \<Rightarrow> int) \<Rightarrow> char list \<Rightarrow> dbl \<Rightarrow> int res" where
  "send_heartbeat format sendto raw cpu_usage =
     (let message = format cpu_usage @ [NUL] in
      if HEARTBEAT_SIZE < length message then Inl Out_of_bounds
      else if sendto (message @ drop (length message) raw) < 0 then Inr (- 1) else Inr 0)"

end
