(* ===== verification/Worker_Props.thy ===== *)
theory Worker_Props
  imports Worker_Tasks
begin

text \<open>
  What the worker's transfers do: a result is sent as one frame, a request is read exactly and its
  program stored; and what they do when the master closes the connection in the middle of a file.
\<close>

section \<open>Sending a file\<close>

lemma chunk_facts:
  fixes r :: size_t
  defines "k \<equiv> (if 4096 \<le> r then FILE_BUFFER_SIZE else unat r)"
  shows "k \<le> unat r" "k \<le> 4096" "0 < r \<Longrightarrow> 0 < k" "unat (r - of_nat k) = unat r - k"
    "0 < r \<Longrightarrow> unat (r - of_nat k) < unat r"
proof -
  show k: "k \<le> unat r" "k \<le> 4096" by (auto simp: k_def word_le_nat_alt)
  show pos: "0 < r \<Longrightarrow> 0 < k" by (auto simp: k_def word_less_nat_alt)
  have "unat (of_nat k :: size_t) = k" using k(2) by (intro unat_of_nat_small) simp
  then show u: "unat (r - of_nat k) = unat r - k"
    using k(1) by (simp add: unat_sub_small word_le_nat_alt)
  show "0 < r \<Longrightarrow> unat (r - of_nat k) < unat r" using u pos k(1) by linarith
qed

lemma fill_buffer_file:
  assumes "fds os fd = Some (File f off)" "incoming os fd = []"
    "n \<le> length (drop off (file_bytes os f))"
  shows "fill_buffer os fd buffer n = (take n (drop off (file_bytes os f)) @ drop n buffer,
    os\<lparr>fds := (fds os)(fd \<mapsto> File f (off + n))\<rparr>)"
proof -
  have "length (take n (drop off (file_bytes os f))) = n" using assms(3) by simp
  then show ?thesis using assms(1,2) by (simp add: fill_buffer_def sys_read_def Let_def)
qed

lemma write_file_loop_whole:
  assumes "fds os src = Some (File f off)" "incoming os src = []" "fds os dst = Some (Sock nb)"
    "willing retried_by_worker (wplan os dst)" "unat r \<le> length (drop off (file_bytes os f))"
  shows "\<exists>os'. write_file_loop os dst src buffer r t = Some (sint (t + r), os')
    \<and> sent os' dst = sent os dst @ take (unat r) (drop off (file_bytes os f))"
  using assms
proof (induction "unat r" arbitrary: os off buffer r t rule: less_induct)
  case less
  show ?case
  proof (cases "0 < r")
    case False
    then have "r = 0" by (simp add: word_greater_zero_iff)
    then show ?thesis by (simp add: write_file_loop.simps)
  next
    case True
    define k where "k = (if 4096 \<le> r then FILE_BUFFER_SIZE else unat r)"
    note k = chunk_facts[of r, folded k_def]
    let ?data = "drop off (file_bytes os f)"
    let ?bs = "take k ?data" and ?os1 = "os\<lparr>fds := (fds os)(src \<mapsto> File f (off + k))\<rparr>"
    have len: "length ?bs = k" using k(1) less.prems(5) by simp
    have fill: "fill_buffer os src buffer k = (?bs @ drop k buffer, ?os1)"
      using less.prems(1,2,5) k(1) by (intro fill_buffer_file) auto
    have apart: "src \<noteq> dst" using less.prems(1,3) by auto
    have "fds ?os1 dst \<noteq> None" "offset_ok ?os1 dst" "willing retried_by_worker (wplan ?os1 dst)"
      using less.prems(3,4) apart by (auto simp: offset_ok_def)
    from worker_writer.complete[OF this, of ?bs] len obtain ps where
      w: "write_to_socket ?os1 dst ?bs = (int k, accept_bytes (set_wplan ?os1 dst ps) dst ?bs)"
      "willing retried_by_worker ps" by auto
    let ?os2 = "accept_bytes (set_wplan ?os1 dst ps) dst ?bs"
    have os2: "?os2 = (set_wplan ?os1 dst ps)\<lparr>sent := (sent os)(dst := sent os dst @ ?bs)\<rparr>"
      using less.prems(3) apart by (simp add: io_simps)
    have stays: "file_bytes ?os2 f = file_bytes os f" unfolding os2 by (simp add: file_bytes_def)
    have "\<exists>os'. write_file_loop ?os2 dst src (?bs @ drop k buffer) (r - of_nat k) (t + of_nat k)
        = Some (sint ((t + of_nat k) + (r - of_nat k)), os')
      \<and> sent os' dst = sent ?os2 dst
          @ take (unat (r - of_nat k)) (drop (off + k) (file_bytes ?os2 f))"
    proof (rule less.hyps)
      show "unat (r - of_nat k) < unat r" using k(5) True by simp
      show "unat (r - of_nat k) \<le> length (drop (off + k) (file_bytes ?os2 f))"
        using k(4) less.prems(5) stays by simp
      show "fds ?os2 src = Some (File f (off + k))" "incoming ?os2 src = []"
        "fds ?os2 dst = Some (Sock nb)" "willing retried_by_worker (wplan ?os2 dst)"
        using less.prems(2,3) w(2) apart unfolding os2 by simp_all
    qed
    then obtain os' where os': "write_file_loop ?os2 dst src (?bs @ drop k buffer) (r - of_nat k)
        (t + of_nat k) = Some (sint (t + r), os')"
      "sent os' dst = sent ?os2 dst @ take (unat r - k) (drop (off + k) (file_bytes os f))"
      using k(4) stays by auto
    have "write_file_loop os dst src buffer r t = Some (sint (t + r), os')"
      using True fill w(1) os'(1) len
      by (subst write_file_loop.simps) (simp add: k_def[symmetric] Let_def)
    moreover have "?bs @ take (unat r - k) (drop (off + k) (file_bytes os f)) = take (unat r) ?data"
      using k(1) by (metis take_add drop_drop add.commute le_add_diff_inverse)
    moreover have "sent ?os2 dst = sent os dst @ ?bs" unfolding os2 by simp
    ultimately show ?thesis using os'(2) by simp
  qed
qed

text \<open>A result: header, size, contents.\<close>

definition result_frame :: "string \<Rightarrow> char list \<Rightarrow> char list" where
  "result_frame name c = create_header name @ size_bytes (of_nat (length c)) @ c"

lemma send_result_whole:
  assumes "input_filename task = Some name" "fds os fd = Some (Sock nb)"
    "fds os (output_fd task) = Some (File f off)" "disk os f = Some c" "length c < 2 ^ 63"
    "willing retried_by_worker (wplan os fd)" "incoming os (output_fd task) = []"
  shows "\<exists>os'. send_result os fd raw task = Inr (True, os')
    \<and> sent os' fd = sent os fd @ result_frame name c \<and> fds os' (output_fd task) = None"
proof -
  let ?out = "output_fd task" and ?h = "create_header name"
    and ?s = "size_bytes (of_nat (length c))"
  have apart: "?out \<noteq> fd" using assms(2,3) by auto
  have "fds os fd \<noteq> None" "offset_ok os fd" using assms(2) by (simp_all add: offset_ok_def)
  from worker_writer.complete[OF this assms(6), of ?h] obtain ps where w1:
    "write_to_socket os fd ?h = (int (length ?h), accept_bytes (set_wplan os fd ps) fd ?h)"
    "willing retried_by_worker ps" by blast
  let ?os1 = "accept_bytes (set_wplan os fd ps) fd ?h"
  have os1: "?os1 = (set_wplan os fd ps)\<lparr>sent := (sent os)(fd := sent os fd @ ?h)\<rparr>"
    using assms(2) by (simp add: io_simps)
  have end1: "seek_end ?os1 ?out = (int (length c),
      ?os1\<lparr>fds := (fds os)(?out \<mapsto> File f (length c))\<rparr>)"
    using assms(3,4) unfolding os1 by (simp add: seek_end_def file_bytes_def)
  let ?os2 = "?os1\<lparr>fds := (fds os)(?out \<mapsto> File f 0)\<rparr>"
  have start: "seek_start (?os1\<lparr>fds := (fds os)(?out \<mapsto> File f (length c))\<rparr>) ?out = ?os2"
    by (simp add: seek_start_def)
  have "fds ?os2 fd \<noteq> None" "offset_ok ?os2 fd" "willing retried_by_worker (wplan ?os2 fd)"
    using assms(2) apart w1(2) by (simp_all add: offset_ok_def)
  from worker_writer.complete[OF this, of ?s] obtain qs where w2:
    "write_to_socket ?os2 fd ?s = (8, accept_bytes (set_wplan ?os2 fd qs) fd ?s)"
    "willing retried_by_worker qs" by auto
  let ?os3 = "accept_bytes (set_wplan ?os2 fd qs) fd ?s"
  have os3: "?os3 = (set_wplan ?os2 fd qs)\<lparr>sent := (sent os)(fd := sent os fd @ ?h @ ?s)\<rparr>"
    using assms(2) apart unfolding os1 by (simp add: io_simps)
  have u: "unat (of_nat (length c) :: size_t) = length c"
    using assms(5) by (intro unat_of_nat_small) simp
  have f3: "fds ?os3 ?out = Some (File f 0)" "incoming ?os3 ?out = []" "fds ?os3 fd = Some (Sock nb)"
    "willing retried_by_worker (wplan ?os3 fd)" "file_bytes ?os3 f = c"
    using assms(2,4,7) apart w2(2) unfolding os3 unfolding os1 by (simp_all add: file_bytes_def)
  from write_file_loop_whole[OF f3(1-4), of "of_nat (length c)" raw 0] f3(5) u
  obtain os' where w3: "write_file_loop ?os3 fd ?out raw (of_nat (length c)) 0
      = Some (sint (of_nat (length c) :: size_t), os')" "sent os' fd = sent ?os3 fd @ c" by auto
  have "sint (of_nat (length c) :: size_t) = int (length c)" using assms(5) by (rule sint_small)
  then have "send_result os fd raw task = Inr (True, sys_close os' ?out)"
    using assms(1) w1(1) end1 start w2(1) w3(1)
    by (simp add: send_result_def write_size_to_socket_def write_file_to_socket_def Let_def)
  moreover have "sent (sys_close os' ?out) fd = sent os fd @ result_frame name c"
    using w3(2) unfolding os3 by (simp add: sys_close_def result_frame_def)
  ultimately show ?thesis by (simp add: sys_close_def)
qed

section \<open>Receiving a file\<close>

lemma read_file_loop_whole:
  assumes "fds os fd = Some (Sock nb)" "fds os dst = Some (File f off)" "offset_ok os dst"
    "wplan os dst = []" "unat r \<le> length (stream retried_by_worker (incoming os fd))"
  shows "\<exists>es. read_file_loop os fd dst r t = Some (Inr (sint (t + r),
      set_incoming (accept_bytes os dst (take (unat r) (stream retried_by_worker (incoming os fd)))) fd es))
    \<and> stream retried_by_worker es = drop (unat r) (stream retried_by_worker (incoming os fd))"
  using assms
proof (induction "unat r" arbitrary: os off r t rule: less_induct)
  case less
  let ?str = "stream retried_by_worker (incoming os fd)"
  define k where "k = (if 4096 \<le> r then FILE_BUFFER_SIZE else unat r)"
  note k = chunk_facts[of r, folded k_def]
  have apart: "fd \<noteq> dst" using less.prems(1,2) by auto
  obtain es where rd: "read_from_socket os fd k = Inr (int k, take k ?str, set_incoming os fd es)"
    "stream retried_by_worker es = drop k ?str"
    using worker_reader.complete[OF less.prems(1), of k] k(1) less.prems(5) by auto
  have klen: "length (take k ?str) = k" using k(1) less.prems(5) by simp
  let ?os1 = "set_incoming os fd es"
  let ?os2 = "accept_bytes ?os1 dst (take k ?str)"
  have w: "sys_write ?os1 dst (take k ?str) = (WCount k, ?os2)"
    using less.prems(2,4) klen by (simp add: sys_write_def)
  have swap: "accept_bytes (set_incoming os' fd es') dst bs
      = set_incoming (accept_bytes os' dst bs) fd es'" for os' es' bs
    by (auto simp: accept_bytes_def set_incoming_def file_bytes_def
        split: option.split fd_kind.split)
  show ?case
  proof (cases "r - of_nat k = 0")
    case True
    then have "unat r - k = 0" using k(4) by simp
    then have "k = unat r" using k(1) by simp
    moreover have "0 \<le> uint r" by simp
    then have "uint r \<noteq> - 1" by linarith
    ultimately show ?thesis using True rd w
      by (intro exI[of _ es], subst read_file_loop.simps)
        (simp add: k_def[symmetric] Let_def swap)
  next
    case False
    then have pos: "0 < r" using k(1) by (cases "r = 0") (auto simp: word_greater_zero_iff)
    have "\<exists>es'. read_file_loop ?os2 fd dst (r - of_nat k) (t + of_nat k)
        = Some (Inr (sint ((t + of_nat k) + (r - of_nat k)), set_incoming (accept_bytes ?os2 dst
            (take (unat (r - of_nat k)) (stream retried_by_worker (incoming ?os2 fd)))) fd es'))
      \<and> stream retried_by_worker es'
        = drop (unat (r - of_nat k)) (stream retried_by_worker (incoming ?os2 fd))"
    proof (rule less.hyps)
      show "unat (r - of_nat k) < unat r" using k(5) pos by simp
      show "unat (r - of_nat k) \<le> length (stream retried_by_worker (incoming ?os2 fd))"
        using k(4) less.prems(5) rd(2) by simp
      show "fds ?os2 dst = Some (File f (off + k))" "fds ?os2 fd = Some (Sock nb)"
        using less.prems(1,2) klen apart by (simp_all add: accept_bytes_def)
    qed (use less.prems(3,4) in \<open>simp_all add: offset_ok_accept\<close>)
    then obtain es' where es': "read_file_loop ?os2 fd dst (r - of_nat k) (t + of_nat k)
        = Some (Inr (sint (t + r), set_incoming (accept_bytes ?os2 dst
            (take (unat r - k) (drop k ?str))) fd es'))"
      "stream retried_by_worker es' = drop (unat r - k) (drop k ?str)"
      using k(4) rd(2) by auto
    have all: "take k ?str @ take (unat r - k) (drop k ?str) = take (unat r) ?str"
      "drop (unat r - k) (drop k ?str) = drop (unat r) ?str"
      using k(1) by (simp_all add: take_add[symmetric])
    have "read_file_loop os fd dst r t = read_file_loop ?os2 fd dst (r - of_nat k) (t + of_nat k)"
      using rd(1) w False
      by (subst read_file_loop.simps) (simp add: k_def[symmetric] Let_def)
    then show ?thesis using es' all by (auto simp: swap accept_bytes_append)
  qed
qed

lemma read_size_whole:
  assumes "fds os fd = Some (Sock nb)"
    "stream retried_by_worker (incoming os fd) = size_bytes n @ rest"
  obtains es where "read_size_from_socket os fd raw = Inr (8, n, set_incoming os fd es)"
    "stream retried_by_worker es = rest"
  using worker_reader.read_field[OF assms] that by (auto simp: read_size_from_socket_def)

lemma read_line_whole:
  assumes "fds os fd = Some (Sock nb)" "NEWLINE \<notin> set line"
    "stream retried_by_worker (incoming os fd) = line @ NEWLINE # rest"
  shows "\<exists>es. read_line_loop os fd buf = Inr (int (length (buf @ line @ [NEWLINE])),
      buf @ line @ [NEWLINE], set_incoming os fd es) \<and> stream retried_by_worker es = rest"
  using assms
proof (induction "arrivals_size (incoming os fd)" arbitrary: os line buf rule: less_induct)
  case less
  obtain r os' where r: "sys_read os fd 1 = (r, os')" by fastforce
  obtain b bs where b: "line @ NEWLINE # rest = b # bs" by (cases line) auto
  from r less.prems(1) less.prems(3)[unfolded b] show ?case
  proof (cases rule: sys_read_byte)
    case (retry e es)
    have "\<exists>es'. read_line_loop os' fd buf = Inr (int (length (buf @ line @ [NEWLINE])),
        buf @ line @ [NEWLINE], set_incoming os' fd es') \<and> stream retried_by_worker es' = rest"
      using less.prems retry b by (intro less.hyps) auto
    then show ?thesis using retry(1,3) retry(2)[unfolded retried_by_worker_def] r
      by (subst read_line_loop.simps) auto
  next
    case (byte es)
    show ?thesis
    proof (cases line)
      case Nil
      with byte b r show ?thesis by (subst read_line_loop.simps) auto
    next
      case (Cons c line')
      then have c: "c = b" "bs = line' @ NEWLINE # rest" using b by auto
      have small: "arrivals_size es < arrivals_size (incoming os fd)"
        using sys_read_data_progress[OF r[unfolded byte(1)]] byte(2) less.prems(1)
        by (simp add: readable_def)
      have "\<exists>es'. read_line_loop os' fd (buf @ [b]) = Inr (int (length ((buf @ [b]) @ line' @ [NEWLINE])),
          (buf @ [b]) @ line' @ [NEWLINE], set_incoming os' fd es')
        \<and> stream retried_by_worker es' = rest"
        using less.prems byte c Cons small by (intro less.hyps) auto
      then show ?thesis using byte(1,2) r Cons c(1) less.prems(2)
        by (subst read_line_loop.simps) auto
    qed
  qed
qed

section \<open>One request\<close>

text \<open>The name is what stands between the verb and the newline.\<close>

lemma get_filename_line:
  assumes "NUL \<notin> set name" "length name < 2 ^ 60"
  shows "get_filename_from_header (create_header name) (of_nat (length (create_header name)))
    (of_nat PUT_REQUEST_SIZE) = Some name"
proof -
  have "(of_nat (length (create_header name)) :: size_t) - 3 - 2 = of_nat (length name)"
    by (simp add: create_header_def)
  moreover have "sint (of_nat (length name) :: size_t) = int (length name)"
    using assms(2) by (intro sint_small) simp
  moreover have "cstr name = name" using assms(1) by (rule cstr_id)
  ultimately show ?thesis by (simp add: get_filename_from_header_def create_header_def)
qed

text \<open>A line shorter than a verb, a space and a newline has no name.\<close>

lemma get_filename_short:
  assumes "length header < 5"
  shows "get_filename_from_header header (of_nat (length header)) 3 = None"
proof -
  consider "length header = 0" | "length header = 1" | "length header = 2" | "length header = 3"
    | "length header = 4" using assms by linarith
  then show ?thesis by cases (simp_all add: get_filename_from_header_def)
qed

lemma read_file_whole:
  assumes "fds os fd = Some (Sock nb)" "length body < 2 ^ 63"
    "stream retried_by_worker (incoming os fd) = size_bytes (of_nat (length body)) @ body @ rest"
    "\<not> denied os name" "next_fd os \<noteq> fd" "0 \<le> next_fd os"
  obtains os' where "read_file os fd raw name = Inr os'" "disk os' = (disk os)(name \<mapsto> body)"
    "fds os' = (fds os)(next_fd os := None)" "next_fd os' = next_fd os + 1"
    "denied os' = denied os" "sent os' = sent os" "wplan os' fd = wplan os fd"
    "stream retried_by_worker (incoming os' fd) = rest"
proof -
  let ?n = "of_nat (length body) :: size_t" and ?new = "next_fd os"
  obtain es where s: "read_size_from_socket os fd raw = Inr (8, ?n, set_incoming os fd es)"
    "stream retried_by_worker es = body @ rest" using read_size_whole[OF assms(1,3)] .
  obtain os2 where os2: "sys_open_trunc (set_incoming os fd es) name = (?new, os2)"
    "os2 = (set_incoming os fd es)\<lparr>disk := (disk os)(name \<mapsto> []),
      fds := (fds os)(?new \<mapsto> File name 0), incoming := (incoming os)(fd := es, ?new := []),
      wplan := (wplan os)(?new := []), next_fd := ?new + 1\<rparr>"
    using assms(4) by (simp add: sys_open_trunc_def)
  have u: "unat ?n = length body" using assms(2) by (intro unat_of_nat_small) simp
  have "fds os2 fd = Some (Sock nb)" "fds os2 ?new = Some (File name 0)" "offset_ok os2 ?new"
    "wplan os2 ?new = []" "unat ?n \<le> length (stream retried_by_worker (incoming os2 fd))"
    using assms(1,5) s(2) u unfolding os2(2) by (simp_all add: offset_ok_def)
  from read_file_loop_whole[OF this, of 0] obtain fs where
    l: "read_file_loop os2 fd ?new ?n 0 = Some (Inr (sint ?n, set_incoming (accept_bytes os2 ?new
      (take (length body) (stream retried_by_worker (incoming os2 fd)))) fd fs))"
    "stream retried_by_worker fs = drop (length body) (stream retried_by_worker (incoming os2 fd))"
    using u by auto
  have str: "stream retried_by_worker (incoming os2 fd) = body @ rest"
    using s(2) assms(5) unfolding os2(2) by simp
  define os3 where "os3 = set_incoming (accept_bytes os2 ?new body) fd fs"
  have "overwrite [] 0 body = body" by (simp add: overwrite_def)
  then have acc: "accept_bytes os2 ?new body = os2\<lparr>disk := (disk os)(name \<mapsto> body),
      fds := (fds os)(?new \<mapsto> File name (length body))\<rparr>"
    unfolding os2(2) by (simp add: accept_bytes_def file_bytes_def)
  have "sint ?n = int (length body)" using assms(2) by (rule sint_small)
  then have "read_file os fd raw name = Inr (sys_close os3 ?new)"
    using s(1) os2(1) l(1) str assms(6) unfolding os3_def
    by (simp add: read_file_def read_file_from_socket_def)
  then show thesis
  proof (rule that)
    show "disk (sys_close os3 ?new) = (disk os)(name \<mapsto> body)"
      "fds (sys_close os3 ?new) = (fds os)(?new := None)"
      "sent (sys_close os3 ?new) = sent os" "wplan (sys_close os3 ?new) fd = wplan os fd"
      "denied (sys_close os3 ?new) = denied os" "next_fd (sys_close os3 ?new) = ?new + 1"
      using assms(5) unfolding os3_def acc unfolding os2(2) by (simp_all add: sys_close_def)
    show "stream retried_by_worker (incoming (sys_close os3 ?new) fd) = rest"
      using l(2) str unfolding os3_def by (simp add: sys_close_def)
  qed
qed

text \<open>A complete message: the program is stored, an empty output file is opened next to it, and the
  task names both. Nothing is read past the message.\<close>

lemma worker_request_whole:
  assumes "fds os fd = Some (Sock nb)" "length body < 2 ^ 63" "length name < 2 ^ 60"
    "NUL \<notin> set name" "NEWLINE \<notin> set name"
    "stream retried_by_worker (incoming os fd) =
      create_header name @ size_bytes (of_nat (length body)) @ body @ rest"
    "\<not> denied os name" "\<not> denied os (name @ OUTPUT_FILE_FORMAT)" "fd < next_fd os" "0 \<le> next_fd os"
  obtains os' where "worker_request False os fd raw = Inr (New_task \<lparr>input_filename = Some name,
      output_filename = Some (name @ OUTPUT_FILE_FORMAT), output_fd = next_fd os + 1\<rparr>, os')"
    "disk os' = (disk os)(name \<mapsto> body, name @ OUTPUT_FILE_FORMAT \<mapsto> [])"
    "fds os' = (fds os)(next_fd os := None, next_fd os + 1 \<mapsto> File (name @ OUTPUT_FILE_FORMAT) 0)"
    "sent os' = sent os" "wplan os' fd = wplan os fd" "incoming os' (next_fd os + 1) = []"
    "stream retried_by_worker (incoming os' fd) = rest"
proof -
  let ?line = "PUT_REQUEST @ '' '' @ name" and ?out = "name @ OUTPUT_FILE_FORMAT"
  let ?rest = "size_bytes (of_nat (length body)) @ body @ rest"
  have "NEWLINE \<notin> set ?line" using assms(5) by simp
  moreover have "stream retried_by_worker (incoming os fd) = ?line @ NEWLINE # ?rest"
    using assms(6) by (simp add: create_header_def)
  ultimately obtain es where l: "read_line_from_socket os fd = Inr (int (length (create_header name)),
      create_header name, set_incoming os fd es)" "stream retried_by_worker es = ?rest"
    using read_line_whole[OF assms(1), of ?line ?rest "[]"]
    by (auto simp: read_line_from_socket_def create_header_def)
  let ?os1 = "set_incoming os fd es"
  have "fds ?os1 fd = Some (Sock nb)" "stream retried_by_worker (incoming ?os1 fd) = ?rest"
    "\<not> denied ?os1 name" "next_fd ?os1 \<noteq> fd" "0 \<le> next_fd ?os1"
    using assms(1,7,9,10) l(2) by simp_all
  from read_file_whole[OF this(1) assms(2) this(2-), of raw] obtain os2 where
    r: "read_file ?os1 fd raw name = Inr os2"
    and os2: "disk os2 = (disk os)(name \<mapsto> body)" "fds os2 = (fds os)(next_fd os := None)"
      "next_fd os2 = next_fd os + 1" "denied os2 = denied os" "sent os2 = sent os"
      "wplan os2 fd = wplan os fd" "stream retried_by_worker (incoming os2 fd) = rest"
    by (auto simp: set_incoming_def)
  obtain os3 where os3: "create_output_file os2 name = (next_fd os + 1, ?out, os3)"
    "os3 = os2\<lparr>disk := (disk os2)(?out \<mapsto> []), fds := (fds os2)(next_fd os2 \<mapsto> File ?out 0),
      incoming := (incoming os2)(next_fd os2 := []), wplan := (wplan os2)(next_fd os2 := []),
      next_fd := next_fd os2 + 1\<rparr>"
    using assms(8) os2(3,4) by (simp add: create_output_file_def sys_open_trunc_def Let_def)
  have "of_int (int (length (create_header name))) = (of_nat (length (create_header name)) :: size_t)"
    by simp
  with get_filename_line[OF assms(4,3)]
  have name: "get_filename_from_header (create_header name)
    (of_int (int (length (create_header name)))) (of_nat PUT_REQUEST_SIZE) = Some name" by metis
  have "worker_request False os fd raw = Inr (New_task \<lparr>input_filename = Some name,
      output_filename = Some ?out, output_fd = next_fd os + 1\<rparr>, os3)"
  proof -
    have "create_header name \<noteq> []" "starts_with PUT_REQUEST (create_header name)"
      by (simp_all add: create_header_def)
    then show ?thesis using l(1) name r os3(1) by (simp add: worker_request_def)
  qed
  then show thesis
  proof (rule that)
    show "disk os3 = (disk os)(name \<mapsto> body, ?out \<mapsto> [])" "sent os3 = sent os"
      "fds os3 = (fds os)(next_fd os := None, next_fd os + 1 \<mapsto> File ?out 0)"
      "wplan os3 fd = wplan os fd" "incoming os3 (next_fd os + 1) = []"
      "stream retried_by_worker (incoming os3 fd) = rest"
      using os2 assms(9) unfolding os3(2) by simp_all
  qed
qed

section \<open>A connection that ends too early\<close>

text \<open>At the end of the stream \<^verbatim>\<open>read_from_socket\<close> returns 0 and \<^verbatim>\<open>read_file_from_socket\<close> asks again: it
  never returns.\<close>

lemma read_from_socket_eof:
  "fds os fd = Some (Sock nb) \<Longrightarrow> incoming os fd = Eof # es \<Longrightarrow>
    read_from_socket os fd n = Inr (0, [], os)"
  by (simp add: read_from_socket_def read_from_socket_loop.simps[of os] sys_read_def
      set_incoming_same Let_def)

lemma read_file_eof:
  assumes "fds os fd = Some (Sock nb)" "incoming os fd = Eof # es" "r \<noteq> 0" "fd \<noteq> dst"
  shows "read_file_loop os fd dst r t = None"
proof (rule ccontr)
  assume "read_file_loop os fd dst r t \<noteq> None"
  then obtain x where x: "read_file_loop os fd dst r t = Some x" by blast
  define stuck where "stuck os fd dst r \<longleftrightarrow> fds os fd = Some (Sock nb) \<and> incoming os fd = Eof # es
    \<and> r \<noteq> (0 :: size_t) \<and> fd \<noteq> dst" for os :: osys and fd dst r
  have "\<not> stuck os fd dst r"
  proof (rule read_file_loop.raw_induct[where P = "\<lambda>os fd dst r t x. \<not> stuck os fd dst r", OF _ x])
    fix rec os fd dst r t x
    assume IH: "\<And>os fd dst r t y. rec os fd dst r t = Some y \<Longrightarrow> \<not> stuck os fd dst r"
      and body: "(case read_from_socket os fd (if 4096 \<le> r then FILE_BUFFER_SIZE else unat r) of
        Inl e \<Rightarrow> Some (Inl e)
      | Inr (byteRead, buffer, os) \<Rightarrow>
          if byteRead = - 1 then Some (Inr (- 1, os))
          else
            (let r = r - of_int byteRead; t = t + of_int byteRead; (_, os) = sys_write os dst buffer in
             if r = 0 then Some (Inr (sint t, os)) else rec os fd dst r t)) = Some x"
    show "\<not> stuck os fd dst r"
    proof
      assume s: "stuck os fd dst r"
      obtain q os' where w: "sys_write os dst [] = (q, os')" by fastforce
      have os': "fds os' fd = fds os fd" "incoming os' fd = incoming os fd"
        using w s by (auto simp: sys_write_def accept_bytes_def Let_def stuck_def
            split: if_splits list.splits acceptance.splits option.splits fd_kind.splits)
      have "rec os' fd dst r t = Some x"
        using body s read_from_socket_eof[of os fd nb es] w by (simp add: stuck_def)
      from IH[OF this] os' s show False by (simp add: stuck_def)
    qed
  qed
  then show False using assms by (simp add: stuck_def)
qed

section \<open>The faults of a request and of a run\<close>

lemma read_from_socket_fault: "read_from_socket_loop os fd n buf = Inl e \<Longrightarrow> e = Blocks"
proof (induction os fd n buf rule: read_from_socket_loop.induct)
  case (1 os fd n buf)
  obtain q os1 where q: "sys_read os fd (n - length buf) = (q, os1)" by fastforce
  note now = "1.prems"[unfolded read_from_socket_loop.simps[of os] q]
  show ?case
  proof (cases q)
    case (RData cs)
    then show ?thesis using now "1.IH"(1)[OF q[symmetric] RData] by (auto split: if_splits)
  next
    case (RErr e')
    then show ?thesis using now "1.IH"(2)[OF q[symmetric] RErr] by (auto split: if_splits)
  qed (use now in auto)
qed

lemma read_line_fault: "read_line_loop os fd buf = Inl e \<Longrightarrow> e = Blocks"
proof (induction os fd buf rule: read_line_loop.induct)
  case (1 os fd buf)
  obtain q os1 where q: "sys_read os fd 1 = (q, os1)" by fastforce
  note now = "1.prems"[unfolded read_line_loop.simps[of os] q]
  show ?case
  proof (cases q)
    case (RData cs)
    show ?thesis
    proof (cases cs)
      case (Cons c cs')
      then show ?thesis using now RData "1.IH"(1)[OF q[symmetric] RData Cons] by (auto split: if_splits)
    qed (use now RData in auto)
  next
    case (RErr e')
    then show ?thesis using now "1.IH"(2)[OF q[symmetric] RErr] by (auto split: if_splits)
  qed (use now in auto)
qed

lemma read_file_fault:
  assumes "read_file_loop os fd dst r t = Some (Inl e)"
  shows "e = Blocks"
proof -
  have "x = Inl e \<longrightarrow> e = Blocks" if "read_file_loop os fd dst r t = Some x" for x
  proof (rule read_file_loop.raw_induct[where P = "\<lambda>os fd dst r t x. x = Inl e \<longrightarrow> e = Blocks", OF _ that])
    fix rec os fd dst r t x
    assume IH: "\<And>os fd dst r t y. rec os fd dst r t = Some y \<Longrightarrow> y = Inl e \<longrightarrow> e = Blocks"
      and body: "(case read_from_socket os fd (if 4096 \<le> r then FILE_BUFFER_SIZE else unat r) of
        Inl e \<Rightarrow> Some (Inl e)
      | Inr (byteRead, buffer, os) \<Rightarrow>
          if byteRead = - 1 then Some (Inr (- 1, os))
          else
            (let r = r - of_int byteRead; t = t + of_int byteRead; (_, os) = sys_write os dst buffer in
             if r = 0 then Some (Inr (sint t, os)) else rec os fd dst r t)) = Some x"
    show "x = Inl e \<longrightarrow> e = Blocks" using body
      by (auto simp: read_from_socket_def Let_def case_prod_unfold dest: IH read_from_socket_fault
          split: sum.splits if_splits)
  qed
  then show ?thesis using assms by blast
qed

text \<open>A request touches no memory outside its buffers: it waits for data, goes on reading for ever, or
  ends the process.\<close>

lemma worker_request_fault:
  assumes "worker_request q os fd raw = Inl e"
  shows "e \<in> {Blocks, Diverges, Exits (- 1)}"
proof -
  have size: "e = Blocks" if "read_size_from_socket os fd raw = Inl e" for os
    using that read_from_socket_fault
    by (auto simp: read_size_from_socket_def read_from_socket_def bindr_eq_Inl)
  have data: "e \<in> {Blocks, Diverges}" if "read_file_from_socket os fd d n = Inl e" for os d n
    using that read_file_fault
    by (auto simp: read_file_from_socket_def bindr_eq_Inl or_fault_def split: option.splits)
  have prog: "e \<in> {Blocks, Diverges, Exits (- 1)}" if "read_file os fd raw f = Inl e" for os f
    using that size data
    by (auto simp: read_file_def bindr_eq_Inl Let_def case_prod_unfold split: if_splits)
  have line: "e = Blocks" if "read_line_from_socket os fd = Inl e" for os
    using that read_line_fault by (simp add: read_line_from_socket_def)
  show ?thesis using assms prog line
    by (auto simp: worker_request_def bindr_eq_Inl Let_def case_prod_unfold
        split: if_splits option.splits)
qed

text \<open>The command line of a task: two copies of the name and 23 more characters.\<close>

lemma run_task_overflows:
  assumes "input_filename t = Some f" "output_filename t = Some (f @ OUTPUT_FILE_FORMAT)"
  shows "run_task run os t = Inl Out_of_bounds \<longleftrightarrow> 500 < length f"
    "length f \<le> 500 \<Longrightarrow> \<exists>os'. run_task run os t = Inr (True, os')"
  using assms by (auto simp: run_task_def command_line_def Let_def case_prod_unfold)

end
