(* ===== verification/Interface.thy ===== *)
theory Interface
  imports Framing
begin

text \<open>
  \<^verbatim>\<open>interface.c\<close>: the loops that read and write the connection to the master, one turn of the main loop
  (read a program's name from the terminal, send the request), and one turn of the thread that prints
  what comes back. Standard input is the list of characters still to be typed; a file opened with
  \<^verbatim>\<open>fopen\<close> is the list of its bytes; descriptor 1 is the terminal. The connection is a blocking socket.
\<close>

abbreviation (input) BUF_SIZE :: nat where "BUF_SIZE \<equiv> 1024"
abbreviation (input) NAME_MAX :: nat where "NAME_MAX \<equiv> 1024"

definition retried_by_interface :: "errno \<Rightarrow> bool" where
  "retried_by_interface e \<longleftrightarrow> e = EINTR"

lemma retried_by_interface_simps [simp]:
  "retried_by_interface EINTR" "\<not> retried_by_interface EAGAIN" "\<not> retried_by_interface EBADF"
  "\<not> retried_by_interface EPIPE" "\<not> retried_by_interface EOTHER"
  by (simp_all add: retried_by_interface_def)

section \<open>Writing\<close>

text \<open>\<open>c\<close> bytes were to be written, \<open>buffer\<close> is what is left of them.\<close>

function my_write_loop :: "osys \<Rightarrow> int \<Rightarrow> char list \<Rightarrow> nat \<Rightarrow> int \<times> osys" where
  "my_write_loop os sock buffer c =
     (case sys_write os sock buffer of
        (WErr e, os') \<Rightarrow>
          if e = EINTR then my_write_loop os' sock buffer c else (- 1, os')
      | (WCount y, os') \<Rightarrow>
          if 0 < length (drop y buffer) \<and> 0 < y then my_write_loop os' sock (drop y buffer) c
          else (int c - int (length (drop y buffer)), os'))"
  by pat_completeness auto
termination
  by (relation "measures [\<lambda>(os, fd, buffer, c). length buffer, \<lambda>(os, fd, buffer, c). length (wplan os fd)]")
    (auto dest: sys_write_progress[OF sym])

declare my_write_loop.simps [simp del]

definition my_write :: "osys \<Rightarrow> int \<Rightarrow> char list \<Rightarrow> int \<times> osys" where
  "my_write os sock buffer = my_write_loop os sock buffer (length buffer)"

lemma my_write_loop_complete:
  "fds os fd \<noteq> None \<Longrightarrow> offset_ok os fd \<Longrightarrow> willing retried_by_interface (wplan os fd) \<Longrightarrow>
    \<exists>ps. my_write_loop os fd bs c = (int c, accept_bytes (set_wplan os fd ps) fd bs)
      \<and> willing retried_by_interface ps"
proof (induction os fd bs c rule: my_write_loop.induct)
  case (1 os fd bs c)
  obtain r os' where w: "sys_write os fd bs = (r, os')" by fastforce
  from w "1.prems"(1) show ?case
  proof (cases rule: sys_write_cases)
    case (refused e ps)
    then have e: "e = EINTR" "willing retried_by_interface ps"
      using "1.prems"(3) by (auto simp: retried_by_interface_def[of e])
    have "\<exists>qs. my_write_loop os' fd bs c = (int c, accept_bytes (set_wplan os' fd qs) fd bs)
      \<and> willing retried_by_interface qs"
      using "1.prems" refused e by (intro "1.IH"(2)[OF w[symmetric] refused(1)]) auto
    then show ?thesis using refused e(1) w by (subst my_write_loop.simps) simp
  next
    case (counted n ps)
    note n = counted(4)[OF "1.prems"(3)]
    show ?thesis
    proof (cases "0 < length (drop n bs) \<and> 0 < n")
      case True
      have "\<exists>qs. my_write_loop os' fd (drop n bs) c
          = (int c, accept_bytes (set_wplan os' fd qs) fd (drop n bs)) \<and> willing retried_by_interface qs"
        using "1.prems"(1,2) counted(3) n
        by (intro "1.IH"(1)[OF w[symmetric] counted(1) True]) (auto simp: offset_ok_accept)
      then show ?thesis using w counted(1,3) True
        by (subst my_write_loop.simps) (auto simp: accept_bytes_set_wplan accept_bytes_append)
    next
      case False
      then have "drop n bs = []" using n by (cases "bs = []") auto
      then have "take n bs = bs" by (metis append_take_drop_id append_Nil2)
      with \<open>drop n bs = []\<close> show ?thesis using w counted(1,3) n False
        by (intro exI[of _ ps]) (simp add: my_write_loop.simps[of os])
    qed
  qed
qed

lemma my_write_loop_prefix:
  "fds os fd \<noteq> None \<Longrightarrow> offset_ok os fd \<Longrightarrow> my_write_loop os fd bs c = (r, os') \<Longrightarrow>
    length bs \<le> c \<Longrightarrow> \<exists>n ps. n \<le> length bs \<and> os' = accept_bytes (set_wplan os fd ps) fd (take n bs)
      \<and> (r = - 1 \<or> r = int c - int (length bs) + int n)"
proof (induction os fd bs c rule: my_write_loop.induct)
  case (1 os fd bs c)
  obtain q os1 where w: "sys_write os fd bs = (q, os1)" by fastforce
  note now = "1.prems"(3)[unfolded my_write_loop.simps[of os] w]
  from w "1.prems"(1) show ?case
  proof (cases rule: sys_write_cases)
    case (refused e ps)
    show ?thesis
    proof (cases "e = EINTR")
      case True
      then have rec: "my_write_loop os1 fd bs c = (r, os')" using now refused(1) by simp
      from "1.IH"(2)[OF w[symmetric] refused(1) True _ _ rec "1.prems"(4)] refused(2) "1.prems"(1,2)
      show ?thesis by simp
    next
      case False
      then show ?thesis using now refused(1,2) "1.prems"(2)
        by (intro exI[of _ 0] exI[of _ ps]) auto
    qed
  next
    case (counted n ps)
    show ?thesis
    proof (cases "0 < length (drop n bs) \<and> 0 < n")
      case False
      then show ?thesis using now counted(1-3) "1.prems"(4)
        by (intro exI[of _ n] exI[of _ ps]) (auto simp: of_nat_diff split: if_splits)
    next
      case True
      then have rec: "my_write_loop os1 fd (drop n bs) c = (r, os')" using now counted(1) by simp
      have "offset_ok os1 fd" "fds os1 fd \<noteq> None"
        using counted(3) "1.prems"(1,2) by (auto simp: offset_ok_accept)
      moreover have "length (drop n bs) \<le> c" using "1.prems"(4) by simp
      ultimately obtain m qs where m: "m \<le> length bs - n"
        "os' = accept_bytes (set_wplan os1 fd qs) fd (take m (drop n bs))"
        "r = - 1 \<or> r = int c - int (length bs - n) + int m"
        using "1.IH"(1)[OF w[symmetric] counted(1) True _ _ rec] by auto
      have "take n bs @ take m (drop n bs) = take (n + m) bs" by (simp add: take_add)
      then show ?thesis using m counted(2,3) "1.prems"(4)
        by (intro exI[of _ "n + m"] exI[of _ qs])
          (auto simp: accept_bytes_set_wplan accept_bytes_append)
    qed
  qed
qed

interpretation interface_writer: full_writer my_write retried_by_interface
proof unfold_locales
  fix os fd bs
  assume "fds os fd \<noteq> None" "offset_ok os fd" "willing retried_by_interface (wplan os fd)"
  then show "\<exists>ps. my_write os fd bs = (int (length bs), accept_bytes (set_wplan os fd ps) fd bs)
      \<and> willing retried_by_interface ps"
    unfolding my_write_def by (rule my_write_loop_complete)
next
  fix os fd bs r os'
  assume "fds os fd \<noteq> None" "offset_ok os fd" "my_write os fd bs = (r, os')"
  then show "\<exists>n ps. n \<le> length bs \<and> os' = accept_bytes (set_wplan os fd ps) fd (take n bs)
      \<and> (r = - 1 \<or> r = int n)"
    using my_write_loop_prefix[of os fd bs "length bs" r os'] by (simp add: my_write_def)
qed

section \<open>Reading\<close>

function my_read_loop :: "osys \<Rightarrow> int \<Rightarrow> nat \<Rightarrow> char list \<Rightarrow> (int \<times> char list \<times> osys) res" where
  "my_read_loop os sock count buffer =
     (case sys_read os sock count of
        (RBlock, os') \<Rightarrow> Inl Blocks
      | (RErr e, os') \<Rightarrow>
          if e = EINTR then my_read_loop os' sock count buffer else Inr (- 1, buffer, os')
      | (RData bs, os') \<Rightarrow>
          if 0 < count - length bs \<and> bs \<noteq> []
          then my_read_loop os' sock (count - length bs) (buffer @ bs)
          else Inr (int (length (buffer @ bs)), buffer @ bs, os'))"
  by pat_completeness auto
termination
  by (relation "measure (\<lambda>(os, fd, count, buffer). readable os fd)")
    (auto dest: sys_read_retry_progress[OF sym] sys_read_data_progress[OF sym])

declare my_read_loop.simps [simp del]

definition my_read :: "osys \<Rightarrow> int \<Rightarrow> nat \<Rightarrow> (int \<times> char list \<times> osys) res" where
  "my_read os sock count = my_read_loop os sock count []"

lemma my_read_loop_complete:
  "fds os fd = Some (Sock nb) \<Longrightarrow> n \<le> length (stream retried_by_interface (incoming os fd)) \<Longrightarrow>
    \<exists>es. my_read_loop os fd n buf = Inr (int (length buf + n),
        buf @ take n (stream retried_by_interface (incoming os fd)), set_incoming os fd es)
      \<and> stream retried_by_interface es = drop n (stream retried_by_interface (incoming os fd))"
proof (induction os fd n buf rule: my_read_loop.induct)
  case (1 os fd n buf)
  let ?str = "stream retried_by_interface"
  show ?case
  proof (cases "n = 0")
    case True
    then have "sys_read os fd n = (RData [], os)" using "1.prems"(1) by (simp add: sys_read_def)
    then show ?thesis using True
      by (intro exI[of _ "incoming os fd"])
        (simp add: my_read_loop.simps[of os] set_incoming_same)
  next
    case False
    then have pos: "0 < n" by simp
    obtain q os1 where q: "sys_read os fd n = (q, os1)" by fastforce
    have ne: "?str (incoming os fd) \<noteq> []" using pos "1.prems"(2) by auto
    from q "1.prems"(1) pos ne show ?thesis
    proof (cases rule: sys_read_stream)
      case (retry e es)
      note e = retry(2)[unfolded retried_by_interface_def]
      have "\<exists>es'. my_read_loop os1 fd n buf = Inr (int (length buf + n),
          buf @ take n (?str (incoming os1 fd)), set_incoming os1 fd es')
        \<and> ?str es' = drop n (?str (incoming os1 fd))"
        using "1.prems" retry by (intro "1.IH"(2)[OF q[symmetric] retry(1) e]) auto
      then show ?thesis using retry(1,3,4) e q by (subst my_read_loop.simps) auto
    next
      case (bytes bs es)
      show ?thesis
      proof (cases "0 < n - length bs")
        case False
        then have "length bs = n" using bytes(3) by simp
        then show ?thesis using bytes q
          by (intro exI[of _ es]) (simp add: my_read_loop.simps[of os])
      next
        case True
        have more: "0 < n - length bs \<and> bs \<noteq> []" using True bytes(2) by simp
        have "\<exists>es'. my_read_loop os1 fd (n - length bs) (buf @ bs) = Inr (int (length (buf @ bs) + (n - length bs)),
            (buf @ bs) @ take (n - length bs) (?str (incoming os1 fd)), set_incoming os1 fd es')
          \<and> ?str es' = drop (n - length bs) (?str (incoming os1 fd))"
          using "1.prems" bytes by (intro "1.IH"(1)[OF q[symmetric] bytes(1) more]) auto
        then show ?thesis using bytes q more by (subst my_read_loop.simps) auto
      qed
    qed
  qed
qed

lemma my_read_loop_bounded:
  "my_read_loop os fd n buf = Inr (r, bs, os') \<Longrightarrow>
    length bs \<le> length buf + n \<and> (r = - 1 \<or> r = int (length bs))"
proof (induction os fd n buf rule: my_read_loop.induct)
  case (1 os fd n buf)
  obtain q os1 where q: "sys_read os fd n = (q, os1)" by fastforce
  note now = "1.prems"(1)[unfolded my_read_loop.simps[of os] q]
  show ?case
  proof (cases q)
    case (RData cs)
    have len: "length cs \<le> n" using sys_read_length[OF q[unfolded RData]] .
    then show ?thesis using now RData "1.IH"(1)[OF q[symmetric] RData] by (auto split: if_splits)
  next
    case (RErr e)
    then show ?thesis using now "1.IH"(2)[OF q[symmetric] RErr] by (auto split: if_splits)
  qed (use now in auto)
qed

interpretation interface_reader: full_reader my_read retried_by_interface
proof unfold_locales
  fix os :: osys and fd nb n
  assume "fds os fd = Some (Sock nb)" "n \<le> length (stream retried_by_interface (incoming os fd))"
  with my_read_loop_complete[of os fd nb n "[]"]
  show "\<exists>es. my_read os fd n = Inr (int n,
      take n (stream retried_by_interface (incoming os fd)), set_incoming os fd es)
    \<and> stream retried_by_interface es = drop n (stream retried_by_interface (incoming os fd))"
    by (simp add: my_read_def)
next
  fix os :: osys and fd n r bs os'
  assume "my_read os fd n = Inr (r, bs, os')"
  then show "length bs \<le> n \<and> (r = - 1 \<or> r = int (length bs))"
    using my_read_loop_bounded[of os fd n "[]"] by (simp add: my_read_def)
qed

end
