(* ===== verification/Interface_Turns.thy ===== *)
theory Interface_Turns
  imports Interface
begin

text \<open>
  One turn of the main loop of \<^verbatim>\<open>interface_main\<close> and one of \<^verbatim>\<open>output_reciever\<close>, with what they send and
  print; and the inputs on which their fixed buffers overflow.
\<close>

section \<open>Sending a request\<close>

text \<open>The name is appended to the verb in a buffer of 1024 bytes.\<close>

definition send_request :: "osys \<Rightarrow> int \<Rightarrow> string \<Rightarrow> string \<Rightarrow> osys res" where
  "send_request os sock buffer local =
     (let buffer = buffer @ '' '' @ local @ [NEWLINE] in
      if BUF_SIZE < length buffer + 1 then Inl Out_of_bounds else Inr (snd (my_write os sock buffer)))"

definition get_user_file_size :: "osys \<Rightarrow> string \<Rightarrow> size_t" where
  "get_user_file_size os filename = of_nat (length (file_bytes os filename))"

text \<open>\<open>f\<close> is what is left to read of the file.\<close>

function write_binary_data :: "osys \<Rightarrow> int \<Rightarrow> char list \<Rightarrow> osys" where
  "write_binary_data os sock f =
     (let buffer = take BUF_SIZE f in
      if buffer \<noteq> [] then write_binary_data (snd (my_write os sock buffer)) sock (drop BUF_SIZE f)
      else os)"
  by pat_completeness auto
termination by (relation "measure (\<lambda>(os, fd, f). length f)") auto

declare write_binary_data.simps [simp del]

definition isspace :: "char \<Rightarrow> bool" where
  "isspace c \<longleftrightarrow> c \<in> {SPACE, CHR 0x09, NEWLINE, CHR 0x0B, CHR 0x0C, CHR 0x0D}"

fun skip_space :: "char list \<Rightarrow> char list" where
  "skip_space [] = []"
| "skip_space (c # cs) = (if isspace c then skip_space cs else c # cs)"

text \<open>The character goes into the buffer before its index is compared with the size.\<close>

fun read_name :: "char list \<Rightarrow> char list \<Rightarrow> (char list \<times> char list) res" where
  "read_name [] name = (if NAME_MAX \<le> length name then Inl Out_of_bounds else Inr (name, []))"
| "read_name (c # cs) name =
     (if NAME_MAX \<le> length name then Inl Out_of_bounds
      else if isspace c then Inr (name, cs)
      else if NAME_MAX < length name + 1 then Inl (Exits 1)
      else read_name cs (name @ [c]))"

definition may_read :: "osys \<Rightarrow> string \<Rightarrow> bool" where
  "may_read os name \<longleftrightarrow> disk os name \<noteq> None \<and> \<not> denied os name"

definition interface_turn :: "osys \<Rightarrow> int \<Rightarrow> char list \<Rightarrow> (char list \<times> osys) res" where
  "interface_turn os sock input =
     bindr (read_name (skip_space input) []) (\<lambda>(buf, input).
     let name = cstr buf in
     if \<not> may_read os name then Inl (Exits 1)
     else bindr (send_request os sock ''INTERFACE_PUT'' name) (\<lambda>os1.
       let f = file_bytes os name;
           (_, os2) = my_write os1 sock (size_bytes (get_user_file_size os name))
       in Inr (input, write_binary_data os2 sock f)))"

section \<open>Printing what comes back\<close>

text \<open>The result of the read is ignored: when it fails \<open>b\<close> keeps its value.\<close>

definition next_byte :: "char \<Rightarrow> rd \<Rightarrow> char" where
  "next_byte b r = (case r of RData (c # _) \<Rightarrow> c | _ \<Rightarrow> b)"

function skip_header :: "osys \<Rightarrow> int \<Rightarrow> char \<Rightarrow> char list \<Rightarrow> (char \<times> osys) res" where
  "skip_header os sock b buff =
     (case sys_read os sock 1 of
        (RBlock, _) \<Rightarrow> Inl Blocks
      | (r, os') \<Rightarrow>
          (let b = next_byte b r in
           if b \<noteq> NEWLINE then
             (if BUF_SIZE \<le> length buff then Inl Out_of_bounds
              else skip_header os' sock b (buff @ [b]))
           else Inr (b, os')))"
  by pat_completeness auto
termination by (relation "measure (\<lambda>(os, fd, b, buff). BUF_SIZE - length buff)") auto

declare skip_header.simps [simp del]

function read_out_size :: "osys \<Rightarrow> int \<Rightarrow> char \<Rightarrow> nat \<Rightarrow> size_t \<Rightarrow> (char \<times> size_t \<times> osys) res" where
  "read_out_size os sock b i n =
     (if i < 8 then
        (case sys_read os sock 1 of
           (RBlock, _) \<Rightarrow> Inl Blocks
         | (r, os') \<Rightarrow>
             (let b = next_byte b r in read_out_size os' sock b (i + 1) (set_size_byte i b n)))
      else Inr (b, n, os))"
  by pat_completeness auto
termination by (relation "measure (\<lambda>(os, fd, b, i, n). 8 - i)") auto

declare read_out_size.simps [simp del]

text \<open>A negative size means to go on to the end of the stream.\<close>

partial_function (option) copy_loop ::
  "osys \<Rightarrow> int \<Rightarrow> int \<Rightarrow> int \<Rightarrow> int \<Rightarrow> (int \<times> osys) res option" where
  "copy_loop os sock fd sz total_read =
     (if sz \<noteq> 0 then
        (case sys_read os sock (if 4096 < sz \<or> sz < 0 then 4096 else nat sz) of
           (RBlock, _) \<Rightarrow> Some (Inl Blocks)
         | (RErr e, os) \<Rightarrow>
             if e = EINTR \<or> e = EAGAIN then copy_loop os sock fd sz total_read
             else Some (Inr (- 1, os))
         | (RData buffer, os) \<Rightarrow>
             if buffer = [] then Some (Inr (total_read, os))
             else (let (_, os) = sys_write os fd buffer in
               copy_loop os sock fd (sz - int (length buffer)) (total_read + int (length buffer))))
      else Some (Inr (total_read, os)))"

definition write_all_from_socket_to_fd :: "osys \<Rightarrow> int \<Rightarrow> int \<Rightarrow> int \<Rightarrow> (int \<times> osys) res" where
  "write_all_from_socket_to_fd os sock fd sz =
     bindr (or_fault Diverges (copy_loop os sock fd sz 0)) (\<lambda>r. r)"

text \<open>One turn of \<^verbatim>\<open>output_reciever\<close>; \<open>b\<close> and \<open>file_size\<close> are its variables from the turn before.\<close>

definition output_reciever :: "osys \<Rightarrow> int \<Rightarrow> char \<Rightarrow> size_t \<Rightarrow> (char \<times> size_t \<times> osys) res" where
  "output_reciever os sock b file_size =
     bindr (skip_header os sock b []) (\<lambda>(b, os).
     bindr (read_out_size os sock b 0 file_size) (\<lambda>(b, file_size, os).
     bindr (write_all_from_socket_to_fd os sock 1 (sint file_size)) (\<lambda>(_, os).
     Inr (b, file_size, os))))"

section \<open>Two helpers nothing calls\<close>

definition check_ok :: "osys \<Rightarrow> int \<Rightarrow> (bool \<times> osys) res" where
  "check_ok os sock =
     bindr (my_read os sock 1) (\<lambda>(s, bs, os).
     if s < 0 then Inl Out_of_bounds
     else if bs = ''O'' then bindr (my_read os sock 2) (\<lambda>(_, _, os). Inr (True, os))
     else bindr (my_read os sock 5) (\<lambda>(_, _, os).
       bindr (my_read os sock BUF_SIZE) (\<lambda>(s, _, os).
       if s < 0 \<or> int BUF_SIZE \<le> s then Inl Out_of_bounds else Inr (False, os))))"

partial_function (option) print_binary_data :: "osys \<Rightarrow> int \<Rightarrow> osys res option" where
  "print_binary_data os sock =
     (case my_read os sock BUF_SIZE of
        Inl e \<Rightarrow> Some (Inl e)
      | Inr (s, buffer, os) \<Rightarrow>
          if s = 0 then Some (Inr os)
          else if s < 0 then Some (Inl Out_of_bounds)
          else (let (_, os) = sys_write os 1 buffer in print_binary_data os sock))"

section \<open>What a request sends\<close>

definition request_frame :: "string \<Rightarrow> char list \<Rightarrow> char list" where
  "request_frame name body =
     ''INTERFACE_PUT '' @ name @ NEWLINE # size_bytes (of_nat (length body)) @ body"

lemma my_write_sock:
  assumes "fds os fd = Some (Sock nb)" "willing retried_by_interface (wplan os fd)"
  obtains os' where "my_write os fd bs = (int (length bs), os')" "fds os' = fds os"
    "willing retried_by_interface (wplan os' fd)" "disk os' = disk os"
    "sent os' fd = sent os fd @ bs"
proof -
  have "fds os fd \<noteq> None" "offset_ok os fd" using assms(1) by (simp_all add: offset_ok_def)
  from interface_writer.complete[OF this assms(2), of bs] obtain ps where
    "my_write os fd bs = (int (length bs), accept_bytes (set_wplan os fd ps) fd bs)"
    "willing retried_by_interface ps" by blast
  then show thesis using that[of "accept_bytes (set_wplan os fd ps) fd bs"] assms(1)
    by (simp add: io_simps)
qed

lemma write_binary_data_sends:
  "fds os fd = Some (Sock nb) \<Longrightarrow> willing retried_by_interface (wplan os fd) \<Longrightarrow>
    sent (write_binary_data os fd f) fd = sent os fd @ f"
proof (induction os fd f rule: write_binary_data.induct)
  case (1 os fd f)
  show ?case
  proof (cases "take BUF_SIZE f = []")
    case True
    then show ?thesis by (simp add: write_binary_data.simps[of os])
  next
    case False
    obtain os' where w: "my_write os fd (take BUF_SIZE f) = (int (length (take BUF_SIZE f)), os')"
      "fds os' = fds os" "willing retried_by_interface (wplan os' fd)"
      "sent os' fd = sent os fd @ take BUF_SIZE f" using my_write_sock[OF "1.prems"] by metis
    have "sent (write_binary_data os' fd (drop BUF_SIZE f)) fd = sent os' fd @ drop BUF_SIZE f"
      using "1.IH"[OF refl False] w "1.prems"(1) by simp
    then show ?thesis using w(1,4) False by (subst write_binary_data.simps) simp
  qed
qed

lemma skip_space_prefix:
  "\<forall>c\<in>set ws. isspace c \<Longrightarrow> cs = [] \<or> \<not> isspace (hd cs) \<Longrightarrow> skip_space (ws @ cs) = cs"
  by (induction ws) (cases cs; auto)+

lemma read_name_word:
  "\<forall>c\<in>set name. \<not> isspace c \<Longrightarrow> isspace d \<Longrightarrow> length buf + length name < NAME_MAX \<Longrightarrow>
    read_name (name @ d # rest) buf = Inr (buf @ name, rest)"
  by (induction name arbitrary: buf) auto

lemma read_name_long:
  "\<forall>c\<in>set name. \<not> isspace c \<Longrightarrow> NAME_MAX \<le> length buf + length name \<Longrightarrow> length buf \<le> NAME_MAX \<Longrightarrow>
    read_name (name @ rest) buf = Inl Out_of_bounds"
proof (induction name arbitrary: buf)
  case Nil
  then show ?case by (cases rest) auto
qed auto

lemma interface_turn_sends:
  assumes "\<forall>c\<in>set ws. isspace c" "name \<noteq> []" "\<forall>c\<in>set name. \<not> isspace c" "isspace d"
    "NUL \<notin> set name" "length name \<le> 1008" "disk os name = Some body" "\<not> denied os name"
    "fds os fd = Some (Sock nb)" "willing retried_by_interface (wplan os fd)"
  shows "\<exists>os'. interface_turn os fd (ws @ name @ d # rest) = Inr (rest, os')
    \<and> sent os' fd = sent os fd @ request_frame name body"
proof -
  have "\<not> isspace (hd (name @ d # rest))" using assms(2,3) by (cases name) auto
  then have skip: "skip_space (ws @ name @ d # rest) = name @ d # rest"
    using assms(1) by (intro skip_space_prefix) auto
  have word: "read_name (name @ d # rest) [] = Inr (name, rest)"
    using read_name_word[OF assms(3,4), of "[]"] assms(6) by simp
  have name: "cstr name = name" using assms(5) by (rule cstr_id)
  let ?h = "''INTERFACE_PUT'' @ '' '' @ name @ [NEWLINE]"
  have cont: "file_bytes os name = body" using assms(7) by (simp add: file_bytes_def)
  obtain os1 where w1: "my_write os fd ?h = (int (length ?h), os1)" "fds os1 = fds os"
    "willing retried_by_interface (wplan os1 fd)" "sent os1 fd = sent os fd @ ?h"
    using my_write_sock[OF assms(9,10)] by metis
  have "fds os1 fd = Some (Sock nb)" using w1(2) assms(9) by simp
  from my_write_sock[OF this w1(3), of "size_bytes (of_nat (length body))"] obtain os2 r where
    w2: "my_write os1 fd (size_bytes (of_nat (length body))) = (r, os2)" "fds os2 = fds os1"
    "willing retried_by_interface (wplan os2 fd)"
    "sent os2 fd = sent os1 fd @ size_bytes (of_nat (length body))" by metis
  have "send_request os fd ''INTERFACE_PUT'' name = Inr os1"
    using w1(1) assms(6) by (simp add: send_request_def)
  then have "interface_turn os fd (ws @ name @ d # rest) = Inr (rest, write_binary_data os2 fd body)"
    using skip word name assms(7,8) w2(1) cont
    by (simp add: interface_turn_def may_read_def get_user_file_size_def)
  moreover have "sent (write_binary_data os2 fd body) fd = sent os fd @ request_frame name body"
    using write_binary_data_sends[of os2 fd nb body] w1(2,4) w2(2-4) assms(9)
    by (simp add: request_frame_def)
  ultimately show ?thesis by blast
qed

text \<open>Longer names do not fit: the request overflows its buffer from 1009 characters on, the name its
  own from 1024 on, before the message about long names is reached.\<close>

lemma interface_turn_overflows:
  assumes "\<forall>c\<in>set name. \<not> isspace c" "isspace d" "NUL \<notin> set name" "1008 < length name"
    "may_read os name"
  shows "interface_turn os fd (name @ d # rest) = Inl Out_of_bounds"
proof -
  have "\<not> isspace (hd (name @ d # rest))" using assms(1,4) by (cases name) auto
  then have skip: "skip_space (name @ d # rest) = name @ d # rest"
    using skip_space_prefix[of "[]" "name @ d # rest"] by simp
  show ?thesis
  proof (cases "length name < NAME_MAX")
    case True
    have "read_name (name @ d # rest) [] = Inr (name, rest)"
      using read_name_word[OF assms(1,2), of "[]"] True by simp
    then show ?thesis using skip assms(4,5) cstr_id[OF assms(3)]
      by (simp add: interface_turn_def send_request_def)
  next
    case False
    then have "read_name (name @ d # rest) [] = Inl Out_of_bounds"
      using assms(1) by (intro read_name_long) auto
    then show ?thesis using skip by (simp add: interface_turn_def)
  qed
qed

section \<open>What comes back is printed\<close>

text \<open>The receiver does not look at errors, so these lemmas are about streams up to the first one.\<close>

abbreviation (input) none_retried :: "errno \<Rightarrow> bool" where "none_retried \<equiv> (\<lambda>_. False)"

lemma sys_read_plain:
  assumes "sys_read os fd 1 = (r, os')" "fds os fd = Some (Sock nb)"
    "stream none_retried (incoming os fd) = b # bs"
  obtains es where "r = RData [b]" "os' = set_incoming os fd es" "stream none_retried es = bs"
  using assms by (cases rule: sys_read_byte) auto

lemma skip_header_line:
  assumes "fds os fd = Some (Sock nb)" "NEWLINE \<notin> set line"
    "stream none_retried (incoming os fd) = line @ NEWLINE # rest"
    "length buff + length line \<le> BUF_SIZE"
  shows "\<exists>es. skip_header os fd b buff = Inr (NEWLINE, set_incoming os fd es)
    \<and> stream none_retried es = rest"
  using assms
proof (induction line arbitrary: os b buff)
  case Nil
  obtain r os' where r: "sys_read os fd 1 = (r, os')" by fastforce
  from r Nil.prems(1) Nil.prems(3)[simplified] show ?case
  proof (rule sys_read_plain)
    fix es assume "r = RData [NEWLINE]" "os' = set_incoming os fd es" "stream none_retried es = rest"
    then show ?thesis using r by (subst skip_header.simps) (auto simp: next_byte_def)
  qed
next
  case (Cons c line)
  obtain r os' where r: "sys_read os fd 1 = (r, os')" by fastforce
  have str: "stream none_retried (incoming os fd) = c # (line @ NEWLINE # rest)"
    using Cons.prems(3) by simp
  from r Cons.prems(1) str show ?case
  proof (rule sys_read_plain)
    fix es assume es: "r = RData [c]" "os' = set_incoming os fd es"
      "stream none_retried es = line @ NEWLINE # rest"
    have "\<exists>es'. skip_header os' fd c (buff @ [c]) = Inr (NEWLINE, set_incoming os' fd es')
      \<and> stream none_retried es' = rest"
      using Cons.prems es by (intro Cons.IH) auto
    then show ?thesis using r es Cons.prems(2,4)
      by (subst skip_header.simps) (auto simp: next_byte_def)
  qed
qed

lemma read_out_size_whole:
  assumes "fds os fd = Some (Sock nb)" "i \<le> 8" "length bs = 8 - i"
    "stream none_retried (incoming os fd) = bs @ rest"
  shows "\<exists>b' es. read_out_size os fd b i n = Inr (b', bytes_size (take i (size_bytes n) @ bs),
      set_incoming os fd es) \<and> stream none_retried es = rest"
  using assms
proof (induction bs arbitrary: os b i n)
  case Nil
  then have "i = 8" by simp
  moreover have "take 8 (size_bytes n) = size_bytes n" by simp
  ultimately show ?case using Nil
    by (intro exI[of _ b] exI[of _ "incoming os fd"])
      (simp add: read_out_size.simps[of os] set_incoming_same)
next
  case (Cons c bs)
  obtain r os' where r: "sys_read os fd 1 = (r, os')" by fastforce
  have i: "i < 8" using Cons.prems(2,3) by simp
  have str: "stream none_retried (incoming os fd) = c # (bs @ rest)" using Cons.prems(4) by simp
  from r Cons.prems(1) str show ?case
  proof (rule sys_read_plain)
    fix es assume es: "r = RData [c]" "os' = set_incoming os fd es"
      "stream none_retried es = bs @ rest"
    have stored: "take (Suc i) (size_bytes (set_size_byte i c n)) = take i (size_bytes n) @ [c]"
      using i by (simp add: size_bytes_set take_Suc_conv_app_nth)
    have "\<exists>b' es'. read_out_size os' fd c (i + 1) (set_size_byte i c n) = Inr (b',
        bytes_size (take (i + 1) (size_bytes (set_size_byte i c n)) @ bs), set_incoming os' fd es')
      \<and> stream none_retried es' = rest"
      using Cons.prems es i by (intro Cons.IH) auto
    then show ?thesis using r es i stored
      by (subst read_out_size.simps) (auto simp: next_byte_def)
  qed
qed

lemma copy_loop_whole:
  assumes "fds os fd = Some (Sock nb)" "fds os out = Some (Sock nb')" "out \<noteq> fd"
    "wplan os out = []" "stream none_retried (incoming os fd) = body @ rest" "sz = int (length body)"
  shows "\<exists>es. copy_loop os fd out sz t = Some (Inr (t + sz,
      set_incoming (accept_bytes os out body) fd es)) \<and> stream none_retried es = rest"
  using assms
proof (induction "length body" arbitrary: os body sz t rule: less_induct)
  case less
  let ?n = "if 4096 < sz \<or> sz < 0 then 4096 else nat sz"
  show ?case
  proof (cases "body = []")
    case True
    then show ?thesis using less.prems(2,5,6)
      by (intro exI[of _ "incoming os fd"])
        (simp add: copy_loop.simps set_incoming_same offset_ok_def)
  next
    case False
    then have pos: "0 < ?n" "sz \<noteq> 0" using less.prems(6) by auto
    have ne: "stream none_retried (incoming os fd) \<noteq> []" using less.prems(5) False by simp
    obtain r os1 where r: "sys_read os fd ?n = (r, os1)" by fastforce
    from r less.prems(1) pos(1) ne show ?thesis
    proof (cases rule: sys_read_stream)
      case (bytes bs es)
      have "length bs \<le> length body" using bytes(3) less.prems(6) by (auto split: if_splits)
      then obtain body' where body': "body = bs @ body'" "stream none_retried es = body' @ rest"
        using bytes(5) less.prems(5) by (auto simp: append_eq_append_conv2)
      let ?os1 = "set_incoming os fd es"
      let ?os2 = "accept_bytes ?os1 out bs"
      have w: "sys_write ?os1 out bs = (WCount (length bs), ?os2)"
        using less.prems(2,4) by (simp add: sys_write_def)
      have os2: "?os2 = ?os1\<lparr>sent := (sent os)(out := sent os out @ bs)\<rparr>"
        using less.prems(2) by (simp add: io_simps)
      have "\<exists>es'. copy_loop ?os2 fd out (sz - int (length bs)) (t + int (length bs))
          = Some (Inr ((t + int (length bs)) + (sz - int (length bs)),
            set_incoming (accept_bytes ?os2 out body') fd es')) \<and> stream none_retried es' = rest"
      proof (rule less.hyps)
        show "length body' < length body" using body'(1) bytes(2) by simp
        show "sz - int (length bs) = int (length body')" using body'(1) less.prems(6) by simp
      qed (use less.prems(1-4) body'(2) os2 in simp_all)
      then obtain es' where es': "copy_loop ?os2 fd out (sz - int (length bs)) (t + int (length bs))
          = Some (Inr (t + sz, set_incoming (accept_bytes ?os2 out body') fd es'))"
        "stream none_retried es' = rest" by auto
      have "set_incoming (accept_bytes ?os2 out body') fd es'
          = set_incoming (accept_bytes os out body) fd es'"
        using less.prems(2) body'(1) by (simp add: accept_bytes_append set_incoming_def accept_bytes_def)
      moreover have "copy_loop os fd out sz t
          = copy_loop ?os2 fd out (sz - int (length bs)) (t + int (length bs))"
        using pos(2) r bytes(1,2,4) w by (subst copy_loop.simps) (simp add: Let_def)
      ultimately show ?thesis using es' by auto
    qed simp
  qed
qed

lemma output_reciever_prints:
  assumes "fds os fd = Some (Sock nb)" "fds os 1 = Some (Sock nb')" "fd \<noteq> 1" "wplan os 1 = []"
    "NEWLINE \<notin> set line" "length line \<le> BUF_SIZE" "length body < 2 ^ 63"
    "stream none_retried (incoming os fd) =
      line @ NEWLINE # size_bytes (of_nat (length body)) @ body @ rest"
  shows "\<exists>b' os'. output_reciever os fd b n = Inr (b', of_nat (length body), os')
    \<and> sent os' 1 = sent os 1 @ body \<and> stream none_retried (incoming os' fd) = rest"
proof -
  let ?w = "of_nat (length body) :: size_t"
  obtain es where h: "skip_header os fd b [] = Inr (NEWLINE, set_incoming os fd es)"
    "stream none_retried es = size_bytes ?w @ body @ rest"
    using skip_header_line[OF assms(1,5,8), of "[]"] assms(6) by auto
  let ?os1 = "set_incoming os fd es"
  have "fds ?os1 fd = Some (Sock nb)" "stream none_retried (incoming ?os1 fd) = size_bytes ?w @ (body @ rest)"
    using assms(1) h(2) by simp_all
  from read_out_size_whole[OF this(1) _ _ this(2), of 0 NEWLINE n] obtain b' fs where
    s: "read_out_size ?os1 fd NEWLINE 0 n = Inr (b', ?w, set_incoming ?os1 fd fs)"
    "stream none_retried fs = body @ rest" by auto
  let ?os2 = "set_incoming os fd fs"
  have f2: "fds ?os2 fd = Some (Sock nb)" "fds ?os2 1 = Some (Sock nb')" "wplan ?os2 1 = []"
    "stream none_retried (incoming ?os2 fd) = body @ rest" using assms(1,2,4) s(2) by simp_all
  have "sint ?w = int (length body)" using assms(7) by (rule sint_small)
  with copy_loop_whole[OF f2(1,2) _ f2(3,4), of "int (length body)" 0] assms(3) obtain gs where
    c: "write_all_from_socket_to_fd ?os2 fd 1 (sint ?w)
        = Inr (int (length body), set_incoming (accept_bytes ?os2 1 body) fd gs)"
    "stream none_retried gs = rest" by (auto simp: write_all_from_socket_to_fd_def)
  then have "output_reciever os fd b n
      = Inr (b', ?w, set_incoming (accept_bytes ?os2 1 body) fd gs)"
    using h(1) s(1) by (simp add: output_reciever_def)
  then show ?thesis using c(2) assms(2) by (simp add: io_simps)
qed

text \<open>When the master goes away the receiver stores the last byte it had again and again, until its
  buffer is full.\<close>

lemma skip_header_eof:
  "fds os fd = Some (Sock nb) \<Longrightarrow> incoming os fd = Eof # es \<Longrightarrow> b \<noteq> NEWLINE \<Longrightarrow>
    skip_header os fd b buff = Inl Out_of_bounds"
proof (induction "BUF_SIZE - length buff" arbitrary: buff)
  case 0
  then show ?case
    by (subst skip_header.simps) (simp add: sys_read_def Let_def next_byte_def set_incoming_same)
next
  case (Suc k)
  then have "skip_header os fd b (buff @ [b]) = Inl Out_of_bounds" by simp
  moreover have "sys_read os fd 1 = (RData [], os)"
    using Suc.prems(1,2) by (simp add: sys_read_def set_incoming_same)
  ultimately show ?case using Suc.prems(3) by (subst skip_header.simps) (simp add: next_byte_def)
qed

end
