(* ===== verification/Cluster_Protocol.thy ===== *)
theory Cluster_Protocol
  imports Master_Message Worker_Props Interface_Turns
begin

text \<open>
  The three programs together: what the interface sends is a request the master understands, what the
  master sends on is a request the worker understands, what the worker sends is an answer the master
  understands, and what the master sends on is printed by the interface. The network is the assumption
  that the bytes delivered on one connection are the bytes sent on the other end, in whatever pieces.
\<close>

section \<open>One format\<close>

text \<open>Each program has its own code for the frame; they agree.\<close>

lemma request_is_message: "request_frame name body = message INTERFACE_PUT name body"
  by (simp add: request_frame_def message_def header_line_def)

lemma result_is_message: "result_frame name body = message PUT name body"
  by (simp add: result_frame_def create_header_def message_def header_line_def)

lemma put_frame_is_message: "put_frame name body = message PUT name body"
  by (simp add: put_frame_def put_header_def message_def header_line_def)

lemma put_frame_worker:
  "put_frame name body = create_header name @ size_bytes (of_nat (length body)) @ body"
  by (simp add: put_frame_def put_header_def create_header_def)

lemma retried_worker: "retried_by_worker = (\<lambda>e. e = EINTR)"
  by (simp add: fun_eq_iff retried_by_worker_def)

section \<open>A program on its way to a worker\<close>

text \<open>The last leg: a worker to which the master's frame is delivered.\<close>

lemma frame_accepted:
  assumes "fds os fd = Some (Sock nb)" "length body < 2 ^ 63" "good_name name"
    "stream (\<lambda>e. e = EINTR) (incoming os fd) = put_frame name body @ rest"
    "\<not> denied os name" "\<not> denied os (name @ OUTPUT_FILE_FORMAT)" "fd < next_fd os" "0 \<le> next_fd os"
  shows "\<exists>t os'. worker_request False os fd raw = Inr (New_task t, os')
    \<and> input_filename t = Some name \<and> disk os' name = Some body
    \<and> stream (\<lambda>e. e = EINTR) (incoming os' fd) = rest"
proof -
  have n: "length name < 2 ^ 60" "NUL \<notin> set name" "NEWLINE \<notin> set name"
    using assms(3) by (auto simp: good_name_def)
  have "stream retried_by_worker (incoming os fd)
      = create_header name @ size_bytes (of_nat (length body)) @ body @ rest"
    using assms(4) by (simp add: retried_worker put_frame_worker)
  from worker_request_whole[OF assms(1,2) n this assms(5-8)] obtain os' where
    "worker_request False os fd raw = Inr (New_task \<lparr>input_filename = Some name,
      output_filename = Some (name @ OUTPUT_FILE_FORMAT), output_fd = next_fd os + 1\<rparr>, os')"
    "disk os' = (disk os)(name \<mapsto> body, name @ OUTPUT_FILE_FORMAT \<mapsto> [])"
    "stream retried_by_worker (incoming os' fd) = rest" by metis
  then show ?thesis by (auto simp: retried_worker)
qed

lemma good_name_word:
  assumes "name \<noteq> []" "\<forall>c\<in>set name. \<not> isspace c" "NUL \<notin> set name" "length name \<le> 1000"
  shows "good_name name"
proof -
  have "NEWLINE \<notin> set name" using assms(2) by (auto simp: isspace_def)
  then show ?thesis using assms by (simp add: good_name_def)
qed

section \<open>A result on its way back\<close>

lemma result_sent:
  assumes "input_filename task = Some name" "fds os fd = Some (Sock nb)"
    "fds os (output_fd task) = Some (File f off)" "disk os f = Some c" "length c < 2 ^ 63"
    "willing retried_by_worker (wplan os fd)" "incoming os (output_fd task) = []"
  shows "\<exists>os'. send_result os fd raw task = Inr (True, os')
    \<and> sent os' fd = sent os fd @ message PUT name c \<and> fds os' (output_fd task) = None"
  using send_result_whole[OF assms] by (simp add: result_is_message)

text \<open>The last leg: the interface to which the master's frame is delivered.\<close>

lemma frame_printed:
  assumes "fds os fd = Some (Sock nb)" "fds os 1 = Some (Sock nb')" "fd \<noteq> 1" "wplan os 1 = []"
    "good_name name" "length body < 2 ^ 63"
    "stream none_retried (incoming os fd) = put_frame name body @ rest"
  shows "\<exists>b' os'. output_reciever os fd b n = Inr (b', of_nat (length body), os')
    \<and> sent os' 1 = sent os 1 @ body \<and> stream none_retried (incoming os' fd) = rest"
proof (rule output_reciever_prints[OF assms(1-4)])
  show "NEWLINE \<notin> set (''PUT '' @ name)" "length (''PUT '' @ name) \<le> BUF_SIZE"
    using assms(5) by (auto simp: good_name_def)
  show "stream none_retried (incoming os fd)
      = (''PUT '' @ name) @ NEWLINE # size_bytes (of_nat (length body)) @ body @ rest"
    using assms(7) by (simp add: put_frame_def put_header_def)
qed (rule assms(6))

end
