(* ===== verification/Worker_Process.thy ===== *)
theory Worker_Process
  imports Worker_Props
begin

text \<open>
  The worker process: the thread of \<^verbatim>\<open>worker_main\<close>, the five \<^verbatim>\<open>tasking\<close> threads, the \<^verbatim>\<open>sending\<close>
  thread and the \<^verbatim>\<open>heartbeat\<close> thread, over the two queues of \<^verbatim>\<open>queue.c\<close>. A step is what one thread
  does between two synchronisation points; a call that would wait has no step. SIGINT, the arrival of
  data and the program run by \<^verbatim>\<open>system\<close> are free. Task structs are on a heap of their own; address 1
  is the local variable of \<^verbatim>\<open>worker_main\<close>; the names in them are values. \<open>received\<close> and \<open>returned\<close>
  record the tasks the main thread took in and those whose result was sent in full.
\<close>

section \<open>Task structs\<close>

record task_heap =
  w_tasks :: "ptr \<Rightarrow> task_t option"
  w_next :: ptr

definition task_copy_constructor :: "ptr \<Rightarrow> task_heap \<Rightarrow> ptr \<times> task_heap" where
  "task_copy_constructor elem h =
     (w_next h, h\<lparr>w_tasks := (w_tasks h)(w_next h := w_tasks h elem), w_next := w_next h + 1\<rparr>)"

definition task_destructor :: "ptr \<Rightarrow> task_heap \<Rightarrow> task_heap" where
  "task_destructor elem h = h\<lparr>w_tasks := (w_tasks h)(elem := None)\<rparr>"

abbreviation (input) new_task :: ptr where "new_task \<equiv> 1"

definition end_task :: task_t where
  "end_task = \<lparr>input_filename = None, output_filename = None, output_fd = 0\<rparr>"

section \<open>The state\<close>

datatype main_at = Reading | Has_task | Leaving | Ending nat | Joining | Ended

text \<open>\<open>Failed\<close> is the sending thread after an error, with the task it had.\<close>

datatype thread_at = Pulls | Holds ptr | Ran ptr | Exited | Failed ptr

datatype beat_at = Tests | Sends | Gone

record wproc =
  p_os :: osys
  p_fd :: int
  p_heap :: task_heap
  task_queue :: "task_heap queue"
  finished_task_queue :: "task_heap queue"
  stay_alive :: bool
  quitting :: bool
  main_thread :: main_at
  tasking_threads :: "nat \<Rightarrow> thread_at"
  sending_thread :: thread_at
  heartbeat_thread :: beat_at
  received :: "task_t list"
  returned :: "task_t list"

definition worker_start :: "osys \<Rightarrow> int \<Rightarrow> wproc" where
  "worker_start os socket_fd = \<lparr>p_os = os, p_fd = socket_fd,
     p_heap = \<lparr>w_tasks = (\<lambda>_. None), w_next = 2\<rparr>,
     task_queue = queue_create MAX_CONCURRENT_TASK task_copy_constructor task_destructor,
     finished_task_queue = queue_create (- 1) task_copy_constructor task_destructor,
     stay_alive = True, quitting = False, main_thread = Reading,
     tasking_threads = (\<lambda>_. Pulls), sending_thread = Pulls, heartbeat_thread = Tests,
     received = [], returned = []\<rparr>"

section \<open>The main thread\<close>

definition set_local :: "task_t \<Rightarrow> wproc \<Rightarrow> wproc" where
  "set_local t w = w\<lparr>p_heap := (p_heap w)\<lparr>w_tasks := (w_tasks (p_heap w))(new_task \<mapsto> t)\<rparr>\<rparr>"

text \<open>One turn of the loop up to \<^verbatim>\<open>queue_push\<close>. \<open>q\<close> is the flag after the line was read.\<close>

definition main_reads :: "size_t \<Rightarrow> bool \<Rightarrow> wproc \<Rightarrow> wproc res" where
  "main_reads raw q w =
     bindr (worker_request q (p_os w) (p_fd w) raw) (\<lambda>(r, os).
       let w = w\<lparr>p_os := os, quitting := q\<rparr> in
       Inr (case r of
         Stop \<Rightarrow> w\<lparr>main_thread := Leaving\<rparr>
       | Skip \<Rightarrow> w
       | New_task t \<Rightarrow> set_local t (w\<lparr>main_thread := Has_task, received := received w @ [t]\<rparr>)))"

definition push_local :: "wproc \<Rightarrow> wproc res" where
  "push_local w = bindr (queue_push (task_queue w) new_task (p_heap w)) (\<lambda>(q, h).
     Inr (w\<lparr>task_queue := q, p_heap := h\<rparr>))"

definition push_finished :: "ptr \<Rightarrow> wproc \<Rightarrow> wproc res" where
  "push_finished p w = bindr (queue_push (finished_task_queue w) p (p_heap w)) (\<lambda>(q, h).
     Inr (w\<lparr>finished_task_queue := q, p_heap := h\<rparr>))"

text \<open>The clean-up up to the first push.\<close>

definition main_closes :: "wproc \<Rightarrow> wproc" where
  "main_closes w = set_local end_task
     (w\<lparr>stay_alive := False, p_os := sys_close (p_os w) (p_fd w), main_thread := Ending NUM_THREAD\<rparr>)"

definition main_destroys :: "wproc \<Rightarrow> wproc res" where
  "main_destroys w = bindr (queue_destroy (task_queue w) (p_heap w)) (\<lambda>h.
     bindr (queue_destroy (finished_task_queue w) h) (\<lambda>h.
     Inr (w\<lparr>p_heap := h, main_thread := Ended\<rparr>)))"

section \<open>The other threads\<close>

definition task_pulls :: "nat \<Rightarrow> wproc \<Rightarrow> wproc res" where
  "task_pulls i w = bindr (queue_pull (task_queue w)) (\<lambda>(p, q).
     Inr (w\<lparr>task_queue := q, tasking_threads := (tasking_threads w)(i := Holds p)\<rparr>))"

definition task_runs :: "(string \<Rightarrow> osys \<Rightarrow> int \<times> osys) \<Rightarrow> nat \<Rightarrow> ptr \<Rightarrow> wproc \<Rightarrow> wproc res" where
  "task_runs run i p w =
     bindr (deref (w_tasks (p_heap w)) p) (\<lambda>task.
     bindr (run_task run (p_os w) task) (\<lambda>(more, os).
     Inr (w\<lparr>p_os := os,
       tasking_threads := (tasking_threads w)(i := (if more then Ran p else Exited))\<rparr>)))"

definition task_pushes :: "nat \<Rightarrow> ptr \<Rightarrow> wproc \<Rightarrow> wproc res" where
  "task_pushes i p w = bindr (push_finished p w) (\<lambda>w.
     Inr (w\<lparr>tasking_threads := (tasking_threads w)(i := Pulls)\<rparr>))"

definition send_pulls :: "wproc \<Rightarrow> wproc res" where
  "send_pulls w = bindr (queue_pull (finished_task_queue w)) (\<lambda>(p, q).
     Inr (w\<lparr>finished_task_queue := q, sending_thread := Holds p\<rparr>))"

definition send_sends :: "char list \<Rightarrow> ptr \<Rightarrow> wproc \<Rightarrow> wproc res" where
  "send_sends raw p w =
     bindr (deref (w_tasks (p_heap w)) p) (\<lambda>task.
     bindr (send_result (p_os w) (p_fd w) raw task) (\<lambda>(more, os).
     Inr (if more then w\<lparr>p_os := os, sending_thread := Pulls, returned := returned w @ [task]\<rparr>
          else w\<lparr>p_os := os,
            sending_thread := (if input_filename task = None then Exited else Failed p)\<rparr>)))"

text \<open>The heartbeat thread: the test of the loop, and one datagram. The text of the load and the
  result of \<^verbatim>\<open>sendto\<close> are free.\<close>

definition heartbeat_tests :: "wproc \<Rightarrow> wproc" where
  "heartbeat_tests w = w\<lparr>heartbeat_thread := (if stay_alive w then Sends else Gone)\<rparr>"

definition heartbeat_sends ::
  "(dbl \<Rightarrow> string) \<Rightarrow> (char list \<Rightarrow> int) \<Rightarrow> char list \<Rightarrow> dbl \<Rightarrow> wproc \<Rightarrow> wproc res" where
  "heartbeat_sends format sendto raw cpu_usage w =
     bindr (send_heartbeat format sendto raw cpu_usage) (\<lambda>status.
     Inr (w\<lparr>heartbeat_thread := (if status = - 1 then Gone else Tests)\<rparr>))"

section \<open>Steps\<close>

text \<open>\<^verbatim>\<open>pthread_join\<close> has returned for every other thread.\<close>

definition all_left :: "wproc \<Rightarrow> bool" where
  "all_left w \<longleftrightarrow> (\<forall>i<NUM_THREAD. tasking_threads w i = Exited)
     \<and> (case sending_thread w of Exited \<Rightarrow> True | Failed _ \<Rightarrow> True | _ \<Rightarrow> False)
     \<and> heartbeat_thread w = Gone"

text \<open>A step of one of the threads of the process.\<close>

inductive thread_step :: "wproc \<Rightarrow> wproc \<Rightarrow> bool" where
  quits: "main_thread w = Reading \<Longrightarrow> quitting w \<Longrightarrow> thread_step w (w\<lparr>main_thread := Leaving\<rparr>)"
| reads: "main_thread w = Reading \<Longrightarrow> \<not> quitting w \<Longrightarrow> main_reads raw q w = Inr w' \<Longrightarrow> thread_step w w'"
| pushes: "main_thread w = Has_task \<Longrightarrow> push_local w = Inr w' \<Longrightarrow>
    thread_step w (w'\<lparr>main_thread := Reading\<rparr>)"
| closes: "main_thread w = Leaving \<Longrightarrow> thread_step w (main_closes w)"
| ends: "main_thread w = Ending (Suc n) \<Longrightarrow> push_local w = Inr w' \<Longrightarrow>
    thread_step w (w'\<lparr>main_thread := Ending n\<rparr>)"
| ends_finished: "main_thread w = Ending 0 \<Longrightarrow> push_finished new_task w = Inr w' \<Longrightarrow>
    thread_step w (w'\<lparr>main_thread := Joining\<rparr>)"
| joins: "main_thread w = Joining \<Longrightarrow> all_left w \<Longrightarrow> main_destroys w = Inr w' \<Longrightarrow>
    thread_step w w'"
| t_pulls: "i < NUM_THREAD \<Longrightarrow> tasking_threads w i = Pulls \<Longrightarrow> task_pulls i w = Inr w' \<Longrightarrow>
    thread_step w w'"
| t_runs: "i < NUM_THREAD \<Longrightarrow> tasking_threads w i = Holds p \<Longrightarrow>
    \<forall>cmd os fd. fds (snd (run cmd os)) fd = None \<longleftrightarrow> fds os fd = None \<Longrightarrow>
    task_runs run i p w = Inr w' \<Longrightarrow> thread_step w w'"
| t_pushes: "i < NUM_THREAD \<Longrightarrow> tasking_threads w i = Ran p \<Longrightarrow> task_pushes i p w = Inr w' \<Longrightarrow>
    thread_step w w'"
| s_pulls: "sending_thread w = Pulls \<Longrightarrow> send_pulls w = Inr w' \<Longrightarrow> thread_step w w'"
| s_sends: "sending_thread w = Holds p \<Longrightarrow> send_sends raw p w = Inr w' \<Longrightarrow> thread_step w w'"
| h_tests: "heartbeat_thread w = Tests \<Longrightarrow> thread_step w (heartbeat_tests w)"
| h_sends: "heartbeat_thread w = Sends \<Longrightarrow>
    heartbeat_sends format sendto raw (get_local_usage a b) w = Inr w' \<Longrightarrow> thread_step w w'"

text \<open>The steps of the process and of its environment: more arrives on the connection; SIGINT runs
  \<^verbatim>\<open>kill_worker\<close>, which sets the flag and shuts the connection down, so that what arrives ends and
  what is written may fail from some point on.\<close>

inductive worker_step :: "wproc \<Rightarrow> wproc \<Rightarrow> bool" where
  thread: "thread_step w w' \<Longrightarrow> worker_step w w'"
| arrives: "worker_step w (w\<lparr>p_os := feed (p_os w) (p_fd w) es\<rparr>)"
| sigint: "worker_step w (w\<lparr>quitting := True,
    p_os := set_wplan (set_incoming (p_os w) (p_fd w) (es @ [Eof])) (p_fd w) ps\<rparr>)"

inductive worker_reach :: "wproc \<Rightarrow> wproc \<Rightarrow> bool" for w0 where
  start: "worker_reach w0 w0"
| step: "worker_reach w0 w \<Longrightarrow> worker_step w w' \<Longrightarrow> worker_reach w0 w'"

end
