(* ===== verification/Worker_Inv.thy ===== *)
theory Worker_Inv
  imports Worker_Process "HOL-Library.Multiset"
begin

text \<open>
  The worker's invariant: both queues are well formed, every pointer in a queue or in a thread's hands
  is a task struct, each task taken in is in exactly one place (pending, queued, being run, finished,
  being sent, returned), and at shutdown there is a sentinel for every thread that has not left.
\<close>

section \<open>Weights\<close>

text \<open>Both counts add a weight over the pointers in a queue and over the threads.\<close>

definition total :: "('a \<Rightarrow> 'm::comm_monoid_add) \<Rightarrow> 'a list \<Rightarrow> 'm" where
  "total f ps = sum_list (map f ps)"

lemma total_simps [simp]:
  "total f [] = 0" "total f (p # ps) = f p + total f ps" "total f (ps @ qs) = total f ps + total f qs"
  by (simp_all add: total_def)

lemma total_cong: "(\<And>p. p \<in> set ps \<Longrightarrow> f p = g p) \<Longrightarrow> total f ps = total g ps"
  by (simp add: total_def cong: map_cong)

lemma total_zero: "total f ps = (0 :: nat) \<longleftrightarrow> (\<forall>p\<in>set ps. f p = 0)"
  by (induction ps) auto

definition over_threads :: "(thread_at \<Rightarrow> 'm::comm_monoid_add) \<Rightarrow> (nat \<Rightarrow> thread_at) \<Rightarrow> 'm" where
  "over_threads f th = (\<Sum>i<NUM_THREAD. f (th i))"

lemma over_threads_upd:
  assumes "i < NUM_THREAD"
  shows "over_threads f (th(i := x)) + f (th i) = over_threads f th + f x"
proof -
  have s: "over_threads f t = f (t i) + (\<Sum>j\<in>{..<NUM_THREAD} - {i}. f (t j))" for t
    unfolding over_threads_def using assms by (intro sum.remove) auto
  have "(\<Sum>j\<in>{..<NUM_THREAD} - {i}. f ((th(i := x)) j)) = (\<Sum>j\<in>{..<NUM_THREAD} - {i}. f (th j))"
    by (intro sum.cong) auto
  with s[of th] s[of "th(i := x)"] show ?thesis by (simp add: ac_simps)
qed

lemma over_threads_same:
  "i < NUM_THREAD \<Longrightarrow> f x = f (th i) \<Longrightarrow> over_threads f (th(i := x)) = over_threads f th"
  unfolding over_threads_def by (intro sum.cong) auto

lemma over_threads_cong:
  "(\<And>i. i < NUM_THREAD \<Longrightarrow> f (th i) = g (th i)) \<Longrightarrow> over_threads f th = over_threads g th"
  unfolding over_threads_def by (intro sum.cong) auto

section \<open>What a pointer and a thread stand for\<close>

definition named :: "task_heap \<Rightarrow> ptr \<Rightarrow> task_t multiset" where
  "named h p = (case w_tasks h p of
     Some t \<Rightarrow> if input_filename t = None then {#} else {#t#} | None \<Rightarrow> {#})"

definition sentinel :: "task_heap \<Rightarrow> ptr \<Rightarrow> nat" where
  "sentinel h p = (case w_tasks h p of
     Some t \<Rightarrow> if input_filename t = None then 1 else 0 | None \<Rightarrow> 0)"

fun held :: "thread_at \<Rightarrow> ptr list" where
  "held (Holds p) = [p]"
| "held (Ran p) = [p]"
| "held (Failed p) = [p]"
| "held _ = []"

definition carried :: "task_heap \<Rightarrow> thread_at \<Rightarrow> task_t multiset" where
  "carried h t = total (named h) (held t)"

fun left :: "task_heap \<Rightarrow> thread_at \<Rightarrow> nat" where
  "left h Exited = 1"
| "left h (Holds p) = sentinel h p"
| "left h _ = 0"

fun owed :: "main_at \<Rightarrow> nat" where
  "owed (Ending n) = n"
| "owed Joining = 0"
| "owed Ended = 0"
| "owed _ = NUM_THREAD"

fun owed_finished :: "main_at \<Rightarrow> nat" where
  "owed_finished Joining = 0"
| "owed_finished Ended = 0"
| "owed_finished _ = 1"

section \<open>The invariant\<close>

definition queues_ok :: "wproc \<Rightarrow> ptr list \<Rightarrow> ptr list \<Rightarrow> bool" where
  "queues_ok w tq fq \<longleftrightarrow> queue_holds (task_queue w) tq \<and> queue_holds (finished_task_queue w) fq
     \<and> q_copy (task_queue w) = task_copy_constructor
     \<and> q_copy (finished_task_queue w) = task_copy_constructor
     \<and> max_size (task_queue w) = MAX_CONCURRENT_TASK \<and> max_size (finished_task_queue w) = - 1
     \<and> int (length tq) \<le> MAX_CONCURRENT_TASK"

definition in_use :: "wproc \<Rightarrow> ptr list \<Rightarrow> ptr list \<Rightarrow> ptr set" where
  "in_use w tq fq = set tq \<union> set fq \<union> set (held (sending_thread w))
     \<union> (\<Union>i<NUM_THREAD. set (held (tasking_threads w i)))"

definition pointers_ok :: "wproc \<Rightarrow> ptr list \<Rightarrow> ptr list \<Rightarrow> bool" where
  "pointers_ok w tq fq \<longleftrightarrow> new_task < w_next (p_heap w)
     \<and> (\<forall>p\<in>in_use w tq fq. new_task < p \<and> p < w_next (p_heap w) \<and> w_tasks (p_heap w) p \<noteq> None)"

definition threads_ok :: "wproc \<Rightarrow> bool" where
  "threads_ok w \<longleftrightarrow> (\<forall>i<NUM_THREAD. \<forall>p. tasking_threads w i \<noteq> Failed p
       \<and> (tasking_threads w i = Ran p \<longrightarrow> sentinel (p_heap w) p = 0))
     \<and> (\<forall>p. sending_thread w \<noteq> Ran p
       \<and> (sending_thread w = Failed p \<longrightarrow> sentinel (p_heap w) p = 0))"

definition local_ok :: "wproc \<Rightarrow> bool" where
  "local_ok w \<longleftrightarrow> (case main_thread w of
     Has_task \<Rightarrow> \<exists>t. w_tasks (p_heap w) new_task = Some t \<and> input_filename t \<noteq> None
   | Ending n \<Rightarrow> w_tasks (p_heap w) new_task = Some end_task
   | _ \<Rightarrow> True)
   \<and> (\<forall>t\<in>set (received w). \<exists>f. input_filename t = Some f
        \<and> output_filename t = Some (f @ OUTPUT_FILE_FORMAT))"

definition conserved :: "wproc \<Rightarrow> ptr list \<Rightarrow> ptr list \<Rightarrow> bool" where
  "conserved w tq fq \<longleftrightarrow> mset (received w) =
     (if main_thread w = Has_task then named (p_heap w) new_task else {#})
     + total (named (p_heap w)) tq + over_threads (carried (p_heap w)) (tasking_threads w)
     + total (named (p_heap w)) fq + carried (p_heap w) (sending_thread w) + mset (returned w)"

definition sentinels_ok :: "wproc \<Rightarrow> ptr list \<Rightarrow> ptr list \<Rightarrow> bool" where
  "sentinels_ok w tq fq \<longleftrightarrow>
     total (sentinel (p_heap w)) tq + over_threads (left (p_heap w)) (tasking_threads w)
       + owed (main_thread w) = NUM_THREAD
   \<and> total (sentinel (p_heap w)) fq + left (p_heap w) (sending_thread w)
       + owed_finished (main_thread w) = 1"

definition closed_ok :: "wproc \<Rightarrow> bool" where
  "closed_ok w \<longleftrightarrow> (case main_thread w of Reading \<Rightarrow> True | Has_task \<Rightarrow> True | Leaving \<Rightarrow> True
     | Ended \<Rightarrow> False | _ \<Rightarrow> fds (p_os w) (p_fd w) = None \<and> \<not> stay_alive w)"

lemmas inv_defs = queues_ok_def pointers_ok_def threads_ok_def local_ok_def conserved_def
  sentinels_ok_def closed_ok_def

definition worker_holds :: "wproc \<Rightarrow> ptr list \<Rightarrow> ptr list \<Rightarrow> bool" where
  "worker_holds w tq fq \<longleftrightarrow> queues_ok w tq fq \<and> pointers_ok w tq fq \<and> threads_ok w \<and> local_ok w
     \<and> conserved w tq fq \<and> sentinels_ok w tq fq \<and> closed_ok w"

definition worker_inv :: "wproc \<Rightarrow> bool" where
  "worker_inv w \<longleftrightarrow> main_thread w = Ended \<and> all_left w \<or> (\<exists>tq fq. worker_holds w tq fq)"

lemma worker_start_holds: "worker_holds (worker_start os fd) [] []"
  unfolding worker_holds_def
  by (auto simp: inv_defs worker_start_def queue_create_holds in_use_def over_threads_def
      carried_def) (simp_all add: queue_create_def)

lemma worker_start_inv: "worker_inv (worker_start os fd)"
  using worker_start_holds by (auto simp: worker_inv_def)

section \<open>Pushing\<close>

text \<open>A push copies the struct to a fresh address; the old addresses keep their tasks.\<close>

definition copied :: "task_heap \<Rightarrow> ptr \<Rightarrow> task_heap" where
  "copied h p = snd (task_copy_constructor p h)"

lemma copied_simps [simp]:
  "w_next (copied h p) = Suc (w_next h)"
  "w_tasks (copied h p) = (w_tasks h)(w_next h := w_tasks h p)"
  by (simp_all add: copied_def task_copy_constructor_def)

lemma named_copied [simp]:
  "x \<noteq> w_next h \<Longrightarrow> named (copied h p) x = named h x"
  "named (copied h p) (w_next h) = named h p"
  by (simp_all add: named_def)

lemma sentinel_copied [simp]:
  "x \<noteq> w_next h \<Longrightarrow> sentinel (copied h p) x = sentinel h x"
  "sentinel (copied h p) (w_next h) = sentinel h p"
  by (simp_all add: sentinel_def)

lemma push_copies:
  assumes "queue_holds q ds" "q_copy q = task_copy_constructor" "queue_push q p h = Inr (q', h')"
  shows "queue_holds q' (ds @ [w_next h])" "h' = copied h p" "max_size q' = max_size q"
    "q_copy q' = q_copy q" "\<not> queue_full q"
proof -
  show free: "\<not> queue_full q" using assms(3) by (auto simp: queue_push_def)
  have "q_copy q p h = (w_next h, copied h p)"
    using assms(2) by (simp add: copied_def task_copy_constructor_def)
  from assms(1) free this obtain q1 where "queue_push q p h = Inr (q1, copied h p)"
    "queue_holds q1 (ds @ [w_next h])" "max_size q1 = max_size q" "q_copy q1 = q_copy q"
    by (rule queue_push_ok)
  then show "queue_holds q' (ds @ [w_next h])" "h' = copied h p" "max_size q' = max_size q"
    "q_copy q' = q_copy q" using assms(3) by auto
qed

text \<open>Pointers below the next address keep their weight.\<close>

definition below :: "task_heap \<Rightarrow> ptr set \<Rightarrow> bool" where
  "below h S \<longleftrightarrow> (\<forall>p\<in>S. p < w_next h)"

lemma below_copied:
  "below h (set ps) \<Longrightarrow> total (named (copied h p)) ps = total (named h) ps"
  "below h (set ps) \<Longrightarrow> total (sentinel (copied h p)) ps = total (sentinel h) ps"
  by (auto simp: below_def intro!: total_cong)

lemma thread_copied:
  "below h (set (held t)) \<Longrightarrow> carried (copied h p) t = carried h t"
  "below h (set (held t)) \<Longrightarrow> left (copied h p) t = left h t"
  by (cases t; simp add: carried_def below_def)+

lemma threads_copied:
  assumes "\<And>i. i < NUM_THREAD \<Longrightarrow> below h (set (held (th i)))"
  shows "over_threads (carried (copied h p)) th = over_threads (carried h) th"
    "over_threads (left (copied h p)) th = over_threads (left h) th"
  using assms by (auto intro!: over_threads_cong simp: thread_copied)

lemma in_use_below:
  assumes "pointers_ok w tq fq"
  shows "below (p_heap w) (set tq)" "below (p_heap w) (set fq)"
    "below (p_heap w) (set (held (sending_thread w)))"
    "i < NUM_THREAD \<Longrightarrow> below (p_heap w) (set (held (tasking_threads w i)))"
  using assms by (auto simp: pointers_ok_def in_use_def below_def)

text \<open>What any push leaves as it was.\<close>

lemma heap_copied_ok:
  assumes "worker_holds w tq fq" "w_tasks (p_heap w) p \<noteq> None"
    "p_heap w' = copied (p_heap w) p" "tasking_threads w' = tasking_threads w"
    "sending_thread w' = sending_thread w"
  shows "threads_ok w'" "pointers_ok w' (tq @ [w_next (p_heap w)]) fq"
    "pointers_ok w' tq (fq @ [w_next (p_heap w)])"
    "total (named (p_heap w')) tq = total (named (p_heap w)) tq"
    "total (named (p_heap w')) fq = total (named (p_heap w)) fq"
    "total (sentinel (p_heap w')) tq = total (sentinel (p_heap w)) tq"
    "total (sentinel (p_heap w')) fq = total (sentinel (p_heap w)) fq"
    "over_threads (carried (p_heap w')) (tasking_threads w') = over_threads (carried (p_heap w)) (tasking_threads w)"
    "over_threads (left (p_heap w')) (tasking_threads w') = over_threads (left (p_heap w)) (tasking_threads w)"
    "carried (p_heap w') (sending_thread w') = carried (p_heap w) (sending_thread w)"
    "left (p_heap w') (sending_thread w') = left (p_heap w) (sending_thread w)"
    "w_tasks (p_heap w') new_task = w_tasks (p_heap w) new_task"
proof -
  have ok: "pointers_ok w tq fq" "threads_ok w" using assms(1) by (simp_all add: worker_holds_def)
  note b = in_use_below[OF ok(1)]
  show "threads_ok w'" unfolding threads_ok_def
  proof (intro conjI allI impI)
    fix i p' assume i: "i < NUM_THREAD"
    show "tasking_threads w' i \<noteq> Failed p'" using ok(2) i assms(4) by (simp add: threads_ok_def)
    assume r: "tasking_threads w' i = Ran p'"
    then have "p' < w_next (p_heap w)" using b(4)[OF i] assms(4) by (simp add: below_def)
    then show "sentinel (p_heap w') p' = 0" using ok(2) i r assms(3,4) by (simp add: threads_ok_def)
  next
    fix p' show "sending_thread w' \<noteq> Ran p'" using ok(2) assms(5) by (simp add: threads_ok_def)
    assume f: "sending_thread w' = Failed p'"
    then have "p' < w_next (p_heap w)" using b(3) assms(5) by (simp add: below_def)
    then show "sentinel (p_heap w') p' = 0" using ok(2) f assms(3,5) by (simp add: threads_ok_def)
  qed
  have old: "new_task < w_next (p_heap w)" "\<And>x. x \<in> in_use w tq fq \<Longrightarrow>
      new_task < x \<and> x < w_next (p_heap w) \<and> w_tasks (p_heap w) x \<noteq> None"
    using ok(1) by (simp_all add: pointers_ok_def)
  have use: "in_use w' (tq @ [w_next (p_heap w)]) fq = insert (w_next (p_heap w)) (in_use w tq fq)"
    "in_use w' tq (fq @ [w_next (p_heap w)]) = insert (w_next (p_heap w)) (in_use w tq fq)"
    using assms(4,5) by (auto simp: in_use_def)
  show "pointers_ok w' (tq @ [w_next (p_heap w)]) fq" "pointers_ok w' tq (fq @ [w_next (p_heap w)])"
    unfolding pointers_ok_def use using old assms(2,3) by (auto dest: old(2))
qed (use assms in_use_below[of w tq fq] in \<open>simp_all add: worker_holds_def below_copied threads_copied
      thread_copied pointers_ok_def\<close>)

lemma push_local_holds:
  assumes "worker_holds w tq fq" "push_local w = Inr w1" "w_tasks (p_heap w) new_task \<noteq> None"
  defines "n \<equiv> w_next (p_heap w)"
  obtains q' where "w1 = w\<lparr>task_queue := q', p_heap := copied (p_heap w) new_task\<rparr>"
    "queues_ok w1 (tq @ [n]) fq"
proof -
  have q: "queues_ok w tq fq" using assms(1) by (simp add: worker_holds_def)
  obtain q' h' where p: "queue_push (task_queue w) new_task (p_heap w) = Inr (q', h')"
    "w1 = w\<lparr>task_queue := q', p_heap := h'\<rparr>"
    using assms(2) by (auto simp: push_local_def bindr_eq_Inr)
  note c = push_copies[OF _ _ p(1), of tq]
  have "w1 = w\<lparr>task_queue := q', p_heap := copied (p_heap w) new_task\<rparr>"
    using p(2) c(2) q by (simp add: queues_ok_def)
  moreover have "queues_ok w1 (tq @ [n]) fq"
    using q c p(2) queue_holds_size[of "task_queue w" tq]
    by (auto simp: queues_ok_def n_def queue_full_def)
  ultimately show thesis by (rule that)
qed

lemma push_finished_holds:
  assumes "worker_holds w tq fq" "push_finished p w = Inr w1" "w_tasks (p_heap w) p \<noteq> None"
  defines "n \<equiv> w_next (p_heap w)"
  obtains q' where "w1 = w\<lparr>finished_task_queue := q', p_heap := copied (p_heap w) p\<rparr>"
    "queues_ok w1 tq (fq @ [n])"
proof -
  have q: "queues_ok w tq fq" using assms(1) by (simp add: worker_holds_def)
  obtain q' h' where p: "queue_push (finished_task_queue w) p (p_heap w) = Inr (q', h')"
    "w1 = w\<lparr>finished_task_queue := q', p_heap := h'\<rparr>"
    using assms(2) by (auto simp: push_finished_def bindr_eq_Inr)
  note c = push_copies[OF _ _ p(1), of fq]
  have "w1 = w\<lparr>finished_task_queue := q', p_heap := copied (p_heap w) p\<rparr>"
    using p(2) c(2) q by (simp add: queues_ok_def)
  moreover have "queues_ok w1 tq (fq @ [n])" using q c p(2) by (auto simp: queues_ok_def n_def)
  ultimately show thesis by (rule that)
qed

section \<open>The steps of the main thread\<close>

lemma new_task_apart: "pointers_ok w tq fq \<Longrightarrow> new_task < w_next (p_heap w)"
  by (simp add: pointers_ok_def)

lemma pushes_holds:
  assumes "worker_holds w tq fq" "main_thread w = Has_task" "push_local w = Inr w1"
  shows "worker_holds (w1\<lparr>main_thread := Reading\<rparr>) (tq @ [w_next (p_heap w)]) fq"
proof -
  let ?h = "p_heap w" and ?w' = "w1\<lparr>main_thread := Reading\<rparr>"
  note parts = assms(1)[unfolded worker_holds_def]
  obtain t where t: "w_tasks ?h new_task = Some t" "input_filename t \<noteq> None"
    using parts assms(2) by (auto simp: local_ok_def)
  then have some: "w_tasks ?h new_task \<noteq> None" by simp
  obtain q' where p: "w1 = w\<lparr>task_queue := q', p_heap := copied ?h new_task\<rparr>"
    "queues_ok w1 (tq @ [w_next ?h]) fq" using push_local_holds[OF assms(1,3) some] .
  have fields: "p_heap ?w' = copied ?h new_task" "tasking_threads ?w' = tasking_threads w"
    "sending_thread ?w' = sending_thread w" "received ?w' = received w" "returned ?w' = returned w"
    "p_os ?w' = p_os w" "main_thread ?w' = Reading"
    unfolding p(1) by simp_all
  note c = heap_copied_ok[OF assms(1) some fields(1-3)]
  have lt: "new_task \<noteq> w_next ?h" using parts new_task_apart[of w tq fq] by auto
  show ?thesis unfolding worker_holds_def
  proof (intro conjI)
    show "queues_ok ?w' (tq @ [w_next ?h]) fq" using p(2) by (simp add: queues_ok_def)
    show "conserved ?w' (tq @ [w_next ?h]) fq"
      using parts assms(2) c fields by (simp add: conserved_def ac_simps)
    have "sentinel ?h new_task = 0" using t by (simp add: sentinel_def)
    then show "sentinels_ok ?w' (tq @ [w_next ?h]) fq"
      using parts assms(2) c fields by (simp add: sentinels_ok_def)
    show "local_ok ?w'" using parts fields by (simp add: local_ok_def)
    show "closed_ok ?w'" using fields by (simp add: closed_ok_def)
  qed (use c in simp_all)
qed

lemma ends_holds:
  assumes "worker_holds w tq fq" "main_thread w = Ending (Suc k)" "push_local w = Inr w1"
  shows "worker_holds (w1\<lparr>main_thread := Ending k\<rparr>) (tq @ [w_next (p_heap w)]) fq"
proof -
  let ?h = "p_heap w" and ?w' = "w1\<lparr>main_thread := Ending k\<rparr>"
  note parts = assms(1)[unfolded worker_holds_def]
  have t: "w_tasks ?h new_task = Some end_task" using parts assms(2) by (auto simp: local_ok_def)
  then have some: "w_tasks ?h new_task \<noteq> None" by simp
  obtain q' where p: "w1 = w\<lparr>task_queue := q', p_heap := copied ?h new_task\<rparr>"
    "queues_ok w1 (tq @ [w_next ?h]) fq" using push_local_holds[OF assms(1,3) some] .
  have fields: "p_heap ?w' = copied ?h new_task" "tasking_threads ?w' = tasking_threads w"
    "sending_thread ?w' = sending_thread w" "received ?w' = received w" "returned ?w' = returned w"
    "p_os ?w' = p_os w" "main_thread ?w' = Ending k" "p_fd ?w' = p_fd w"
    "stay_alive ?w' = stay_alive w"
    unfolding p(1) by simp_all
  note c = heap_copied_ok[OF assms(1) some fields(1-3)]
  have "named ?h new_task = {#}" "sentinel ?h new_task = 1"
    using t by (simp_all add: sentinel_def named_def end_task_def)
  note s = this
  show ?thesis unfolding worker_holds_def
  proof (intro conjI)
    show "queues_ok ?w' (tq @ [w_next ?h]) fq" using p(2) by (simp add: queues_ok_def)
    show "conserved ?w' (tq @ [w_next ?h]) fq"
      using parts assms(2) c fields s by (simp add: conserved_def ac_simps)
    show "sentinels_ok ?w' (tq @ [w_next ?h]) fq"
      using parts assms(2) c fields s by (simp add: sentinels_ok_def)
    show "local_ok ?w'" using parts fields c(12) t by (simp add: local_ok_def)
    show "closed_ok ?w'" using parts fields assms(2) by (simp add: closed_ok_def)
  qed (use c in simp_all)
qed

lemma ends_finished_holds:
  assumes "worker_holds w tq fq" "main_thread w = Ending 0" "push_finished new_task w = Inr w1"
  shows "worker_holds (w1\<lparr>main_thread := Joining\<rparr>) tq (fq @ [w_next (p_heap w)])"
proof -
  let ?h = "p_heap w" and ?w' = "w1\<lparr>main_thread := Joining\<rparr>"
  note parts = assms(1)[unfolded worker_holds_def]
  have t: "w_tasks ?h new_task = Some end_task" using parts assms(2) by (auto simp: local_ok_def)
  then have some: "w_tasks ?h new_task \<noteq> None" by simp
  obtain q' where p: "w1 = w\<lparr>finished_task_queue := q', p_heap := copied ?h new_task\<rparr>"
    "queues_ok w1 tq (fq @ [w_next ?h])" using push_finished_holds[OF assms(1,3) some] .
  have fields: "p_heap ?w' = copied ?h new_task" "tasking_threads ?w' = tasking_threads w"
    "sending_thread ?w' = sending_thread w" "received ?w' = received w" "returned ?w' = returned w"
    "p_os ?w' = p_os w" "main_thread ?w' = Joining" "p_fd ?w' = p_fd w"
    "stay_alive ?w' = stay_alive w"
    unfolding p(1) by simp_all
  note c = heap_copied_ok[OF assms(1) some fields(1-3)]
  have s: "named ?h new_task = {#}" "sentinel ?h new_task = 1"
    using t by (simp_all add: sentinel_def named_def end_task_def)
  show ?thesis unfolding worker_holds_def
  proof (intro conjI)
    show "queues_ok ?w' tq (fq @ [w_next ?h])" using p(2) by (simp add: queues_ok_def)
    show "conserved ?w' tq (fq @ [w_next ?h])"
      using parts assms(2) c fields s by (simp add: conserved_def ac_simps)
    show "sentinels_ok ?w' tq (fq @ [w_next ?h])"
      using parts assms(2) c fields s by (simp add: sentinels_ok_def)
    show "local_ok ?w'" using parts fields by (simp add: local_ok_def)
    show "closed_ok ?w'" using parts fields assms(2) by (simp add: closed_ok_def)
  qed (use c in simp_all)
qed

text \<open>The local variable is nobody else's struct.\<close>

lemma local_weights:
  fixes t :: task_t
  assumes "worker_holds w tq fq"
  defines "h' \<equiv> (p_heap w)\<lparr>w_tasks := (w_tasks (p_heap w))(new_task \<mapsto> t)\<rparr>"
  shows "total (named h') tq = total (named (p_heap w)) tq"
    "total (named h') fq = total (named (p_heap w)) fq"
    "total (sentinel h') tq = total (sentinel (p_heap w)) tq"
    "total (sentinel h') fq = total (sentinel (p_heap w)) fq"
    "over_threads (carried h') (tasking_threads w) = over_threads (carried (p_heap w)) (tasking_threads w)"
    "over_threads (left h') (tasking_threads w) = over_threads (left (p_heap w)) (tasking_threads w)"
    "carried h' (sending_thread w) = carried (p_heap w) (sending_thread w)"
    "left h' (sending_thread w) = left (p_heap w) (sending_thread w)"
proof -
  have old: "new_task < x" if "x \<in> in_use w tq fq" for x
    using assms(1) that by (auto simp: worker_holds_def pointers_ok_def)
  have same: "named h' x = named (p_heap w) x" "sentinel h' x = sentinel (p_heap w) x"
    if "x \<in> in_use w tq fq" for x
    using old[OF that] by (simp_all add: named_def sentinel_def h'_def)
  have thread: "carried h' th = carried (p_heap w) th" "left h' th = left (p_heap w) th"
    if "set (held th) \<subseteq> in_use w tq fq" for th
    using same that by (cases th; simp add: carried_def)+
  show "total (named h') tq = total (named (p_heap w)) tq"
    "total (named h') fq = total (named (p_heap w)) fq"
    "total (sentinel h') tq = total (sentinel (p_heap w)) tq"
    "total (sentinel h') fq = total (sentinel (p_heap w)) fq"
    by (auto intro!: total_cong same simp: in_use_def)
  show "carried h' (sending_thread w) = carried (p_heap w) (sending_thread w)"
    "left h' (sending_thread w) = left (p_heap w) (sending_thread w)"
    by (auto intro!: thread simp: in_use_def)
  have "set (held (tasking_threads w i)) \<subseteq> in_use w tq fq" if "i < NUM_THREAD" for i
    using that by (auto simp: in_use_def)
  then show "over_threads (carried h') (tasking_threads w) = over_threads (carried (p_heap w)) (tasking_threads w)"
    "over_threads (left h') (tasking_threads w) = over_threads (left (p_heap w)) (tasking_threads w)"
    by (auto intro!: over_threads_cong thread)
qed

lemma local_pointers:
  assumes "worker_holds w tq fq"
    "p_heap w' = (p_heap w)\<lparr>w_tasks := (w_tasks (p_heap w))(new_task \<mapsto> t)\<rparr>"
    "tasking_threads w' = tasking_threads w" "sending_thread w' = sending_thread w"
  shows "pointers_ok w' tq fq" "threads_ok w'"
proof -
  have old: "pointers_ok w tq fq" "threads_ok w" using assms(1) by (auto simp: worker_holds_def)
  moreover have use: "in_use w' tq fq = in_use w tq fq" using assms(3,4) by (simp add: in_use_def)
  ultimately show "pointers_ok w' tq fq" using assms(2) by (auto simp: pointers_ok_def)
  have "sentinel (p_heap w') p = sentinel (p_heap w) p" if "p \<noteq> new_task" for p
    using that assms(2) by (simp add: sentinel_def)
  moreover have "p \<noteq> new_task" if "p \<in> in_use w tq fq" for p
    using old(1) that by (auto simp: pointers_ok_def)
  ultimately show "threads_ok w'" using old(2) assms(3,4)
    by (auto simp: threads_ok_def in_use_def) (metis UN_iff held.simps(2,3) lessThan_iff list.set_intros(1))+
qed

text \<open>Steps that change only the system, the flags, or leave the loop.\<close>

lemma quiet_holds:
  assumes "worker_holds w tq fq"
    "main_thread w' = main_thread w \<or> main_thread w = Reading \<and> main_thread w' = Leaving"
    "p_heap w' = p_heap w" "task_queue w' = task_queue w"
    "finished_task_queue w' = finished_task_queue w" "tasking_threads w' = tasking_threads w"
    "sending_thread w' = sending_thread w" "received w' = received w" "returned w' = returned w"
    "closed_ok w'"
  shows "worker_holds w' tq fq"
proof -
  note parts = assms(1)[unfolded worker_holds_def]
  have "in_use w' tq fq = in_use w tq fq" using assms by (simp add: in_use_def)
  moreover have "local_ok w'" using parts assms(2,3,8)
    by (auto simp: local_ok_def split: main_at.splits)
  moreover have "conserved w' tq fq" using parts assms(2-9) by (auto simp: conserved_def)
  moreover have "sentinels_ok w' tq fq" using parts assms(2-9) by (auto simp: sentinels_ok_def)
  ultimately show ?thesis unfolding worker_holds_def using parts assms(3-7,10)
    by (simp add: queues_ok_def pointers_ok_def threads_ok_def)
qed

lemma worker_request_names:
  assumes "worker_request q os fd raw = Inr (New_task t, os')"
  obtains f where "input_filename t = Some f" "output_filename t = Some (f @ OUTPUT_FILE_FORMAT)"
proof -
  have "\<exists>f. input_filename t = Some f \<and> output_filename t = Some (f @ OUTPUT_FILE_FORMAT)"
    using assms by (auto simp: worker_request_def bindr_eq_Inr create_output_file_def Let_def
        case_prod_unfold split: if_splits option.splits)
  then show thesis using that by blast
qed

lemma reads_holds:
  assumes "worker_holds w tq fq" "main_thread w = Reading" "main_reads raw q w = Inr w'"
  shows "worker_holds w' tq fq"
proof -
  note parts = assms(1)[unfolded worker_holds_def]
  obtain r os where r: "worker_request q (p_os w) (p_fd w) raw = Inr (r, os)"
    using assms(3) by (auto simp: main_reads_def bindr_eq_Inr)
  show ?thesis
  proof (cases r)
    case (New_task t)
    obtain f where f: "input_filename t = Some f" "output_filename t = Some (f @ OUTPUT_FILE_FORMAT)"
      using worker_request_names[OF r[unfolded New_task]] .
    have w': "w' = set_local t (w\<lparr>p_os := os, quitting := q, main_thread := Has_task,
        received := received w @ [t]\<rparr>)"
      using assms(3) r New_task by (simp add: main_reads_def)
    have fields: "p_heap w' = (p_heap w)\<lparr>w_tasks := (w_tasks (p_heap w))(new_task \<mapsto> t)\<rparr>"
      "tasking_threads w' = tasking_threads w" "sending_thread w' = sending_thread w"
      "main_thread w' = Has_task" "received w' = received w @ [t]" "returned w' = returned w"
      "task_queue w' = task_queue w" "finished_task_queue w' = finished_task_queue w"
      unfolding w' set_local_def by simp_all
    note lw = local_weights[OF assms(1), of t]
    have n: "named (p_heap w') new_task = {#t#}" using f fields(1) by (simp add: named_def)
    show ?thesis unfolding worker_holds_def
    proof (intro conjI)
      show "queues_ok w' tq fq" using parts fields by (simp add: queues_ok_def)
      show "pointers_ok w' tq fq" "threads_ok w'" using local_pointers[OF assms(1) fields(1-3)] .
      show "local_ok w'" using parts fields(1,4,5) f by (auto simp: local_ok_def)
      show "conserved w' tq fq" using parts assms(2) fields n lw
        by (simp add: conserved_def ac_simps)
      show "sentinels_ok w' tq fq" using parts assms(2) fields lw by (simp add: sentinels_ok_def)
      show "closed_ok w'" using fields(4) by (simp add: closed_ok_def)
    qed
  next
    case Stop
    then have w': "w' = w\<lparr>p_os := os, quitting := q, main_thread := Leaving\<rparr>"
      using assms(3) r by (simp add: main_reads_def)
    show ?thesis by (rule quiet_holds[OF assms(1)]) (use assms(2) w' in \<open>simp_all add: closed_ok_def\<close>)
  next
    case Skip
    then have w': "w' = w\<lparr>p_os := os, quitting := q\<rparr>"
      using assms(3) r by (simp add: main_reads_def)
    show ?thesis by (rule quiet_holds[OF assms(1)]) (use assms(2) w' in \<open>simp_all add: closed_ok_def\<close>)
  qed
qed

lemma closes_holds:
  assumes "worker_holds w tq fq" "main_thread w = Leaving"
  shows "worker_holds (main_closes w) tq fq"
proof -
  let ?w' = "main_closes w"
  note parts = assms(1)[unfolded worker_holds_def]
  have fields: "p_heap ?w' = (p_heap w)\<lparr>w_tasks := (w_tasks (p_heap w))(new_task \<mapsto> end_task)\<rparr>"
    "tasking_threads ?w' = tasking_threads w" "sending_thread ?w' = sending_thread w"
    "main_thread ?w' = Ending NUM_THREAD" "received ?w' = received w" "returned ?w' = returned w"
    "task_queue ?w' = task_queue w" "finished_task_queue ?w' = finished_task_queue w"
    "fds (p_os ?w') (p_fd ?w') = None" "\<not> stay_alive ?w'"
    by (simp_all add: main_closes_def set_local_def sys_close_def)
  note lw = local_weights[OF assms(1), of end_task]
  show ?thesis unfolding worker_holds_def
  proof (intro conjI)
    show "queues_ok ?w' tq fq" using parts fields by (simp add: queues_ok_def)
    show "pointers_ok ?w' tq fq" "threads_ok ?w'" using local_pointers[OF assms(1) fields(1-3)] .
    show "local_ok ?w'" using parts fields(1,4,5) by (simp add: local_ok_def)
    show "conserved ?w' tq fq" using parts assms(2) fields lw by (simp add: conserved_def)
    show "sentinels_ok ?w' tq fq" using parts assms(2) fields lw by (simp add: sentinels_ok_def)
    show "closed_ok ?w'" using fields by (simp add: closed_ok_def)
  qed
qed

section \<open>The steps of the other threads\<close>

lemma local_ok_cong:
  "main_thread w' = main_thread w \<Longrightarrow> w_tasks (p_heap w') new_task = w_tasks (p_heap w) new_task \<Longrightarrow>
    received w' = received w \<Longrightarrow> local_ok w' = local_ok w"
  by (simp add: local_ok_def split: main_at.split)

lemma closed_ok_cong:
  "closed_ok w \<Longrightarrow> main_thread w' = main_thread w \<Longrightarrow> p_fd w' = p_fd w \<Longrightarrow> stay_alive w' = stay_alive w \<Longrightarrow>
    (fds (p_os w) (p_fd w) = None \<Longrightarrow> fds (p_os w') (p_fd w) = None) \<Longrightarrow> closed_ok w'"
  by (simp add: closed_ok_def split: main_at.splits)

lemma run_task_result:
  assumes "run_task run os task = Inr (goes_on, os')"
    "\<forall>cmd os fd. fds (snd (run cmd os)) fd = None \<longleftrightarrow> fds os fd = None"
  shows "goes_on \<longleftrightarrow> input_filename task \<noteq> None" "fds os' fd = None \<longleftrightarrow> fds os fd = None"
proof -
  have w: "fds (snd (sys_write os fd bs)) fd' = None \<longleftrightarrow> fds os fd' = None" for os fd bs fd'
    by (auto simp: sys_write_def Let_def split: list.split acceptance.split)
  show "goes_on \<longleftrightarrow> input_filename task \<noteq> None"
    using assms(1) by (auto simp: run_task_def bindr_eq_Inr Let_def case_prod_unfold
        split: option.splits if_splits)
  show "fds os' fd = None \<longleftrightarrow> fds os fd = None"
    using assms by (auto simp: run_task_def bindr_eq_Inr Let_def case_prod_unfold w
        split: option.splits if_splits)
qed

lemma send_result_closed: "fds os fd = None \<Longrightarrow> send_result os fd raw task = Inr (False, os)"
  by (simp add: send_result_def write_to_socket_def write_to_socket_loop.simps[of os] sys_write_def
      split: option.split)

text \<open>A tasking thread goes on, the rest of the process is as before.\<close>

lemma tasking_pointers:
  assumes "pointers_ok w tq fq" "i < NUM_THREAD" "p_heap w' = p_heap w"
    "tasking_threads w' = (tasking_threads w)(i := x)" "sending_thread w' = sending_thread w"
    "set tq' \<union> set fq' \<union> set (held x) \<subseteq> in_use w tq fq"
  shows "pointers_ok w' tq' fq'"
proof -
  have "in_use w' tq' fq' \<subseteq> in_use w tq fq"
    using assms(4-6) by (auto simp: in_use_def split: if_splits)
  then show ?thesis using assms(1,3) by (auto simp: pointers_ok_def)
qed

lemma sending_pointers:
  assumes "pointers_ok w tq fq" "p_heap w' = p_heap w"
    "tasking_threads w' = tasking_threads w" "set tq' \<union> set fq' \<union> set (held (sending_thread w')) \<subseteq> in_use w tq fq"
  shows "pointers_ok w' tq' fq'"
proof -
  have "in_use w' tq' fq' \<subseteq> in_use w tq fq" using assms(3,4) by (auto simp: in_use_def)
  then show ?thesis using assms(1,2) by (auto simp: pointers_ok_def)
qed

lemma pull_takes:
  assumes "queue_holds q ds" "queue_pull q = Inr (p, q')"
  obtains ds' where "ds = p # ds'" "queue_holds q' ds'" "max_size q' = max_size q" "q_copy q' = q_copy q"
proof -
  have "ds \<noteq> []" using assms queue_holds_size[OF assms(1)] by (auto simp: queue_pull_def)
  then obtain e ds' where ds: "ds = e # ds'" by (cases ds) auto
  from assms(1)[unfolded ds] obtain q1 where "queue_pull q = Inr (e, q1)" "queue_holds q1 ds'"
    "max_size q1 = max_size q" "q_copy q1 = q_copy q" by (rule queue_pull_ok)
  then show thesis using that[of ds'] ds assms(2) by auto
qed

lemma t_pulls_holds:
  assumes "worker_holds w tq fq" "i < NUM_THREAD" "tasking_threads w i = Pulls"
    "task_pulls i w = Inr w'"
  shows "\<exists>tq'. worker_holds w' tq' fq"
proof -
  note parts = assms(1)[unfolded worker_holds_def]
  obtain p q where q: "queue_pull (task_queue w) = Inr (p, q)"
    "w' = w\<lparr>task_queue := q, tasking_threads := (tasking_threads w)(i := Holds p)\<rparr>"
    using assms(4) by (auto simp: task_pulls_def bindr_eq_Inr)
  obtain tq' where tq': "tq = p # tq'" "queue_holds q tq'" "max_size q = max_size (task_queue w)"
    "q_copy q = q_copy (task_queue w)"
    using pull_takes[OF _ q(1), of tq] parts by (auto simp: queues_ok_def)
  note upd = over_threads_upd[OF assms(2), of _ "tasking_threads w" "Holds p", unfolded assms(3)]
  show ?thesis unfolding worker_holds_def
  proof (intro exI[of _ tq'] conjI)
    show "queues_ok w' tq' fq" using parts q tq' by (auto simp: queues_ok_def)
    show "pointers_ok w' tq' fq" using parts assms(2) q(2) tq'(1)
      by (intro tasking_pointers[of w tq fq i w' "Holds p"]) (auto simp: in_use_def)
    show "threads_ok w'" using parts q(2) by (simp add: threads_ok_def)
    show "local_ok w'" using parts local_ok_cong[of w' w] q(2) by simp
    show "conserved w' tq' fq" using parts q(2) tq'(1) upd[of "carried (p_heap w)"]
      by (simp add: conserved_def carried_def ac_simps)
    show "sentinels_ok w' tq' fq" using parts q(2) tq'(1) upd[of "left (p_heap w)"]
      by (simp add: sentinels_ok_def)
    show "closed_ok w'" using parts closed_ok_cong[of w w'] q(2) by simp
  qed
qed

lemma t_runs_holds:
  assumes "worker_holds w tq fq" "i < NUM_THREAD" "tasking_threads w i = Holds p"
    "task_runs run i p w = Inr w'" "\<forall>cmd os fd. fds (snd (run cmd os)) fd = None \<longleftrightarrow> fds os fd = None"
  shows "worker_holds w' tq fq"
proof -
  note parts = assms(1)[unfolded worker_holds_def]
  obtain task goes_on os where r: "w_tasks (p_heap w) p = Some task"
    "run_task run (p_os w) task = Inr (goes_on, os)"
    "w' = w\<lparr>p_os := os, tasking_threads := (tasking_threads w)(i := (if goes_on then Ran p else Exited))\<rparr>"
    using assms(4) by (auto simp: task_runs_def bindr_eq_Inr deref_Inr)
  note res = run_task_result[OF r(2) assms(5)]
  let ?x = "if goes_on then Ran p else Exited"
  note upd = over_threads_upd[OF assms(2), of _ "tasking_threads w" ?x, unfolded assms(3)]
  have weights: "left (p_heap w) ?x = left (p_heap w) (Holds p)"
    "carried (p_heap w) ?x = carried (p_heap w) (Holds p)" "goes_on \<Longrightarrow> sentinel (p_heap w) p = 0"
    using res(1) r(1) by (auto simp: sentinel_def carried_def named_def)
  show ?thesis unfolding worker_holds_def
  proof (intro conjI)
    show "queues_ok w' tq fq" using parts r(3) by (simp add: queues_ok_def)
    show "pointers_ok w' tq fq" using parts assms(2,3) r(3)
      by (intro tasking_pointers[of w tq fq i w' ?x]) (auto simp: in_use_def intro!: bexI[of _ i])
    show "threads_ok w'" using parts r(3) weights(3) by (auto simp: threads_ok_def)
    show "local_ok w'" using parts local_ok_cong[of w' w] r(3) by simp
    show "conserved w' tq fq" using parts r(3) upd[of "carried (p_heap w)"] weights(2)
      by (simp add: conserved_def)
    show "sentinels_ok w' tq fq" using parts r(3) upd[of "left (p_heap w)"] weights(1)
      by (simp add: sentinels_ok_def)
    show "closed_ok w'" using parts closed_ok_cong[of w w'] r(3) res(2) by simp
  qed
qed

lemma t_pushes_holds:
  assumes "worker_holds w tq fq" "i < NUM_THREAD" "tasking_threads w i = Ran p"
    "task_pushes i p w = Inr w'"
  shows "worker_holds w' tq (fq @ [w_next (p_heap w)])"
proof -
  let ?h = "p_heap w"
  note parts = assms(1)[unfolded worker_holds_def]
  have used: "p \<in> in_use w tq fq" using assms(2,3) by (auto simp: in_use_def intro!: bexI[of _ i])
  then have some: "w_tasks ?h p \<noteq> None" using parts by (simp add: pointers_ok_def)
  have s0: "sentinel ?h p = 0" using parts assms(2,3) by (simp add: threads_ok_def)
  obtain w1 where w1: "push_finished p w = Inr w1"
    "w' = w1\<lparr>tasking_threads := (tasking_threads w1)(i := Pulls)\<rparr>"
    using assms(4) by (auto simp: task_pushes_def bindr_eq_Inr)
  obtain q' where p1: "w1 = w\<lparr>finished_task_queue := q', p_heap := copied ?h p\<rparr>"
    "queues_ok w1 tq (fq @ [w_next ?h])" using push_finished_holds[OF assms(1) w1(1) some] .
  have fields: "p_heap w1 = copied ?h p" "tasking_threads w1 = tasking_threads w"
    "sending_thread w1 = sending_thread w" unfolding p1(1) by simp_all
  note c = heap_copied_ok[OF assms(1) some fields]
  have w': "w' = w\<lparr>finished_task_queue := q', p_heap := copied ?h p,
      tasking_threads := (tasking_threads w)(i := Pulls)\<rparr>" using w1(2) p1(1) by simp
  note upd = over_threads_upd[OF assms(2), of _ "tasking_threads w" Pulls, unfolded assms(3)]
  have balance: "over_threads (carried (copied ?h p)) ((tasking_threads w)(i := Pulls)) + named ?h p
      = over_threads (carried ?h) (tasking_threads w)"
    "over_threads (left (copied ?h p)) ((tasking_threads w)(i := Pulls))
      = over_threads (left ?h) (tasking_threads w)"
  proof -
    have "named (copied ?h p) p = named ?h p"
      using used parts by (intro named_copied) (auto simp: pointers_ok_def)
    then show "over_threads (carried (copied ?h p)) ((tasking_threads w)(i := Pulls)) + named ?h p
        = over_threads (carried ?h) (tasking_threads w)"
      using upd[of "carried (copied ?h p)"] c(8) fields(1,2) by (simp add: carried_def)
    show "over_threads (left (copied ?h p)) ((tasking_threads w)(i := Pulls))
        = over_threads (left ?h) (tasking_threads w)"
      using upd[of "left (copied ?h p)"] c(9) fields(1,2) by simp
  qed
  have loc: "named (copied ?h p) new_task = named ?h new_task"
    using parts new_task_apart[of w tq fq] by (intro named_copied) auto
  show ?thesis unfolding worker_holds_def
  proof (intro conjI)
    show "queues_ok w' tq (fq @ [w_next ?h])" using p1(2) w1(2) by (simp add: queues_ok_def)
    show "pointers_ok w' tq (fq @ [w_next ?h])" using c(3) w1(2) assms(2)
      by (intro tasking_pointers[of w1 _ _ i w' Pulls]) (auto simp: in_use_def)
    show "threads_ok w'" using c(1) w1(2) by (simp add: threads_ok_def)
    show "local_ok w'" using parts local_ok_cong[of w' w] w' c(12) fields(1) by simp
    show "conserved w' tq (fq @ [w_next ?h])"
      using parts balance(1)[symmetric] c(4,5,10) w' fields loc by (simp add: conserved_def ac_simps)
    show "sentinels_ok w' tq (fq @ [w_next ?h])"
      using parts balance(2) c(6,7,11) w' fields s0 by (simp add: sentinels_ok_def)
    show "closed_ok w'" using parts closed_ok_cong[of w w'] w' by simp
  qed
qed

lemma s_pulls_holds:
  assumes "worker_holds w tq fq" "sending_thread w = Pulls" "send_pulls w = Inr w'"
  shows "\<exists>fq'. worker_holds w' tq fq'"
proof -
  note parts = assms(1)[unfolded worker_holds_def]
  obtain p q where q: "queue_pull (finished_task_queue w) = Inr (p, q)"
    "w' = w\<lparr>finished_task_queue := q, sending_thread := Holds p\<rparr>"
    using assms(3) by (auto simp: send_pulls_def bindr_eq_Inr)
  obtain fq' where fq': "fq = p # fq'" "queue_holds q fq'" "max_size q = max_size (finished_task_queue w)"
    "q_copy q = q_copy (finished_task_queue w)"
    using pull_takes[OF _ q(1), of fq] parts by (auto simp: queues_ok_def)
  show ?thesis unfolding worker_holds_def
  proof (intro exI[of _ fq'] conjI)
    show "queues_ok w' tq fq'" using parts q fq' by (auto simp: queues_ok_def)
    show "pointers_ok w' tq fq'" using parts q(2) fq'(1)
      by (intro sending_pointers[of w tq fq w']) (auto simp: in_use_def)
    show "threads_ok w'" using parts q(2) by (simp add: threads_ok_def)
    show "local_ok w'" using parts local_ok_cong[of w' w] q(2) by simp
    show "conserved w' tq fq'" using parts q(2) fq'(1) assms(2)
      by (simp add: conserved_def carried_def ac_simps)
    show "sentinels_ok w' tq fq'" using parts q(2) fq'(1) assms(2) by (simp add: sentinels_ok_def)
    show "closed_ok w'" using parts closed_ok_cong[of w w'] q(2) by simp
  qed
qed

lemma s_sends_holds:
  assumes "worker_holds w tq fq" "sending_thread w = Holds p" "send_sends raw p w = Inr w'"
  shows "worker_holds w' tq fq"
proof -
  note parts = assms(1)[unfolded worker_holds_def]
  obtain task goes_on os where r: "w_tasks (p_heap w) p = Some task"
    "send_result (p_os w) (p_fd w) raw task = Inr (goes_on, os)"
    "w' = (if goes_on then w\<lparr>p_os := os, sending_thread := Pulls, returned := returned w @ [task]\<rparr>
          else w\<lparr>p_os := os,
            sending_thread := (if input_filename task = None then Exited else Failed p)\<rparr>)"
    using assms(3) by (auto simp: send_sends_def bindr_eq_Inr deref_Inr)
  have named: "input_filename task \<noteq> None" if goes_on
    using r(2) that by (auto simp: send_result_def split: option.splits)
  have weights: "carried (p_heap w) (sending_thread w') + mset (returned w')
      = carried (p_heap w) (Holds p) + mset (returned w)"
    "left (p_heap w) (sending_thread w') = left (p_heap w) (Holds p)"
    using r(1,3) named by (auto simp: carried_def named_def sentinel_def)
  have fields: "main_thread w' = main_thread w" "p_heap w' = p_heap w" "task_queue w' = task_queue w"
    "finished_task_queue w' = finished_task_queue w" "tasking_threads w' = tasking_threads w"
    "received w' = received w" "p_fd w' = p_fd w" "p_os w' = os" "stay_alive w' = stay_alive w"
    using r(3) by simp_all
  show ?thesis unfolding worker_holds_def
  proof (intro conjI)
    show "queues_ok w' tq fq" using parts fields by (simp add: queues_ok_def)
    show "pointers_ok w' tq fq" using parts fields assms(2) r(3)
      by (intro sending_pointers[of w tq fq w']) (auto simp: in_use_def)
    show "threads_ok w'" using parts r(1,3) by (auto simp: threads_ok_def sentinel_def)
    show "local_ok w'" using parts local_ok_cong[of w' w] fields by simp
    show "conserved w' tq fq" using parts fields weights(1) assms(2)
      by (simp add: conserved_def ac_simps)
    show "sentinels_ok w' tq fq" using parts fields weights(2) assms(2)
      by (simp add: sentinels_ok_def)
    have "fds (p_os w) (p_fd w) = None \<Longrightarrow> os = p_os w" using r(2) by (simp add: send_result_closed)
    then show "closed_ok w'" using parts closed_ok_cong[of w w'] fields by simp
  qed
qed

section \<open>Every reachable state\<close>

lemma other_threads_main:
  "task_pulls i w = Inr w' \<Longrightarrow> main_thread w' = main_thread w"
  "task_runs run i p w = Inr w' \<Longrightarrow> main_thread w' = main_thread w"
  "task_pushes i p w = Inr w' \<Longrightarrow> main_thread w' = main_thread w"
  "send_pulls w = Inr w' \<Longrightarrow> main_thread w' = main_thread w"
  "send_sends raw p w = Inr w' \<Longrightarrow> main_thread w' = main_thread w"
  by (auto simp: task_pulls_def task_runs_def task_pushes_def push_finished_def
      send_pulls_def send_sends_def bindr_eq_Inr)

text \<open>The process is over: no thread has a step.\<close>

lemma ended_stuck: "thread_step w w' \<Longrightarrow> main_thread w = Ended \<Longrightarrow> all_left w \<Longrightarrow> False"
  by (cases rule: thread_step.cases) (auto simp: all_left_def)

lemma joins_left: "main_destroys w = Inr w' \<Longrightarrow> all_left w \<Longrightarrow> main_thread w' = Ended \<and> all_left w'"
  by (auto simp: main_destroys_def bindr_eq_Inr all_left_def)

lemma beat_holds:
  assumes "worker_holds w tq fq" "w' = w\<lparr>heartbeat_thread := x\<rparr>"
  shows "main_thread w' = Ended \<and> all_left w' \<or> (\<exists>tq fq. worker_holds w' tq fq)"
proof -
  have "closed_ok w" using assms(1) by (simp add: worker_holds_def)
  then have "closed_ok w'" using closed_ok_cong[of w w'] assms(2) by simp
  then have "worker_holds w' tq fq" using assms(2) by (intro quiet_holds[OF assms(1)]) simp_all
  then show ?thesis by blast
qed

lemma thread_step_holds:
  assumes "thread_step w w'" "worker_holds w tq fq"
  shows "main_thread w' = Ended \<and> all_left w' \<or> (\<exists>tq fq. worker_holds w' tq fq)"
  using assms(1)
proof cases
  case quits
  then have "closed_ok w'" by (simp add: closed_ok_def)
  then show ?thesis using quiet_holds[OF assms(2), of w'] quits by auto
next
  case joins
  then show ?thesis by (auto dest: joins_left)
next
  case h_tests
  then show ?thesis using beat_holds[OF assms(2), of w'] by (simp add: heartbeat_tests_def)
next
  case (h_sends format sendto raw a b)
  then obtain x where "w' = w\<lparr>heartbeat_thread := x\<rparr>"
    by (auto simp: heartbeat_sends_def bindr_eq_Inr)
  then show ?thesis using beat_holds[OF assms(2), of w'] by simp
qed (use assms(2) in \<open>blast dest: reads_holds pushes_holds closes_holds ends_holds ends_finished_holds
    t_pulls_holds t_runs_holds t_pushes_holds s_pulls_holds s_sends_holds\<close>)+

lemma worker_step_inv:
  assumes "worker_step w w'" "worker_inv w"
  shows "worker_inv w'"
  using assms(2)[unfolded worker_inv_def]
proof (elim disjE exE)
  assume "main_thread w = Ended \<and> all_left w"
  with assms(1) show ?thesis
    by cases (auto simp: worker_inv_def all_left_def dest: ended_stuck)
next
  fix tq fq assume h: "worker_holds w tq fq"
  then have closed: "closed_ok w" by (simp add: worker_holds_def)
  from assms(1) show ?thesis
  proof cases
    case thread
    from thread_step_holds[OF this h] show ?thesis by (simp add: worker_inv_def)
  next
    case (arrives es)
    have "closed_ok w'" using closed_ok_cong[OF closed, of w'] arrives by simp
    then show ?thesis using quiet_holds[OF h, of w'] arrives by (auto simp: worker_inv_def)
  next
    case (sigint es ps)
    have "closed_ok w'" using closed_ok_cong[OF closed, of w'] sigint by simp
    then show ?thesis using quiet_holds[OF h, of w'] sigint by (auto simp: worker_inv_def)
  qed
qed

lemma worker_reach_inv: "worker_reach w0 w \<Longrightarrow> worker_inv w0 \<Longrightarrow> worker_inv w"
  by (induction rule: worker_reach.induct) (auto dest: worker_step_inv)

end
