(* ===== verification/Worker_Shutdown.thy ===== *)
theory Worker_Shutdown
  imports Worker_Inv
begin

text \<open>
  The clean-up of \<^verbatim>\<open>worker_main\<close>: once it has begun, some thread can always go on until the process is
  over, and every step is work done, so the process ends under every schedule. And what it costs: a
  result that was not yet in the finished queue when the sentinel went in is not sent.
\<close>

section \<open>Some thread can go on\<close>

text \<open>The command lines of the tasks taken in fit the buffer of \<^verbatim>\<open>tasking\<close>.\<close>

definition fits :: "wproc \<Rightarrow> bool" where
  "fits w \<longleftrightarrow> (\<forall>t\<in>set (received w). \<forall>f. input_filename t = Some f \<longrightarrow>
     length (command_line f (f @ OUTPUT_FILE_FORMAT)) < 1024)"

lemma over_threads_member:
  fixes f :: "thread_at \<Rightarrow> 'a multiset"
  assumes "i < NUM_THREAD" "x \<in># f (th i)"
  shows "x \<in># over_threads f th"
proof -
  have "over_threads f th = f (th i) + (\<Sum>j\<in>{..<NUM_THREAD} - {i}. f (th j))"
    unfolding over_threads_def using assms(1) by (intro sum.remove) auto
  then show ?thesis using assms(2) by simp
qed

text \<open>A task in a thread's hands was taken in.\<close>

lemma held_received:
  assumes "worker_holds w tq fq" "i < NUM_THREAD" "tasking_threads w i = Holds p"
    "w_tasks (p_heap w) p = Some t" "input_filename t = Some f"
  shows "t \<in> set (received w)"
proof -
  have "t \<in># carried (p_heap w) (tasking_threads w i)"
    using assms(3-5) by (simp add: carried_def named_def)
  then have "t \<in># over_threads (carried (p_heap w)) (tasking_threads w)"
    using assms(2) by (intro over_threads_member)
  moreover have "conserved w tq fq" using assms(1) by (simp add: worker_holds_def)
  ultimately have "t \<in># mset (received w)" by (simp add: conserved_def)
  then show ?thesis by simp
qed

lemma used_some:
  assumes "worker_holds w tq fq" "p \<in> in_use w tq fq"
  obtains t where "p \<noteq> NULL" "w_tasks (p_heap w) p = Some t"
  using assms by (auto simp: worker_holds_def pointers_ok_def)

lemma in_use_tasking: "i < NUM_THREAD \<Longrightarrow> p \<in> set (held (tasking_threads w i)) \<Longrightarrow> p \<in> in_use w tq fq"
  by (auto simp: in_use_def)

lemma push_finished_goes:
  assumes "worker_holds w tq fq"
  shows "\<exists>w'. push_finished p w = Inr w'"
proof -
  have q: "queue_holds (finished_task_queue w) fq" "\<not> queue_full (finished_task_queue w)"
    using assms by (simp_all add: worker_holds_def queues_ok_def queue_full_def)
  obtain p' h' where c: "q_copy (finished_task_queue w) p (p_heap w) = (p', h')" by fastforce
  from q c obtain q' where "queue_push (finished_task_queue w) p (p_heap w) = Inr (q', h')"
    by (rule queue_push_ok)
  then show ?thesis by (simp add: push_finished_def)
qed

lemma tasking_goes:
  assumes "worker_holds w tq fq" "fits w" "i < NUM_THREAD"
    "tasking_threads w i \<noteq> Exited" "tasking_threads w i = Pulls \<longrightarrow> tq \<noteq> []"
  shows "\<exists>w'. thread_step w w'"
proof (cases "tasking_threads w i")
  case Pulls
  then obtain p ds where "tq = p # ds" using assms(5) by (cases tq) auto
  then have "queue_holds (task_queue w) (p # ds)"
    using assms(1) by (simp add: worker_holds_def queues_ok_def)
  then obtain q where "queue_pull (task_queue w) = Inr (p, q)" by (rule queue_pull_ok)
  then show ?thesis using thread_step.t_pulls[OF assms(3) Pulls] by (auto simp: task_pulls_def)
next
  case (Holds p)
  then have "p \<in> in_use w tq fq" using assms(3) by (intro in_use_tasking[of i]) simp_all
  with assms(1) obtain t where t: "p \<noteq> NULL" "w_tasks (p_heap w) p = Some t" by (rule used_some)
  define run :: "string \<Rightarrow> osys \<Rightarrow> int \<times> osys" where "run = (\<lambda>_ os. (0, os))"
  have fair: "\<forall>cmd os fd. fds (snd (run cmd os)) fd = None \<longleftrightarrow> fds os fd = None"
    by (simp add: run_def)
  have "\<exists>r. run_task run (p_os w) t = Inr r"
  proof (cases "input_filename t")
    case None
    then show ?thesis by (auto simp: run_task_def)
  next
    case (Some f)
    have r: "t \<in> set (received w)" using held_received[OF assms(1,3) Holds t(2) Some] .
    then have "output_filename t = Some (f @ OUTPUT_FILE_FORMAT)"
      using assms(1) Some by (auto simp: worker_holds_def local_ok_def)
    moreover have "length (command_line f (f @ OUTPUT_FILE_FORMAT)) < 1024"
      using assms(2) r Some unfolding fits_def by blast
    ultimately show ?thesis using Some by (auto simp: run_task_def run_def Let_def)
  qed
  then show ?thesis using thread_step.t_runs[OF assms(3) Holds fair] t
    by (auto simp: task_runs_def)
next
  case (Ran p)
  obtain w1 where "push_finished p w = Inr w1" using push_finished_goes[OF assms(1)] by blast
  then show ?thesis using thread_step.t_pushes[OF assms(3) Ran] by (auto simp: task_pushes_def)
next
  case (Failed p)
  then show ?thesis using assms(1,3) by (simp add: worker_holds_def threads_ok_def)
qed (use assms(4) in simp)

lemma left_le_one: "left h t \<le> 1"
  by (cases t) (auto simp: sentinel_def split: option.split)

lemma over_threads_five:
  assumes "over_threads f th = NUM_THREAD" "\<And>t. f t \<le> (1 :: nat)" "i < NUM_THREAD"
  shows "f (th i) = 1"
proof (rule ccontr)
  assume "f (th i) \<noteq> 1"
  then have "f (th i) < 1" using assms(2)[of "th i"] by simp
  then have "over_threads f th < (\<Sum>i<NUM_THREAD. 1)"
    unfolding over_threads_def using assms(2,3) by (intro sum_strict_mono_ex1) auto
  then show False using assms(1) by simp
qed

text \<open>With the flag down, the heartbeat thread leaves.\<close>

lemma heartbeat_goes:
  assumes "heartbeat_thread w \<noteq> Gone"
  shows "\<exists>w'. thread_step w w'"
proof (cases "heartbeat_thread w")
  case Tests
  then show ?thesis by (blast intro: thread_step.h_tests)
next
  case Sends
  have "heartbeat_sends (\<lambda>_. []) (\<lambda>_. 0) [] (get_local_usage None None) w
      = Inr (w\<lparr>heartbeat_thread := Tests\<rparr>)"
    by (simp add: heartbeat_sends_def send_heartbeat_def)
  then show ?thesis by (blast intro: thread_step.h_sends[OF Sends])
qed (use assms in simp)

lemma sending_goes:
  assumes "worker_holds w tq fq" "main_thread w = Joining" "\<forall>i<NUM_THREAD. tasking_threads w i = Exited"
    "heartbeat_thread w = Gone"
  shows "\<exists>w'. thread_step w w'"
proof -
  note parts = assms(1)[unfolded worker_holds_def]
  have qs: "queue_holds (task_queue w) tq" "queue_holds (finished_task_queue w) fq"
    using parts by (simp_all add: queues_ok_def)
  have closed: "fds (p_os w) (p_fd w) = None" using parts assms(2) by (simp add: closed_ok_def)
  have one: "total (sentinel (p_heap w)) fq + left (p_heap w) (sending_thread w) = 1"
    using parts assms(2) by (simp add: sentinels_ok_def)
  show ?thesis
  proof (cases "sending_thread w")
    case Pulls
    then obtain p ds where ds: "fq = p # ds" using one by (cases fq) auto
    from qs(2)[unfolded ds] obtain q where "queue_pull (finished_task_queue w) = Inr (p, q)"
      by (rule queue_pull_ok)
    then show ?thesis using thread_step.s_pulls[OF Pulls] by (auto simp: send_pulls_def)
  next
    case (Holds p)
    then have "p \<in> in_use w tq fq" by (simp add: in_use_def)
    with assms(1) obtain t where t: "p \<noteq> NULL" "w_tasks (p_heap w) p = Some t" by (rule used_some)
    then show ?thesis using thread_step.s_sends[OF Holds, of "[]"] closed
      by (auto simp: send_sends_def send_result_closed)
  next
    case (Ran p)
    then show ?thesis using parts by (simp add: threads_ok_def)
  qed (use assms(2-4) queue_destroy_ok[OF qs(1)] queue_destroy_ok[OF qs(2)] in
      \<open>auto intro!: exI thread_step.joins simp: all_left_def main_destroys_def\<close>)
qed

lemma shutdown_progress:
  assumes "worker_holds w tq fq" "fits w" "main_thread w = Joining \<or> (\<exists>n. main_thread w = Ending n)"
  shows "\<exists>w'. thread_step w w'"
proof (cases "heartbeat_thread w \<noteq> Gone \<or> (\<exists>i<NUM_THREAD. tasking_threads w i \<noteq> Exited \<and> (tasking_threads w i = Pulls \<longrightarrow> tq \<noteq> []))")
  case True
  then show ?thesis using tasking_goes[OF assms(1,2)] heartbeat_goes[of w] by blast
next
  case False
  then have stuck: "tasking_threads w i = Exited \<or> tasking_threads w i = Pulls \<and> tq = []"
    if "i < NUM_THREAD" for i using that by blast
  note parts = assms(1)[unfolded worker_holds_def]
  have count: "total (sentinel (p_heap w)) tq + over_threads (left (p_heap w)) (tasking_threads w)
      + owed (main_thread w) = NUM_THREAD" using parts by (simp add: sentinels_ok_def)
  consider (finished) "main_thread w = Ending 0" | (ending) n where "main_thread w = Ending (Suc n)"
    | (joining) "main_thread w = Joining" using assms(3) by (metis not0_implies_Suc)
  then show ?thesis
  proof cases
    case finished
    then show ?thesis using push_finished_goes[OF assms(1)] thread_step.ends_finished[OF finished]
      by blast
  next
    case (ending n)
    have "tq = []"
    proof (rule ccontr)
      assume "tq \<noteq> []"
      then have "over_threads (left (p_heap w)) (tasking_threads w) = over_threads (\<lambda>_. 1) (tasking_threads w)"
        using stuck by (intro over_threads_cong) auto
      then show False using count ending by (simp add: over_threads_def)
    qed
    then have q: "queue_holds (task_queue w) []" "\<not> queue_full (task_queue w)"
      using parts queue_holds_size[of "task_queue w" "[]"] by (auto simp: queues_ok_def queue_full_def)
    obtain p' h' where c: "q_copy (task_queue w) new_task (p_heap w) = (p', h')" by fastforce
    from q c obtain q' where "queue_push (task_queue w) new_task (p_heap w) = Inr (q', h')"
      by (rule queue_push_ok)
    then show ?thesis using thread_step.ends[OF ending] by (auto simp: push_local_def)
  next
    case joining
    have "tasking_threads w i = Exited" if i: "i < NUM_THREAD" for i
    proof (cases "tq = []")
      case True
      then have "left (p_heap w) (tasking_threads w i) = 1"
        using count joining i left_le_one by (intro over_threads_five) auto
      then show ?thesis using stuck[OF i] by auto
    qed (use stuck[OF i] in auto)
    then show ?thesis using sending_goes[OF assms(1) joining] False by blast
  qed
qed

section \<open>Every step is work done\<close>

fun main_work :: "main_at \<Rightarrow> nat" where
  "main_work (Ending n) = 6 * n + 4"
| "main_work Joining = 1"
| "main_work _ = 0"

fun tasking_work :: "thread_at \<Rightarrow> nat" where
  "tasking_work (Holds p) = 4"
| "tasking_work (Ran p) = 3"
| "tasking_work _ = 0"

fun sending_work :: "thread_at \<Rightarrow> nat" where
  "sending_work (Holds p) = 1"
| "sending_work _ = 0"

fun beat_work :: "beat_at \<Rightarrow> nat" where
  "beat_work Sends = 2"
| "beat_work Tests = 1"
| "beat_work Gone = 0"

definition work :: "wproc \<Rightarrow> nat" where
  "work w = main_work (main_thread w) + 5 * nat (q_size (task_queue w))
     + over_threads tasking_work (tasking_threads w) + 2 * nat (q_size (finished_task_queue w))
     + sending_work (sending_thread w) + beat_work (heartbeat_thread w)"

lemma queue_push_size: "queue_push q p h = Inr (q', h') \<Longrightarrow> q_size q' = q_size q + 1"
  by (auto simp: queue_push_def link_node_def bindr_eq_Inr Let_def split: if_splits prod.splits)

lemma queue_pull_size: "queue_pull q = Inr (p, q') \<Longrightarrow> q_size q' = q_size q - 1 \<and> q_size q \<noteq> 0"
  by (auto simp: queue_pull_def bindr_eq_Inr Let_def split: if_splits)

lemma work_decreases:
  assumes "thread_step w w'" "worker_holds w tq fq"
    "main_thread w = Joining \<or> (\<exists>n. main_thread w = Ending n)"
  shows "work w' < work w"
    "main_thread w' = Ended \<or> main_thread w' = Joining \<or> (\<exists>n. main_thread w' = Ending n)"
proof -
  have sizes: "0 \<le> q_size (task_queue w)" "0 \<le> q_size (finished_task_queue w)"
    using assms(2) by (auto simp: worker_holds_def queues_ok_def dest: queue_holds_size)
  have "work w' < work w \<and>
    (main_thread w' = Ended \<or> main_thread w' = Joining \<or> (\<exists>n. main_thread w' = Ending n))"
    using assms(1)
  proof cases
    case (ends n w1)
    then obtain q h where "queue_push (task_queue w) new_task (p_heap w) = Inr (q, h)"
      "w1 = w\<lparr>task_queue := q, p_heap := h\<rparr>" by (auto simp: push_local_def bindr_eq_Inr)
    with ends sizes queue_push_size[OF this(1)] show ?thesis
      by (simp add: work_def nat_add_distrib)
  next
    case (ends_finished w1)
    then obtain q h where "queue_push (finished_task_queue w) new_task (p_heap w) = Inr (q, h)"
      "w1 = w\<lparr>finished_task_queue := q, p_heap := h\<rparr>" by (auto simp: push_finished_def bindr_eq_Inr)
    with ends_finished sizes queue_push_size[OF this(1)] show ?thesis
      by (simp add: work_def nat_add_distrib)
  next
    case joins
    then obtain h where "w' = w\<lparr>p_heap := h, main_thread := Ended\<rparr>"
      by (auto simp: main_destroys_def bindr_eq_Inr)
    with joins(1) show ?thesis by (simp add: work_def)
  next
    case (t_pulls i)
    then obtain p q where q: "queue_pull (task_queue w) = Inr (p, q)"
      "w' = w\<lparr>task_queue := q, tasking_threads := (tasking_threads w)(i := Holds p)\<rparr>"
      by (auto simp: task_pulls_def bindr_eq_Inr)
    have "over_threads tasking_work ((tasking_threads w)(i := Holds p))
        = over_threads tasking_work (tasking_threads w) + 4"
      using over_threads_upd[OF t_pulls(1), of tasking_work "tasking_threads w" "Holds p"] t_pulls(2)
      by simp
    with q sizes queue_pull_size[OF q(1)] assms(3) show ?thesis by (auto simp: work_def)
  next
    case (t_runs i p run)
    then obtain os b where b: "w' = w\<lparr>p_os := os,
        tasking_threads := (tasking_threads w)(i := (if b then Ran p else Exited))\<rparr>"
      by (auto simp: task_runs_def bindr_eq_Inr)
    define x where "x = (if b then Ran p else Exited)"
    have x: "x = Ran p \<or> x = Exited"
      "w' = w\<lparr>p_os := os, tasking_threads := (tasking_threads w)(i := x)\<rparr>"
      using b by (auto simp: x_def)
    have "over_threads tasking_work ((tasking_threads w)(i := x)) + 4
        \<le> over_threads tasking_work (tasking_threads w) + 3"
      using over_threads_upd[OF t_runs(1), of tasking_work "tasking_threads w" x] t_runs(2) x(1) by auto
    with x(2) assms(3) show ?thesis by (auto simp: work_def)
  next
    case (t_pushes i p)
    then obtain q h where q: "queue_push (finished_task_queue w) p (p_heap w) = Inr (q, h)"
      "w' = w\<lparr>finished_task_queue := q, p_heap := h, tasking_threads := (tasking_threads w)(i := Pulls)\<rparr>"
      by (auto simp: task_pushes_def push_finished_def bindr_eq_Inr)
    have "over_threads tasking_work ((tasking_threads w)(i := Pulls)) + 3
        = over_threads tasking_work (tasking_threads w)"
      using over_threads_upd[OF t_pushes(1), of tasking_work "tasking_threads w" Pulls] t_pushes(2)
      by simp
    with q sizes queue_push_size[OF q(1)] assms(3) show ?thesis
      by (auto simp: work_def nat_add_distrib)
  next
    case s_pulls
    then obtain p q where q: "queue_pull (finished_task_queue w) = Inr (p, q)"
      "w' = w\<lparr>finished_task_queue := q, sending_thread := Holds p\<rparr>"
      by (auto simp: send_pulls_def bindr_eq_Inr)
    with s_pulls sizes queue_pull_size[OF q(1)] assms(3) show ?thesis by (auto simp: work_def)
  next
    case (s_sends p raw)
    then have "main_thread w' = main_thread w" "task_queue w' = task_queue w"
      "finished_task_queue w' = finished_task_queue w" "tasking_threads w' = tasking_threads w"
      "sending_work (sending_thread w') = 0" "heartbeat_thread w' = heartbeat_thread w"
      by (auto simp: send_sends_def bindr_eq_Inr)
    with s_sends(1) assms(3) show ?thesis by (auto simp: work_def)
  next
    case h_tests
    have "\<not> stay_alive w" using assms(2,3) by (auto simp: worker_holds_def closed_ok_def)
    with h_tests assms(3) show ?thesis by (auto simp: work_def heartbeat_tests_def)
  next
    case (h_sends format sendto raw a b)
    then obtain x where "w' = w\<lparr>heartbeat_thread := x\<rparr>" "x = Gone \<or> x = Tests"
      by (auto simp: heartbeat_sends_def bindr_eq_Inr)
    with h_sends(1) assms(3) show ?thesis by (auto simp: work_def)
  qed (use assms(3) in auto)
  then show "work w' < work w"
    "main_thread w' = Ended \<or> main_thread w' = Joining \<or> (\<exists>n. main_thread w' = Ending n)" by simp_all
qed

text \<open>The steps change neither the names taken in nor what fits.\<close>

lemma fits_step:
  assumes "thread_step w w'" "fits w"
    "main_thread w = Joining \<or> (\<exists>n. main_thread w = Ending n)"
  shows "fits w'"
proof -
  have "received w' = received w" using assms(1,3)
    by cases (auto simp: push_local_def push_finished_def main_destroys_def task_pulls_def
        task_runs_def task_pushes_def send_pulls_def send_sends_def heartbeat_tests_def
        heartbeat_sends_def bindr_eq_Inr)
  then show ?thesis using assms(2) by (simp add: fits_def)
qed

text \<open>From a state of the clean-up on, the process is over or some thread can go on, and at most
  \<open>work\<close> steps are left.\<close>

definition cleaning :: "wproc \<Rightarrow> bool" where
  "cleaning w \<longleftrightarrow> main_thread w = Ended \<and> all_left w
     \<or> (main_thread w = Joining \<or> (\<exists>n. main_thread w = Ending n)) \<and> fits w \<and> (\<exists>tq fq. worker_holds w tq fq)"

lemma cleaning_step:
  assumes "thread_step w w'" "cleaning w"
  shows "cleaning w' \<and> work w' < work w"
proof -
  have "\<not> (main_thread w = Ended \<and> all_left w)" using ended_stuck[OF assms(1)] by blast
  then obtain tq fq where c: "worker_holds w tq fq" "fits w"
    "main_thread w = Joining \<or> (\<exists>n. main_thread w = Ending n)"
    using assms(2) by (auto simp: cleaning_def)
  note d = work_decreases[OF assms(1) c(1,3)]
  show ?thesis
  proof
    show "cleaning w'"
      using thread_step_holds[OF assms(1) c(1)] d(2) fits_step[OF assms(1) c(2,3)]
      unfolding cleaning_def worker_holds_def closed_ok_def by fastforce
  qed (rule d(1))
qed

lemma cleaning_progress: "cleaning w \<Longrightarrow> main_thread w = Ended \<or> (\<exists>w'. thread_step w w')"
  unfolding cleaning_def using shutdown_progress by blast

lemma cleaning_steps: "(thread_step ^^ k) w w' \<Longrightarrow> cleaning w \<Longrightarrow> cleaning w' \<and> work w' + k \<le> work w"
proof (induction k arbitrary: w')
  case (Suc k)
  then obtain v where v: "(thread_step ^^ k) w v" "thread_step v w'" by auto
  from Suc.IH[OF v(1) Suc.prems(2)] cleaning_step[OF v(2)] show ?case by auto
qed auto

section \<open>A result that is lost\<close>

text \<open>The sending thread takes the sentinel for the end, though a tasking thread still has a result
  to hand over.\<close>

lemma main_reads_frame:
  assumes "main_reads raw q w = Inr w'"
  shows "sending_thread w' = sending_thread w" "returned w' = returned w"
proof -
  obtain r os where "worker_request q (p_os w) (p_fd w) raw = Inr (r, os)"
    using assms by (auto simp: main_reads_def bindr_eq_Inr)
  with assms have "sending_thread w' = sending_thread w \<and> returned w' = returned w"
    by (cases r) (auto simp: main_reads_def set_local_def)
  then show "sending_thread w' = sending_thread w" "returned w' = returned w" by simp_all
qed

lemma sent_no_more:
  assumes "worker_reach w w'" "sending_thread w = Exited"
  shows "sending_thread w' = Exited \<and> returned w' = returned w"
  using assms
proof (induction rule: worker_reach.induct)
  case (step w' w'')
  then have s: "sending_thread w' = Exited" "returned w' = returned w" by simp_all
  have "sending_thread v = Exited \<and> returned v = returned w'" if "thread_step w' v" for v
    using that s(1)
    by cases (auto simp: main_reads_frame push_local_def push_finished_def main_closes_def set_local_def
        main_destroys_def task_pulls_def task_runs_def task_pushes_def heartbeat_tests_def
        heartbeat_sends_def bindr_eq_Inr)
  with step(2) s show ?case by cases auto
qed simp

lemma sentinel_overtakes:
  assumes "worker_holds w tq []" "main_thread w = Ending 0" "sending_thread w = Pulls"
  shows "\<exists>w'. worker_reach w w' \<and> sending_thread w' = Exited \<and> returned w' = returned w
    \<and> tasking_threads w' = tasking_threads w"
proof -
  note parts = assms(1)[unfolded worker_holds_def]
  let ?n = "w_next (p_heap w)"
  have some: "w_tasks (p_heap w) new_task = Some end_task" "0 < ?n"
    using parts assms(2) by (auto simp: local_ok_def pointers_ok_def)
  obtain w1 where w1: "push_finished new_task w = Inr w1" using push_finished_goes[OF assms(1)] by blast
  have ne: "w_tasks (p_heap w) new_task \<noteq> None" using some by simp
  obtain q where q: "w1 = w\<lparr>finished_task_queue := q, p_heap := copied (p_heap w) new_task\<rparr>"
    "queues_ok w1 tq ([] @ [?n])" using push_finished_holds[OF assms(1) w1 ne] .
  let ?w1 = "w1\<lparr>main_thread := Joining\<rparr>"
  have s1: "thread_step w ?w1" using thread_step.ends_finished[OF assms(2) w1] .
  have "queue_holds (finished_task_queue ?w1) [?n]" using q(2) by (simp add: queues_ok_def)
  then obtain q2 where q2: "queue_pull (finished_task_queue ?w1) = Inr (?n, q2)" by (rule queue_pull_ok)
  let ?w2 = "?w1\<lparr>finished_task_queue := q2, sending_thread := Holds ?n\<rparr>"
  have s2: "thread_step ?w1 ?w2"
    using assms(3) q(1) q2 by (intro thread_step.s_pulls) (simp_all add: send_pulls_def)
  let ?w3 = "?w2\<lparr>sending_thread := Exited\<rparr>"
  have "deref (w_tasks (p_heap ?w2)) ?n = Inr end_task" using q(1) some by simp
  moreover have "send_result os fd [] end_task = Inr (False, os)" for os fd
    by (simp add: send_result_def end_task_def)
  ultimately have "send_sends [] ?n ?w2 = Inr ?w3" by (simp add: send_sends_def end_task_def)
  then have s3: "thread_step ?w2 ?w3" by (intro thread_step.s_sends) simp_all
  have "worker_reach w ?w3"
    using s1 s2 s3 worker_reach.intros worker_step.thread by (metis (no_types))
  then show ?thesis using q(1) by (intro exI[of _ ?w3]) simp
qed

lemma worker_reach_trans:
  assumes "worker_reach u v" "worker_reach v w"
  shows "worker_reach u w"
  using assms(2,1) by (induction rule: worker_reach.induct) (auto intro: worker_reach.step)

text \<open>Up to the sentinel for the sending thread the main thread needs no other thread, as long as the
  task queue has room.\<close>

lemma sentinels_pushed:
  "worker_holds w tq fq \<Longrightarrow> main_thread w = Ending n \<Longrightarrow> int (length tq + n) \<le> MAX_CONCURRENT_TASK \<Longrightarrow>
    \<exists>w' tq'. worker_reach w w' \<and> worker_holds w' tq' fq \<and> main_thread w' = Ending 0
      \<and> tasking_threads w' = tasking_threads w \<and> sending_thread w' = sending_thread w
      \<and> finished_task_queue w' = finished_task_queue w \<and> returned w' = returned w"
proof (induction n arbitrary: w tq)
  case 0
  then show ?case using worker_reach.start by blast
next
  case (Suc n)
  note parts = Suc.prems(1)[unfolded worker_holds_def]
  have q: "queue_holds (task_queue w) tq" "\<not> queue_full (task_queue w)"
    using parts Suc.prems(3) queue_holds_size[of "task_queue w" tq]
    by (auto simp: queues_ok_def queue_full_def)
  obtain p' h' where c: "q_copy (task_queue w) new_task (p_heap w) = (p', h')" by fastforce
  from q c obtain q' where "queue_push (task_queue w) new_task (p_heap w) = Inr (q', h')"
    by (rule queue_push_ok)
  then have p: "push_local w = Inr (w\<lparr>task_queue := q', p_heap := h'\<rparr>)" by (simp add: push_local_def)
  let ?w = "w\<lparr>task_queue := q', p_heap := h'\<rparr>\<lparr>main_thread := Ending n\<rparr>"
  have "worker_holds ?w (tq @ [w_next (p_heap w)]) fq" by (rule ends_holds[OF Suc.prems(1,2) p])
  from Suc.IH[OF this] Suc.prems(3) obtain w' tq' where w': "worker_reach ?w w'"
    "worker_holds w' tq' fq" "main_thread w' = Ending 0" "tasking_threads w' = tasking_threads w"
    "sending_thread w' = sending_thread w" "finished_task_queue w' = finished_task_queue w"
    "returned w' = returned w" by auto
  have "worker_step w ?w" by (rule worker_step.thread[OF thread_step.ends[OF Suc.prems(2) p]])
  then have "worker_reach w ?w" by (rule worker_reach.step[OF worker_reach.start])
  then have "worker_reach w w'" using w'(1) by (rule worker_reach_trans)
  with w' show ?case by blast
qed

end
