(* ===== verification/Heartbeats.thy ===== *)
theory Heartbeats
  imports Sched_Props Worker_Props
begin

text \<open>
  Heartbeats from end to end: the text \<^verbatim>\<open>sprintf("%f")\<close> makes of a load in \<^verbatim>\<open>worker.c\<close>, the datagram, what
  \<^verbatim>\<open>atof\<close> reads back in \<^verbatim>\<open>listen_to_heartbeat\<close> of \<^verbatim>\<open>master.c\<close>, and the report to the worker table.
\<close>

section \<open>Decimal digits\<close>

fun digits :: "nat \<Rightarrow> string" where
  "digits n = (if n < 10 then [char_of (48 + n)] else digits (n div 10) @ [char_of (48 + n mod 10)])"

declare digits.simps [simp del]

text \<open>The last \<open>k\<close> decimal digits, with leading zeros.\<close>

fun padded :: "nat \<Rightarrow> nat \<Rightarrow> string" where
  "padded 0 n = []"
| "padded (Suc k) n = padded k (n div 10) @ [char_of (48 + n mod 10)]"

definition is_digit :: "char \<Rightarrow> bool" where
  "is_digit c \<longleftrightarrow> 48 \<le> (of_char c :: nat) \<and> (of_char c :: nat) \<le> 57"

definition digits_value :: "string \<Rightarrow> nat" where
  "digits_value s = foldl (\<lambda>v c. 10 * v + (of_char c - 48)) 0 s"

lemma digit_char [simp]: "(n :: nat) < 10 \<Longrightarrow> (of_char (char_of (48 + n) :: char) :: nat) = 48 + n"
  by simp

lemma is_digit_char [simp]: "(n :: nat) < 10 \<Longrightarrow> is_digit (char_of (48 + n))"
  by (simp add: is_digit_def)

lemma digits_value_snoc: "digits_value (s @ [c]) = 10 * digits_value s + (of_char c - 48)"
  by (simp add: digits_value_def)

lemma digits_are_digits: "\<forall>c\<in>set (digits n). is_digit c"
  by (induction n rule: digits.induct) (subst digits.simps, auto)

lemma digits_nonempty: "digits n \<noteq> []"
  by (subst digits.simps) simp

lemma digits_value_digits: "digits_value (digits n) = n"
proof (induction n rule: digits.induct)
  case (1 n)
  show ?case
  proof (cases "n < 10")
    case True
    then show ?thesis by (simp add: digits.simps[of n] digits_value_def)
  next
    case False
    then show ?thesis using 1 by (simp add: digits.simps[of n] digits_value_snoc)
  qed
qed

lemma padded_are_digits: "\<forall>c\<in>set (padded k n). is_digit c"
  by (induction k arbitrary: n) auto

lemma length_padded [simp]: "length (padded k n) = k"
  by (induction k arbitrary: n) auto

lemma digits_value_padded: "digits_value (padded k n) = n mod 10 ^ k"
proof (induction k arbitrary: n)
  case 0
  then show ?case by (simp add: digits_value_def)
next
  case (Suc k)
  have "n mod (10 * 10 ^ k) = 10 * (n div 10 mod 10 ^ k) + n mod 10"
    by (simp add: mod_mult2_eq)
  then show ?case by (simp add: Suc digits_value_snoc)
qed

lemma length_digits: "n < 10 ^ k \<Longrightarrow> 0 < k \<Longrightarrow> length (digits n) \<le> k"
proof (induction k arbitrary: n)
  case (Suc k)
  show ?case
  proof (cases "n < 10")
    case True
    then show ?thesis by (simp add: digits.simps)
  next
    case False
    then have "0 < k" using Suc.prems(1) by (cases k) auto
    moreover have "n div 10 < 10 ^ k" using Suc.prems(1) by auto
    ultimately show ?thesis using Suc.IH[of "n div 10"] False by (simp add: digits.simps[of n])
  qed
qed simp

section \<open>\<^verbatim>\<open>sprintf("%f")\<close> and \<^verbatim>\<open>atof\<close>\<close>

text \<open>To the nearest integer, a tie to the even one.\<close>

definition round_even :: "rat \<Rightarrow> int" where
  "round_even x =
     (let f = \<lfloor>x\<rfloor>; d = x - of_int f in
      if d < 1 / 2 then f else if 1 / 2 < d then f + 1 else if even f then f else f + 1)"

lemma round_even_near: "\<bar>of_int (round_even x) - x\<bar> \<le> 1 / 2"
proof -
  have f: "of_int \<lfloor>x\<rfloor> \<le> x" "x < of_int \<lfloor>x\<rfloor> + 1" by (simp_all, linarith)
  then show ?thesis unfolding round_even_def Let_def by (auto simp: abs_le_iff)
qed

lemma round_even_nonneg: "0 \<le> x \<Longrightarrow> 0 \<le> round_even x"
  unfolding round_even_def Let_def by auto

text \<open>Six digits after the point; \<open>sign\<close> is the sign bit of a NaN, which C prints.\<close>

fun print_f :: "bool \<Rightarrow> dbl \<Rightarrow> string" where
  "print_f sign (Num r) =
     (let m = nat (round_even (\<bar>r\<bar> * 10 ^ 6)) in
      (if r < 0 then ''-'' else []) @ digits (m div 10 ^ 6) @ ''.'' @ padded 6 (m mod 10 ^ 6))"
| "print_f sign PInf = ''inf''"
| "print_f sign NInf = ''-inf''"
| "print_f sign NaN = (if sign then ''-nan'' else ''nan'')"

text \<open>The decimal texts, \<^verbatim>\<open>inf\<close> and \<^verbatim>\<open>nan\<close>. What \<^verbatim>\<open>atof\<close> makes of other texts (exponents, hexadecimal
  digits, spaces in front, garbage), which no worker sends, is the argument \<open>other\<close>.\<close>

definition parse_decimal :: "string \<Rightarrow> rat option" where
  "parse_decimal s =
     (let i = takeWhile is_digit s; rest = dropWhile is_digit s in
      if i = [] then None
      else if rest = [] then Some (of_nat (digits_value i))
      else if hd rest = CHR ''.'' \<and> (\<forall>c\<in>set (tl rest). is_digit c)
      then Some (of_nat (digits_value i) + of_nat (digits_value (tl rest)) / 10 ^ length (tl rest))
      else None)"

definition atof :: "(string \<Rightarrow> dbl) \<Rightarrow> string \<Rightarrow> dbl" where
  "atof other s =
     (let neg = (s \<noteq> [] \<and> hd s = CHR ''-''); u = (if neg then tl s else s) in
      if u = ''nan'' then NaN
      else if u = ''inf'' then (if neg then NInf else PInf)
      else case parse_decimal u of
          None \<Rightarrow> other s
        | Some r \<Rightarrow> Num (if neg then - r else r))"

lemma takeWhile_stop: "\<forall>x\<in>set xs. P x \<Longrightarrow> \<not> P y \<Longrightarrow> takeWhile P (xs @ y # ys) = xs"
  by (induction xs) auto

lemma dropWhile_stop: "\<forall>x\<in>set xs. P x \<Longrightarrow> \<not> P y \<Longrightarrow> dropWhile P (xs @ y # ys) = y # ys"
  by (induction xs) auto

lemma parse_decimal_point:
  assumes "\<forall>c\<in>set i. is_digit c" "i \<noteq> []" "\<forall>c\<in>set f. is_digit c"
  shows "parse_decimal (i @ CHR ''.'' # f)
    = Some (of_nat (digits_value i) + of_nat (digits_value f) / 10 ^ length f)"
proof -
  have dot: "\<not> is_digit (CHR ''.'')" by (simp add: is_digit_def)
  show ?thesis using assms(2,3)
    by (simp add: parse_decimal_def takeWhile_stop[of _ is_digit, OF assms(1) dot] dropWhile_stop[of _ is_digit, OF assms(1) dot])
qed

lemma atof_number:
  assumes "parse_decimal u = Some r" "u \<noteq> []" "is_digit (hd u)"
  shows "atof other u = Num r" "atof other (CHR ''-'' # u) = Num (- r)"
proof -
  have "hd u \<noteq> CHR ''-''" "hd u \<noteq> CHR ''n''" "hd u \<noteq> CHR ''i''"
    using assms(3) by (auto simp: is_digit_def)
  then show "atof other u = Num r" "atof other (CHR ''-'' # u) = Num (- r)"
    using assms(1,2) by (auto simp: atof_def)
qed

text \<open>What is read back is the load to six decimal places; the special values come back as they are.\<close>

lemma atof_print_f:
  "\<exists>r'. (\<forall>other. atof other (print_f sign (Num r)) = Num r') \<and> \<bar>r' - r\<bar> \<le> 1 / 2000000"
proof -
  define m where "m = nat (round_even (\<bar>r\<bar> * 10 ^ 6))"
  define u where "u = digits (m div 10 ^ 6) @ CHR ''.'' # padded 6 (m mod 10 ^ 6)"
  have u: "u \<noteq> []" "is_digit (hd u)"
    using digits_are_digits[of "m div 10 ^ 6"] hd_in_set[OF digits_nonempty[of "m div 10 ^ 6"]]
    by (auto simp: u_def digits_nonempty simp del: hd_in_set)
  have p: "parse_decimal u = Some (of_nat m / 10 ^ 6)"
  proof -
    have "m div 10 ^ 6 * 10 ^ 6 + m mod 10 ^ 6 = m" by simp
    then have "(of_nat m :: rat) = of_nat (m div 10 ^ 6) * 10 ^ 6 + of_nat (m mod 10 ^ 6)"
      by (metis of_nat_add of_nat_mult of_nat_numeral of_nat_power)
    then show ?thesis unfolding u_def
      by (subst parse_decimal_point)
        (simp_all add: digits_are_digits digits_nonempty padded_are_digits digits_value_digits
          digits_value_padded add_divide_distrib)
  qed
  have "0 \<le> \<bar>r\<bar> * 10 ^ 6" by simp
  then have "(of_nat m :: rat) = of_int (round_even (\<bar>r\<bar> * 10 ^ 6))"
    using round_even_nonneg by (simp add: m_def of_nat_nat)
  then have near: "\<bar>of_nat m / 10 ^ 6 - \<bar>r\<bar>\<bar> \<le> (1 / 2000000 :: rat)"
    using round_even_near[of "\<bar>r\<bar> * 10 ^ 6"] by (simp add: abs_le_iff field_simps)
  have shown: "print_f sign (Num r) = (if r < 0 then CHR ''-'' # u else u)"
    by (simp add: u_def m_def Let_def)
  show ?thesis
  proof (cases "r < 0")
    case True
    then have "\<bar>- (of_nat m / 10 ^ 6) - r\<bar> = \<bar>of_nat m / 10 ^ 6 - \<bar>r\<bar>\<bar>" by (simp add: abs_if)
    then show ?thesis using True atof_number(2)[OF p u] near
      by (intro exI[of _ "- (of_nat m / 10 ^ 6)"]) (simp only: shown if_True simp_thms)
  next
    case False
    then have "\<bar>r\<bar> = r" by simp
    then show ?thesis using False atof_number(1)[OF p u] near
      by (intro exI[of _ "of_nat m / 10 ^ 6"]) (simp only: shown if_False simp_thms)
  qed
qed

lemma atof_print_special:
  "atof other (print_f sign NaN) = NaN" "atof other (print_f sign PInf) = PInf"
  "atof other (print_f sign NInf) = NInf"
  by (auto simp: atof_def)

lemma length_print_f:
  assumes "\<bar>r\<bar> \<le> 10 ^ 20"
  shows "length (print_f sign (Num r)) \<le> 29"
proof -
  define m where "m = nat (round_even (\<bar>r\<bar> * 10 ^ 6))"
  have "\<bar>r\<bar> * 10 ^ 6 \<le> 10 ^ 20 * 10 ^ 6" using assms by (intro mult_right_mono) simp_all
  moreover have "of_int (round_even (\<bar>r\<bar> * 10 ^ 6)) \<le> \<bar>r\<bar> * 10 ^ 6 + 1 / 2"
    using round_even_near[of "\<bar>r\<bar> * 10 ^ 6"] by linarith
  ultimately have "of_int (round_even (\<bar>r\<bar> * 10 ^ 6)) < (of_int (10 ^ 26 + 1) :: rat)" by simp
  then have "round_even (\<bar>r\<bar> * 10 ^ 6) < 10 ^ 26 + 1" by (simp only: of_int_less_iff)
  then have "m div 10 ^ 6 < 10 ^ 21" unfolding m_def by simp
  then have "length (digits (m div 10 ^ 6)) \<le> 21" by (rule length_digits) simp
  then show ?thesis unfolding m_def by (auto simp: Let_def)
qed

lemma print_f_number: "\<forall>c\<in>set (print_f sign x). is_digit c \<or> c \<in> {CHR ''.'', CHR ''-'', CHR ''i'', CHR ''n'', CHR ''f'', CHR ''a''}"
  using digits_are_digits padded_are_digits by (cases x) (auto simp: Let_def)

section \<open>The listener\<close>

text \<open>A character of a text that \<^verbatim>\<open>strtod\<close> reads. The scan of a buffer ends at the first other one; a
  buffer without one is read past its end.\<close>

definition number_char :: "char \<Rightarrow> bool" where
  "number_char c \<longleftrightarrow> is_digit c \<or> (65 \<le> (of_char c :: nat) \<and> (of_char c :: nat) \<le> 90)
     \<or> (97 \<le> (of_char c :: nat) \<and> (of_char c :: nat) \<le> 122) \<or> c \<in> set ''+-.()_ '' \<or> (9 \<le> (of_char c :: nat) \<and> (of_char c :: nat) \<le> 13)"

definition read_number :: "char list \<Rightarrow> string res" where
  "read_number buffer =
     (if \<forall>c\<in>set buffer. number_char c then Inl Out_of_bounds else Inr (takeWhile number_char buffer))"

text \<open>One turn of the loop of \<^verbatim>\<open>listen_to_heartbeat\<close>: \<open>got\<close> is what \<^verbatim>\<open>recvfrom\<close> gave, the sender's
  address and the datagram, or an error. The text is read before the test for the error. The first
  component tells whether the loop goes on; when it does not, \<^verbatim>\<open>keep_update\<close> is set to 0.\<close>

definition listen_turn ::
  "(string \<Rightarrow> dbl) \<Rightarrow> char list \<Rightarrow> (string \<times> char list) option \<Rightarrow> dbl \<Rightarrow> mstate \<Rightarrow> (bool \<times> mstate) res" where
  "listen_turn other raw got t m =
     (let buffer = (case got of
          None \<Rightarrow> raw
        | Some (_, d) \<Rightarrow> take HEARTBEAT_SIZE d @ drop (length (take HEARTBEAT_SIZE d)) raw) in
      bindr (read_number buffer) (\<lambda>text.
        let client_usage = atof other text in
        case got of
          None \<Rightarrow> Inr (False, m)
        | Some (worker_addr, _) \<Rightarrow>
            bindr (report_heartbeat worker_addr client_usage t m) (\<lambda>m. Inr (True, m))))"

section \<open>End to end\<close>

lemma read_number_terminated:
  assumes "\<forall>c\<in>set s. number_char c"
  shows "read_number (s @ NUL # rest) = Inr s"
proof -
  have n: "\<not> number_char NUL" by (simp add: number_char_def is_digit_def)
  then show ?thesis by (auto simp: read_number_def takeWhile_stop[of _ number_char, OF assms n])
qed

text \<open>The datagram of a heartbeat: the text, its null byte, and what else was in the buffer.\<close>

definition heartbeat_datagram :: "string \<Rightarrow> char list \<Rightarrow> char list" where
  "heartbeat_datagram text raw = text @ NUL # drop (Suc (length text)) raw"

lemma heartbeat_sent:
  "length (format u) < HEARTBEAT_SIZE \<Longrightarrow> send_heartbeat format sendto raw u
    = Inr (if sendto (heartbeat_datagram (format u) raw) < 0 then - 1 else 0)"
  by (simp add: send_heartbeat_def heartbeat_datagram_def Let_def)

lemma heartbeat_heard:
  assumes "\<forall>c\<in>set text. number_char c" "length text < HEARTBEAT_SIZE" "length raw = HEARTBEAT_SIZE"
  shows "listen_turn other raw' (Some (addr, heartbeat_datagram text raw)) t m
    = bindr (report_heartbeat addr (atof other text) t m) (\<lambda>m. Inr (True, m))"
proof -
  have "take HEARTBEAT_SIZE (heartbeat_datagram text raw) = text @ NUL # drop (Suc (length text)) raw"
    using assms(2,3) by (simp add: heartbeat_datagram_def)
  then show ?thesis by (simp add: listen_turn_def read_number_terminated[OF assms(1)])
qed

lemma print_f_number_chars: "\<forall>c\<in>set (print_f sign x). number_char c"
proof -
  have "number_char c" if "is_digit c" for c using that by (simp add: number_char_def)
  moreover have "\<forall>c\<in>{CHR ''.'', CHR ''-'', CHR ''i'', CHR ''n'', CHR ''f'', CHR ''a''}. number_char c"
    by (simp add: number_char_def is_digit_def)
  ultimately show ?thesis using print_f_number[of sign x] by blast
qed

end
