(* ===== verification/Master_Process.thy ===== *)
theory Master_Process
  imports Heartbeats Master_Inv
begin

text \<open>
  The master process: start-up, the thread of \<^verbatim>\<open>master_main\<close> with its event loop, the threads
  \<^verbatim>\<open>listen_to_heartbeat\<close> and \<^verbatim>\<open>detect_heart_failure\<close>, SIGINT. A step is one event, one datagram, one pass of
  the detector, or one test of a loop. The results of the system calls that set up the sockets are
  arguments.
\<close>

section \<open>Start-up\<close>

record start_calls =
  r_sigaction_int :: int
  r_sigaction_pipe :: int
  r_socket :: int
  r_getaddrinfo :: int
  r_bind :: int
  r_listen :: int
  r_epoll_create :: int
  r_epoll_ctl :: int
  r_mkdtemp :: "string option"

definition setSignalHandlers :: "start_calls \<Rightarrow> unit res" where
  "setSignalHandlers c =
     (if r_sigaction_int c < 0 then Inl (Exits 1)
      else if r_sigaction_pipe c < 0 then Inl (Exits 1) else Inr ())"

definition set_up_server :: "start_calls \<Rightarrow> int res" where
  "set_up_server c =
     (if r_getaddrinfo c \<noteq> 0 then Inl (Exits 1)
      else if r_bind c \<noteq> 0 then Inl (Exits 1)
      else if r_listen c \<noteq> 0 then Inl (Exits 1) else Inr (r_socket c))"

text \<open>The two lists are \<^const>\<open>initial_master\<close>; \<^verbatim>\<open>strdup\<close> of a failed \<^verbatim>\<open>mkdtemp\<close> reads through NULL.\<close>

definition setUpGlobals :: "start_calls \<Rightarrow> osys \<Rightarrow> (int \<times> mstate) res" where
  "setUpGlobals c os =
     bindr (set_up_server c) (\<lambda>server_socket.
     bindr (initial_master os) (\<lambda>m.
       if r_epoll_create c = - 1 then Inl (Exits 1)
       else if r_epoll_ctl c \<noteq> 0 then Inl (Exits 1)
       else case r_mkdtemp c of None \<Rightarrow> Inl Null_deref | Some temp_directory \<Rightarrow> Inr (server_socket, m)))"

text \<open>The UDP socket; after a failure the listener goes on with -1.\<close>

definition setUpUDPServer :: "int \<Rightarrow> int \<Rightarrow> int" where
  "setUpUDPServer socket_result bind_result =
     (if socket_result < 0 then - 1 else if bind_result < 0 then - 1 else socket_result)"

section \<open>Freeing\<close>

text \<open>Nothing calls these two.\<close>

definition free_task :: "ptr \<Rightarrow> mstate \<Rightarrow> mstate res" where
  "free_task t m = bindr (get_task m t) (\<lambda>_. Inr (m\<lparr>m_tasks := (m_tasks m)(t := None)\<rparr>))"

definition free_worker :: "ptr \<Rightarrow> mstate \<Rightarrow> mstate res" where
  "free_worker to_free m =
     bindr (get_worker m to_free) (\<lambda>w. bindr (vector_destroy (tasks w) ()) (\<lambda>_.
       Inr (m\<lparr>m_workers := (m_workers m)(to_free := None)\<rparr>)))"

section \<open>The threads\<close>

datatype master_at = M_tests | M_waits | M_returned

datatype helper_at = Running | Left

record mproc =
  p_master :: mstate
  close_master :: bool
  keep_update :: bool
  event_loop :: master_at
  listener :: helper_at
  detector :: helper_at

definition master_main :: "start_calls \<Rightarrow> osys \<Rightarrow> mproc res" where
  "master_main c os =
     bindr (setSignalHandlers c) (\<lambda>_. bindr (setUpGlobals c os) (\<lambda>(server_socket, m).
       Inr \<lparr>p_master = m, close_master = False, keep_update = True, event_loop = M_tests,
            listener = Running, detector = Running\<rparr>))"

definition kill_master :: "mproc \<Rightarrow> mproc" where
  "kill_master p = p\<lparr>close_master := True\<rparr>"

definition loop_tests :: "mproc \<Rightarrow> mproc" where
  "loop_tests p = p\<lparr>event_loop := (if close_master p then M_returned else M_waits)\<rparr>"

text \<open>An event that was handled takes the loop back to its test.\<close>

definition handled :: "mproc \<Rightarrow> mstate \<Rightarrow> mproc" where
  "handled p m = p\<lparr>p_master := m, event_loop := M_tests\<rparr>"

definition listener_turn ::
  "(string \<Rightarrow> dbl) \<Rightarrow> char list \<Rightarrow> (string \<times> char list) option \<Rightarrow> dbl \<Rightarrow> mproc \<Rightarrow> mproc res" where
  "listener_turn other raw got t p =
     bindr (listen_turn other raw got t (p_master p)) (\<lambda>(more, m).
       Inr (if more then p\<lparr>p_master := m\<rparr>
            else p\<lparr>p_master := m, keep_update := False, listener := Left\<rparr>))"

definition detector_turn :: "worker \<Rightarrow> dbl \<Rightarrow> mproc \<Rightarrow> mproc res" where
  "detector_turn raw t p =
     (if keep_update p then bindr (detect_pass raw t (p_master p)) (\<lambda>m. Inr (p\<lparr>p_master := m\<rparr>))
      else Inr (p\<lparr>detector := Left\<rparr>))"

text \<open>The process is over when \<^verbatim>\<open>master_main\<close> has returned: every step needs it not to have. \<^verbatim>\<open>epoll_wait\<close>
  gives the server socket, a connection, or an error.\<close>

inductive master_process_step :: "mproc \<Rightarrow> mproc \<Rightarrow> bool" where
  tests: "event_loop p = M_tests \<Longrightarrow> master_process_step p (loop_tests p)"
| accepts: "event_loop p = M_waits \<Longrightarrow>
    accept_connections raw epoll_add pending (p_master p) = Inr m \<Longrightarrow>
    accept_fresh pending (m_os (p_master p)) \<Longrightarrow> master_process_step p (handled p m)"
| handles: "event_loop p = M_waits \<Longrightarrow> handle_data e_fd (p_master p) = Inr m \<Longrightarrow>
    master_process_step p (handled p m)"
| interrupted: "event_loop p = M_waits \<Longrightarrow> master_process_step p (handled p (p_master p))"
| listens: "event_loop p \<noteq> M_returned \<Longrightarrow> listener p = Running \<Longrightarrow>
    listener_turn other raw got t p = Inr p' \<Longrightarrow> master_process_step p p'"
| detects: "event_loop p \<noteq> M_returned \<Longrightarrow> detector p = Running \<Longrightarrow> detector_turn raw t p = Inr p' \<Longrightarrow>
    master_process_step p p'"
| arrives: "event_loop p \<noteq> M_returned \<Longrightarrow>
    master_process_step p (p\<lparr>p_master := (p_master p)\<lparr>m_os := feed (m_os (p_master p)) fd es\<rparr>\<rparr>)"
| sigint: "event_loop p \<noteq> M_returned \<Longrightarrow> master_process_step p (kill_master p)"

inductive master_process_reach :: "mproc \<Rightarrow> mproc \<Rightarrow> bool" for p0 where
  start: "master_process_reach p0 p0"
| step: "master_process_reach p0 p \<Longrightarrow> master_process_step p p' \<Longrightarrow> master_process_reach p0 p'"

section \<open>What the process does to the state of the master\<close>

lemma master_reach_step: "master_step m m' \<Longrightarrow> master_reach m m'"
  by (rule master_reach.step[OF master_reach.start])

lemma master_reach_trans: "master_reach b c \<Longrightarrow> master_reach a b \<Longrightarrow> master_reach a c"
  by (induction rule: master_reach.induct) (auto intro: master_reach.step)

lemma listener_turn_cases:
  assumes "listener_turn other raw got t p = Inr p'"
  obtains (heard) addr usage m where "report_heartbeat addr usage t (p_master p) = Inr m"
      "p' = p\<lparr>p_master := m\<rparr>"
  | (failed) "p' = p\<lparr>keep_update := False, listener := Left\<rparr>"
  using assms
  by (auto simp: listener_turn_def listen_turn_def Let_def bindr_eq_Inr split: option.splits prod.splits)

text \<open>A step of the process is a step of the master, or leaves its state alone.\<close>

lemma process_step_simulates:
  "master_process_step p p' \<Longrightarrow> master_reach (p_master p) (p_master p')"
proof (induction rule: master_process_step.induct)
  case (listens p other raw got t p')
  from listens(3) show ?case
  proof (cases rule: listener_turn_cases)
    case (heard addr usage m)
    then show ?thesis by (auto intro!: master_reach_step master_step.heartbeat)
  next
    case failed
    then show ?thesis by (simp add: master_reach.start)
  qed
next
  case (detects p raw t p')
  show ?case
  proof (cases "keep_update p")
    case True
    then show ?thesis using detects(3)
      by (auto simp: detector_turn_def bindr_eq_Inr intro!: master_reach_step master_step.monitor)
  next
    case False
    then show ?thesis using detects(3) by (auto simp: detector_turn_def master_reach.start)
  qed
qed (auto simp: loop_tests_def handled_def kill_master_def
      intro: master_reach.start master_reach_step master_step.intros)

lemma process_reach_simulates:
  "master_process_reach p0 p \<Longrightarrow> master_reach (p_master p0) (p_master p)"
  by (induction rule: master_process_reach.induct)
    (auto intro: master_reach.start master_reach_trans process_step_simulates)

text \<open>The flag \<^verbatim>\<open>keep_update\<close> is the listener's; the detector leaves after it.\<close>

definition helpers_ok :: "mproc \<Rightarrow> bool" where
  "helpers_ok p \<longleftrightarrow> (keep_update p \<longleftrightarrow> listener p = Running) \<and> (detector p = Left \<longrightarrow> \<not> keep_update p)"

lemma helpers_ok_step: "master_process_step p p' \<Longrightarrow> helpers_ok p \<Longrightarrow> helpers_ok p'"
proof (induction rule: master_process_step.induct)
  case (listens p other raw got t p')
  from listens(3) show ?case
    by (cases rule: listener_turn_cases) (use listens in \<open>auto simp: helpers_ok_def\<close>)
next
  case (detects p raw t p')
  then show ?case by (auto simp: detector_turn_def helpers_ok_def bindr_eq_Inr split: if_splits)
qed (auto simp: helpers_ok_def loop_tests_def handled_def kill_master_def)

lemma helpers_ok_reach: "master_process_reach p0 p \<Longrightarrow> helpers_ok p0 \<Longrightarrow> helpers_ok p"
  by (induction rule: master_process_reach.induct) (auto intro: helpers_ok_step)

text \<open>Without the listener only an event or data on a connection changes the state.\<close>

lemma without_listener:
  assumes "master_process_step p p'" "helpers_ok p" "listener p = Left"
  shows "listener p' = Left \<and> (p_master p' = p_master p \<or> event_loop p = M_waits
    \<or> (\<exists>fd es. p_master p' = (p_master p)\<lparr>m_os := feed (m_os (p_master p)) fd es\<rparr>))"
  using assms
proof (induction rule: master_process_step.induct)
  case (detects p raw t p')
  then show ?case by (auto simp: detector_turn_def helpers_ok_def split: if_splits)
qed (auto simp: loop_tests_def handled_def kill_master_def)

lemma listener_gone_reach:
  "master_process_reach p p' \<Longrightarrow> helpers_ok p \<Longrightarrow> listener p = Left \<Longrightarrow> helpers_ok p' \<and> listener p' = Left"
  by (induction rule: master_process_reach.induct) (auto dest: without_listener helpers_ok_step)

lemma master_main_start:
  assumes "master_main c os = Inr p"
  obtains m where "initial_master os = Inr m" "p_master p = m" "helpers_ok p"
  using assms that
  by (auto simp: master_main_def setUpGlobals_def bindr_eq_Inr helpers_ok_def split: if_splits option.splits)

section \<open>The end of the process\<close>

fun loop_left :: "master_at \<Rightarrow> nat" where
  "loop_left M_returned = 0"
| "loop_left M_tests = 1"
| "loop_left M_waits = 2"

text \<open>After SIGINT the event loop handles at most the event it waits for.\<close>

lemma loop_left_step:
  assumes "master_process_step p p'" "close_master p"
  shows "close_master p' \<and> (event_loop p' = event_loop p \<or> loop_left (event_loop p') < loop_left (event_loop p))"
  using assms
proof (induction rule: master_process_step.induct)
  case (listens p other raw got t p')
  from listens(3) show ?case
    by (cases rule: listener_turn_cases) (use listens in auto)
next
  case (detects p raw t p')
  then show ?case by (auto simp: detector_turn_def bindr_eq_Inr split: if_splits)
qed (auto simp: loop_tests_def handled_def kill_master_def)

end
