(* ===== verification/Process_Start.thy ===== *)
theory Process_Start
  imports Master_Process Worker_Process
begin

text \<open>
  How the three programs start: \<^verbatim>\<open>main.c\<close>, and what \<^verbatim>\<open>worker_main\<close>, its \<^verbatim>\<open>heartbeat\<close> thread and
  \<^verbatim>\<open>interface_main\<close> do before their loops. The results of the system calls are arguments.
\<close>

section \<open>\<^verbatim>\<open>main.c\<close>\<close>

datatype program = Run_master | Run_worker string string | Run_interface

text \<open>\<open>argv\<close> is the list of the arguments, the program's name first.\<close>

definition main_program :: "string list \<Rightarrow> program res" where
  "main_program argv =
     (if length argv \<noteq> 2 then Inl (Exits 1)
      else if argv ! 1 = ''master'' then Inr Run_master
      else if argv ! 1 = ''worker'' then Inr (Run_worker ''127.0.0.1'' ''9999'')
      else Inr Run_interface)"

section \<open>Connecting\<close>

record client_calls =
  c_sigaction :: int
  c_socket :: int
  c_getaddrinfo :: int
  c_connect :: int

definition setup_client :: "client_calls \<Rightarrow> int res" where
  "setup_client c =
     (if c_getaddrinfo c \<noteq> 0 then Inl (Exits (- 1))
      else if c_connect c = - 1 then Inl (Exits (- 1)) else Inr (c_socket c))"

definition worker_main_starts :: "client_calls \<Rightarrow> osys \<Rightarrow> wproc res" where
  "worker_main_starts c os =
     (if c_sigaction c < 0 then Inl (Exits 1)
      else bindr (setup_client c) (\<lambda>socket_fd. Inr (worker_start os socket_fd)))"

definition setUpUDPClient :: "int \<Rightarrow> int" where
  "setUpUDPClient socket_result = (if socket_result < 0 then - 1 else socket_result)"

text \<open>\<open>dest\<close> is the address \<^verbatim>\<open>gethostbyname\<close> found; its failure is printed, and then read through.\<close>

definition setupUDPDestination :: "string option \<Rightarrow> string res" where
  "setupUDPDestination dest = (case dest of None \<Rightarrow> Inl Null_deref | Some master_ip \<Rightarrow> Inr master_ip)"

text \<open>\<^verbatim>\<open>interface_main\<close> frees \<open>result\<close> also when \<^verbatim>\<open>getaddrinfo\<close> has not set it.\<close>

definition interface_main_starts :: "client_calls \<Rightarrow> int res" where
  "interface_main_starts c =
     (if c_getaddrinfo c \<noteq> 0 then Inl Out_of_bounds
      else if c_connect c = - 1 then Inl (Exits 2) else Inr (c_socket c))"

end
