(* ===== verification/Old_Cluster.thy ===== *)
theory Old_Cluster
  imports Worker_Net Doubles
begin

text \<open>
  The node list, queue and scheduler of \<^verbatim>\<open>src/deprecated\<close> (\<^verbatim>\<open>node.c\<close>, \<^verbatim>\<open>queue.c\<close>, \<^verbatim>\<open>scheduler.c\<close>), an earlier
  version that is not built. Nodes are structs on a heap, linked by \<^verbatim>\<open>next\<close>; one mutex guards them all,
  and a thread that locks it twice is \<open>Deadlock\<close>. The old queue is that of \<open>Task_Queue\<close> without limit,
  constructor and monitor. Names are values.
\<close>

section \<open>Nodes\<close>

abbreviation (input) MAX_TASKS_PER_NODE :: nat where "MAX_TASKS_PER_NODE \<equiv> 5"

text \<open>\<open>n_fileName\<close>: a buffer of its own, or an array of a function that has returned.\<close>

datatype name_buffer = No_name | Own_buffer | Dead_array

record old_task =
  t_file_name :: string
  t_file_stream :: int

record old_node =
  n_socket_fd :: int
  n_alive :: int
  n_taskNo :: int
  n_taskPos :: int
  n_bufSize :: nat
  n_bufPos :: nat
  n_bufWIP :: int
  n_buf :: "char list"
  n_load :: dbl
  n_beat :: dbl
  n_address :: string
  n_task_list :: "ptr list"
  n_num_of_task :: int
  n_tmpFP :: int
  n_fileName :: name_buffer
  n_tmpTask :: "old_task option"
  n_next :: ptr

type_synonym old_queue = "(ptr \<Rightarrow> string option) queue"

record old_state =
  o_nodes :: "ptr \<Rightarrow> old_node option"
  o_fresh :: ptr
  o_mutex :: bool
  o_queue :: "old_queue option"
  o_tasks :: "ptr \<Rightarrow> string option"

text \<open>Each accessor locks, reads or writes one field, and unlocks.\<close>

definition old_read :: "(old_node \<Rightarrow> 'a) \<Rightarrow> old_state \<Rightarrow> ptr \<Rightarrow> 'a res" where
  "old_read field s cur =
     (if o_mutex s then Inl Deadlock else bindr (deref (o_nodes s) cur) (\<lambda>n. Inr (field n)))"

definition old_write :: "(old_node \<Rightarrow> old_node) \<Rightarrow> old_state \<Rightarrow> ptr \<Rightarrow> old_state res" where
  "old_write change s cur =
     (if o_mutex s then Inl Deadlock
      else bindr (deref (o_nodes s) cur) (\<lambda>n. Inr (s\<lparr>o_nodes := (o_nodes s)(cur \<mapsto> change n)\<rparr>)))"

definition get_next :: "old_state \<Rightarrow> ptr \<Rightarrow> ptr res" where
  "get_next s cur = (if cur = NULL then Inr NULL else old_read n_next s cur)"

definition is_alive :: "old_state \<Rightarrow> ptr \<Rightarrow> int res" where
  "is_alive s cur = (if cur = NULL then Inr (- 1) else old_read n_alive s cur)"

definition set_next :: "old_state \<Rightarrow> ptr \<Rightarrow> ptr \<Rightarrow> old_state res" where
  "set_next s prev nx = old_write (\<lambda>n. n\<lparr>n_next := nx\<rparr>) s prev"

definition set_last_beat_received_time :: "old_state \<Rightarrow> ptr \<Rightarrow> dbl \<Rightarrow> old_state res" where
  "set_last_beat_received_time s cur t = old_write (\<lambda>n. n\<lparr>n_beat := t\<rparr>) s cur"

definition set_load :: "old_state \<Rightarrow> ptr \<Rightarrow> dbl \<Rightarrow> old_state res" where
  "set_load s cur l = old_write (\<lambda>n. n\<lparr>n_load := l\<rparr>) s cur"

definition get_load :: "old_state \<Rightarrow> ptr \<Rightarrow> dbl res" where
  "get_load s cur = old_read n_load s cur"

definition set_alive :: "old_state \<Rightarrow> ptr \<Rightarrow> int \<Rightarrow> old_state res" where
  "set_alive s cur a = old_write (\<lambda>n. n\<lparr>n_alive := a\<rparr>) s cur"

definition get_last_heartbeat_time :: "old_state \<Rightarrow> ptr \<Rightarrow> dbl res" where
  "get_last_heartbeat_time s cur = old_read n_beat s cur"

definition get_address :: "old_state \<Rightarrow> ptr \<Rightarrow> string res" where
  "get_address s cur = old_read n_address s cur"

definition get_num_of_task :: "old_state \<Rightarrow> ptr \<Rightarrow> int res" where
  "get_num_of_task s cur = old_read n_num_of_task s cur"

definition set_num_of_task :: "old_state \<Rightarrow> ptr \<Rightarrow> int \<Rightarrow> old_state res" where
  "set_num_of_task s cur k = old_write (\<lambda>n. n\<lparr>n_num_of_task := k\<rparr>) s cur"

definition cleanNode :: "old_state \<Rightarrow> ptr \<Rightarrow> old_state res" where
  "cleanNode s p = bindr (deref (o_nodes s) p) (\<lambda>_. Inr (s\<lparr>o_nodes := (o_nodes s)(p := None)\<rparr>))"

text \<open>The walk to the last node of the list.\<close>

partial_function (option) last_node :: "old_state \<Rightarrow> ptr \<Rightarrow> ptr res option" where
  "last_node s temp =
     (case get_next s temp of
        Inl e \<Rightarrow> Some (Inl e)
      | Inr nx \<Rightarrow> if nx \<noteq> NULL then last_node s nx else Some (Inr temp))"

text \<open>\<open>raw\<close> is fresh memory, with a buffer of the size below. The mutex is locked for the whole walk, and
  not unlocked after it.\<close>

definition addNode :: "old_node \<Rightarrow> int \<Rightarrow> string \<Rightarrow> ptr \<Rightarrow> old_state \<Rightarrow> (ptr \<times> old_state) res" where
  "addNode raw fd addr first s =
     (let node = o_fresh s;
          s = s\<lparr>o_fresh := node + 1, o_nodes := (o_nodes s)(node \<mapsto> raw\<lparr>n_socket_fd := fd, n_alive := 1,
            n_load := Num 0, n_taskNo := 0, n_taskPos := 0, n_next := NULL, n_address := addr,
            n_beat := Num 0, n_bufSize := 4096, n_bufPos := 0, n_bufWIP := 0, n_num_of_task := 0,
            n_task_list := replicate MAX_TASKS_PER_NODE NULL, n_fileName := Own_buffer\<rparr>)\<rparr> in
      if o_mutex s then Inl Deadlock
      else
        (let s = s\<lparr>o_mutex := True\<rparr> in
         if first = NULL then Inr (node, s\<lparr>o_mutex := False\<rparr>)
         else bindr (bindr (or_fault Diverges (last_node s first)) (\<lambda>r. r)) (\<lambda>temp.
           bindr (set_next s temp node) (\<lambda>s. Inr (first, s)))))"

partial_function (option) unlink_loop :: "old_state \<Rightarrow> ptr \<Rightarrow> ptr \<Rightarrow> old_state res option" where
  "unlink_loop s old holder =
     (if holder \<noteq> NULL then
        (case deref (o_nodes s) holder of
           Inl e \<Rightarrow> Some (Inl e)
         | Inr h \<Rightarrow>
             if n_next h = old then
               Some (bindr (deref (o_nodes s) old) (\<lambda>n.
                 cleanNode (s\<lparr>o_nodes := (o_nodes s)(holder \<mapsto> h\<lparr>n_next := n_next n\<rparr>), o_mutex := False\<rparr>) old))
             else (case get_next s holder of
                 Inl e \<Rightarrow> Some (Inl e)
               | Inr nx \<Rightarrow> unlink_loop s old nx))
      else Some (Inr (s\<lparr>o_mutex := False\<rparr>)))"

definition removeNode :: "ptr \<Rightarrow> ptr \<Rightarrow> old_state \<Rightarrow> (ptr \<times> old_state) res" where
  "removeNode old first s =
     (if o_mutex s then Inl Deadlock
      else
        (let s = s\<lparr>o_mutex := True\<rparr> in
         if first = old then
           bindr (deref (o_nodes s) old) (\<lambda>n.
           bindr (cleanNode (s\<lparr>o_mutex := False\<rparr>) old) (\<lambda>s. Inr (n_next n, s)))
         else bindr (bindr (or_fault Diverges (unlink_loop s old first)) (\<lambda>r. r)) (\<lambda>s. Inr (first, s))))"

partial_function (option) free_all_nodes :: "old_state \<Rightarrow> ptr \<Rightarrow> old_state res option" where
  "free_all_nodes s cur =
     (if cur \<noteq> NULL then
        (case get_next s cur of
           Inl e \<Rightarrow> Some (Inl e)
         | Inr temp \<Rightarrow> (case cleanNode s cur of Inl e \<Rightarrow> Some (Inl e) | Inr s \<Rightarrow> free_all_nodes s temp))
      else Some (Inr s))"

partial_function (option) searchNodeByAddr :: "old_state \<Rightarrow> string \<Rightarrow> ptr \<Rightarrow> ptr res option" where
  "searchNodeByAddr s addr temp =
     (if temp \<noteq> NULL then
        (case get_address s temp of
           Inl e \<Rightarrow> Some (Inl e)
         | Inr a \<Rightarrow>
             if a = addr then Some (Inr temp)
             else (case get_next s temp of
                 Inl e \<Rightarrow> Some (Inl e)
               | Inr nx \<Rightarrow> searchNodeByAddr s addr nx))
      else Some (Inr NULL))"

section \<open>The queue\<close>

definition old_free_task :: "ptr \<Rightarrow> (ptr \<Rightarrow> string option) \<Rightarrow> (ptr \<Rightarrow> string option)" where
  "old_free_task elem ts = ts(elem := None)"

definition old_queue_create :: old_queue where
  "old_queue_create = queue_create 0 Pair old_free_task"

definition old_queue_destroy :: "old_queue \<Rightarrow> (ptr \<Rightarrow> string option) \<Rightarrow> (ptr \<Rightarrow> string option) res" where
  "old_queue_destroy this ts = queue_destroy this ts"

definition old_queue_push :: "old_queue \<Rightarrow> ptr \<Rightarrow> old_queue res" where
  "old_queue_push this elem = link_node this elem"

definition old_queue_empty :: "old_queue \<Rightarrow> bool" where
  "old_queue_empty this \<longleftrightarrow> q_size this = 0"

definition old_queue_pull :: "old_queue \<Rightarrow> (ptr \<times> old_queue) res" where
  "old_queue_pull this = (if old_queue_empty this then Inr (NULL, this) else queue_pull this)"

interpretation old_queue: fifo queue_holds old_queue_push old_queue_pull
proof unfold_locales
  fix q :: old_queue and ds d
  show "queue_holds q ds \<Longrightarrow> \<exists>q'. old_queue_push q d = Inr q' \<and> queue_holds q' (ds @ [d])"
    unfolding old_queue_push_def by (rule queue.add)
next
  fix q :: old_queue and ds d
  assume h: "queue_holds q (d # ds)"
  then have "\<not> old_queue_empty q" using queue_holds_size[OF h] by (simp add: old_queue_empty_def)
  then show "\<exists>q'. old_queue_pull q = Inr (d, q') \<and> queue_holds q' ds"
    using queue.remove[OF h] by (simp add: old_queue_pull_def)
qed

section \<open>The scheduler\<close>

text \<open>Live nodes and full nodes are skipped by a \<^verbatim>\<open>continue\<close> that does not move to the next node, and the
  result is the cursor.\<close>

partial_function (option) least_loop ::
  "old_state \<Rightarrow> ptr \<Rightarrow> dbl \<Rightarrow> ptr \<Rightarrow> ptr res option" where
  "least_loop s cur least_load least_used =
     (if cur \<noteq> NULL then
        (case is_alive s cur of
           Inl e \<Rightarrow> Some (Inl e)
         | Inr a \<Rightarrow>
             if a \<noteq> 0 then least_loop s cur least_load least_used
             else (case get_num_of_task s cur of
                 Inl e \<Rightarrow> Some (Inl e)
               | Inr num \<Rightarrow>
                   if 5 \<le> num then least_loop s cur least_load least_used
                   else (case deref (o_nodes s) cur of
                       Inl e \<Rightarrow> Some (Inl e)
                     | Inr n \<Rightarrow>
                         (let load = n_load n + Num (of_int (num * 2)) in
                          if load < least_load then least_loop s (n_next n) load cur
                          else least_loop s (n_next n) least_load least_used))))
      else Some (Inr cur))"

definition get_least_used_worker :: "old_state \<Rightarrow> ptr \<Rightarrow> ptr res" where
  "get_least_used_worker s workers =
     bindr (or_fault Diverges (least_loop s workers (Num 1000) NULL)) (\<lambda>r. r)"

definition push_task :: "old_state \<Rightarrow> ptr \<Rightarrow> old_state res" where
  "push_task s work =
     bindr (or_fault Null_deref (o_queue s)) (\<lambda>q.
     bindr (old_queue_push q work) (\<lambda>q. Inr (s\<lparr>o_queue := Some q\<rparr>)))"

definition schedule_task :: "old_state \<Rightarrow> ptr \<Rightarrow> old_state res" where
  "schedule_task s work =
     push_task (if o_queue s = None then s\<lparr>o_queue := Some old_queue_create\<rparr> else s) work"

fun free_slot :: "ptr list \<Rightarrow> nat option" where
  "free_slot [] = None"
| "free_slot (t # ts) = (if t = NULL then Some 0 else map_option Suc (free_slot ts))"

definition distribute_task :: "old_state \<Rightarrow> ptr \<Rightarrow> ptr \<Rightarrow> (int \<times> old_state) res" where
  "distribute_task s workers work =
     bindr (get_least_used_worker s workers) (\<lambda>the_one.
     if the_one = NULL then bindr (push_task s work) (\<lambda>s. Inr (0, s))
     else bindr (deref (o_nodes s) the_one) (\<lambda>n.
       case free_slot (n_task_list n) of
         None \<Rightarrow> Inr (0, s)
       | Some i \<Rightarrow>
           (let s = s\<lparr>o_nodes := (o_nodes s)(the_one \<mapsto> n\<lparr>n_task_list := (n_task_list n)[i := work]\<rparr>)\<rparr> in
            bindr (get_num_of_task s the_one) (\<lambda>k.
            bindr (set_num_of_task s the_one (k + 1)) (\<lambda>s. Inr (1, s))))))"

partial_function (option) assign_loop :: "old_state \<Rightarrow> ptr \<Rightarrow> old_state res option" where
  "assign_loop s workers =
     (case or_fault Null_deref (o_queue s) of
        Inl e \<Rightarrow> Some (Inl e)
      | Inr q \<Rightarrow>
          if \<not> old_queue_empty q then
            (case old_queue_pull q of
               Inl e \<Rightarrow> Some (Inl e)
             | Inr (work, q) \<Rightarrow>
                 (case distribute_task (s\<lparr>o_queue := Some q\<rparr>) workers work of
                    Inl e \<Rightarrow> Some (Inl e)
                  | Inr (r, s) \<Rightarrow> if r = 0 then Some (Inr s) else assign_loop s workers))
          else Some (Inr s))"

definition get_task_from_queue_onto_nodes :: "old_state \<Rightarrow> ptr \<Rightarrow> old_state res" where
  "get_task_from_queue_onto_nodes s workers =
     bindr (or_fault Diverges (assign_loop s workers)) (\<lambda>r. r)"

text \<open>The first turn of the loop returns.\<close>

definition recover_tasks :: "old_state \<Rightarrow> ptr \<Rightarrow> old_state res" where
  "recover_tasks s worker =
     (if worker = NULL then Inr s
      else bindr (deref (o_nodes s) worker) (\<lambda>n. push_task s (n_task_list n ! 0)))"

definition remove_tasks :: "old_state \<Rightarrow> ptr \<Rightarrow> ptr \<Rightarrow> old_state res" where
  "remove_tasks s worker work =
     (if worker = NULL then Inr s
      else bindr (deref (o_nodes s) worker) (\<lambda>n.
        let i = length (takeWhile (\<lambda>t. t \<noteq> work) (n_task_list n)) in
        if i < length (n_task_list n)
        then Inr (s\<lparr>o_nodes := (o_nodes s)(worker \<mapsto> n\<lparr>n_task_list := (n_task_list n)[i := NULL]\<rparr>)\<rparr>)
        else Inr s))"

definition shutdown_scheduler :: "old_state \<Rightarrow> old_state res" where
  "shutdown_scheduler s =
     bindr (or_fault Null_deref (o_queue s)) (\<lambda>q.
     bindr (old_queue_destroy q (o_tasks s)) (\<lambda>ts. Inr (s\<lparr>o_tasks := ts, o_queue := None\<rparr>)))"

text \<open>One file from the interface; \<open>received\<close> is the result of \<^verbatim>\<open>getBinaryFile\<close>.\<close>

definition scheduler :: "string option \<Rightarrow> old_state \<Rightarrow> ptr \<Rightarrow> old_state res" where
  "scheduler received s workers =
     (case received of
        None \<Rightarrow> Inr s
      | Some file_name \<Rightarrow>
          (let to_do = o_fresh s;
               s = s\<lparr>o_fresh := to_do + 1, o_tasks := (o_tasks s)(to_do \<mapsto> file_name)\<rparr> in
           bindr (schedule_task s to_do) (\<lambda>s. get_task_from_queue_onto_nodes s workers)))"

section \<open>What the old scheduler does\<close>

text \<open>The search for a node either never ends or ends at the end of the list: its result is NULL.\<close>

lemma least_loop_NULL:
  assumes "least_loop s cur load best = Some (Inr p)"
  shows "p = NULL"
proof -
  have "x = Inr p \<longrightarrow> p = NULL" if "least_loop s cur load best = Some x" for x
  proof (rule least_loop.raw_induct[where P = "\<lambda>s cur load best x. x = Inr p \<longrightarrow> p = NULL", OF _ that])
    fix rec s cur load best x
    assume IH: "\<And>s cur load best y. rec s cur load best = Some y \<Longrightarrow> y = Inr p \<longrightarrow> p = NULL"
      and body: "(if cur \<noteq> NULL then
        (case is_alive s cur of
           Inl e \<Rightarrow> Some (Inl e)
         | Inr a \<Rightarrow>
             if a \<noteq> 0 then rec s cur load best
             else (case get_num_of_task s cur of
                 Inl e \<Rightarrow> Some (Inl e)
               | Inr num \<Rightarrow>
                   if 5 \<le> num then rec s cur load best
                   else (case deref (o_nodes s) cur of
                       Inl e \<Rightarrow> Some (Inl e)
                     | Inr n \<Rightarrow>
                         (let l = n_load n + Num (of_int (num * 2)) in
                          if l < load then rec s (n_next n) l cur
                          else rec s (n_next n) load best))))
      else Some (Inr cur)) = Some x"
    show "x = Inr p \<longrightarrow> p = NULL" using body
      by (auto simp: Let_def dest: IH split: if_splits sum.splits)
  qed
  then show ?thesis using assms by blast
qed

text \<open>A live node makes the search spin on the spot.\<close>

lemma least_loop_spins:
  assumes "o_nodes s cur = Some n" "cur \<noteq> NULL" "n_alive n \<noteq> 0" "\<not> o_mutex s"
  shows "least_loop s cur load best = None"
proof (rule ccontr)
  assume "least_loop s cur load best \<noteq> None"
  then obtain x where x: "least_loop s cur load best = Some x" by blast
  define stuck where "stuck s cur \<longleftrightarrow> (\<exists>n. o_nodes s cur = Some n \<and> n_alive n \<noteq> 0) \<and> cur \<noteq> NULL
    \<and> \<not> o_mutex s" for s :: old_state and cur
  have "\<not> stuck s cur"
  proof (rule least_loop.raw_induct[where P = "\<lambda>s cur load best x. \<not> stuck s cur", OF _ x])
    fix rec s cur load best x
    assume IH: "\<And>s cur load best y. rec s cur load best = Some y \<Longrightarrow> \<not> stuck s cur"
      and body: "(if cur \<noteq> NULL then
        (case is_alive s cur of
           Inl e \<Rightarrow> Some (Inl e)
         | Inr a \<Rightarrow>
             if a \<noteq> 0 then rec s cur load best
             else (case get_num_of_task s cur of
                 Inl e \<Rightarrow> Some (Inl e)
               | Inr num \<Rightarrow>
                   if 5 \<le> num then rec s cur load best
                   else (case deref (o_nodes s) cur of
                       Inl e \<Rightarrow> Some (Inl e)
                     | Inr n \<Rightarrow>
                         (let l = n_load n + Num (of_int (num * 2)) in
                          if l < load then rec s (n_next n) l cur
                          else rec s (n_next n) load best))))
      else Some (Inr cur)) = Some x"
    show "\<not> stuck s cur"
    proof
      assume st: "stuck s cur"
      then have "rec s cur load best = Some x"
        using body by (auto simp: stuck_def is_alive_def old_read_def)
      from IH[OF this] st show False by simp
    qed
  qed
  then show False using assms by (auto simp: stuck_def)
qed

text \<open>So no task is ever given to a node: it goes back to the end of the queue.\<close>

lemma push_task_appends:
  assumes "o_queue s = Some q" "queue_holds q ds"
  obtains q' where "push_task s t = Inr (s\<lparr>o_queue := Some q'\<rparr>)" "queue_holds q' (ds @ [t])"
proof -
  obtain q' where "old_queue_push q t = Inr q'" "queue_holds q' (ds @ [t])"
    using old_queue.add[OF assms(2)] by blast
  then show thesis using that assms(1) by (simp add: push_task_def)
qed

lemma distribute_task_requeues:
  assumes "distribute_task s workers t = Inr (r, s')" "o_queue s = Some q" "queue_holds q ds"
  obtains q' where "r = 0" "s' = s\<lparr>o_queue := Some q'\<rparr>" "queue_holds q' (ds @ [t])"
proof -
  obtain p where p: "get_least_used_worker s workers = Inr p"
    using assms(1) by (auto simp: distribute_task_def bindr_eq_Inr)
  then have "p = NULL" using least_loop_NULL
    by (auto simp: get_least_used_worker_def bindr_eq_Inr or_fault_Inr)
  moreover obtain q' where "push_task s t = Inr (s\<lparr>o_queue := Some q'\<rparr>)" "queue_holds q' (ds @ [t])"
    using push_task_appends[OF assms(2,3)] .
  ultimately show thesis using that[of q'] assms(1) p by (simp add: distribute_task_def)
qed

lemma assign_requeues:
  assumes "get_task_from_queue_onto_nodes s workers = Inr s'" "o_queue s = Some q" "queue_holds q ds"
  shows "o_nodes s' = o_nodes s \<and> o_mutex s' = o_mutex s
    \<and> (\<exists>q'. o_queue s' = Some q' \<and> queue_holds q' (rotate1 ds))"
proof (cases ds)
  case Nil
  then have "old_queue_empty q" using queue_holds_size[OF assms(3)] by (simp add: old_queue_empty_def)
  then have "s' = s" using assms(1,2)
    by (simp add: get_task_from_queue_onto_nodes_def assign_loop.simps)
  then show ?thesis using assms(2,3) Nil by auto
next
  case (Cons t ts)
  then have ne: "\<not> old_queue_empty q" using queue_holds_size[OF assms(3)] by (simp add: old_queue_empty_def)
  obtain q1 where q1: "old_queue_pull q = Inr (t, q1)" "queue_holds q1 ts"
    using old_queue.remove[of q t ts] assms(3) Cons by auto
  let ?s = "s\<lparr>o_queue := Some q1\<rparr>"
  obtain r s1 where d: "distribute_task ?s workers t = Inr (r, s1)"
    using assms(1,2) ne q1(1)
    by (cases "distribute_task ?s workers t")
      (auto simp: get_task_from_queue_onto_nodes_def assign_loop.simps)
  obtain q' where "r = 0" "s1 = ?s\<lparr>o_queue := Some q'\<rparr>" "queue_holds q' (ts @ [t])"
    using distribute_task_requeues[OF d _ q1(2)] by auto
  then show ?thesis using assms(1,2) ne q1(1) d Cons
    by (auto simp: get_task_from_queue_onto_nodes_def assign_loop.simps)
qed

text \<open>With a live node in front and a task in the queue, the scheduler does not return.\<close>

lemma assign_spins:
  assumes "o_queue s = Some q" "queue_holds q (t # ds)" "o_nodes s workers = Some n" "workers \<noteq> NULL"
    "n_alive n \<noteq> 0" "\<not> o_mutex s"
  shows "get_task_from_queue_onto_nodes s workers = Inl Diverges"
proof -
  have ne: "\<not> old_queue_empty q" using queue_holds_size[OF assms(2)] by (simp add: old_queue_empty_def)
  obtain q1 where q1: "old_queue_pull q = Inr (t, q1)" using old_queue.remove[OF assms(2)] by auto
  have "least_loop (s\<lparr>o_queue := Some q1\<rparr>) workers (Num 1000) NULL = None"
    using assms(3-6) by (intro least_loop_spins) auto
  then show ?thesis using assms(1) ne q1
    by (simp add: get_task_from_queue_onto_nodes_def assign_loop.simps distribute_task_def
        get_least_used_worker_def)
qed

text \<open>A second node cannot be added: the walk to the end of the list locks the mutex again.\<close>

lemma addNode_deadlocks: "\<not> o_mutex s \<Longrightarrow> first \<noteq> NULL \<Longrightarrow> addNode raw fd addr first s = Inl Deadlock"
  by (simp add: addNode_def Let_def last_node.simps get_next_def old_read_def)

end
