(* ===== verification/Old_Transfers.thy ===== *)
theory Old_Transfers
  imports Old_Cluster Interface_Turns
begin

text \<open>
  How \<^verbatim>\<open>src/deprecated\<close> moves files: the loops at the end of \<^verbatim>\<open>scheduler.c\<close>, \<^verbatim>\<open>getBinaryFile\<close> of its \<^verbatim>\<open>worker.c\<close>,
  \<^verbatim>\<open>sendBinaryFile\<close> of \<^verbatim>\<open>networkManager.c\<close> and \<^verbatim>\<open>sendBinaryFileP\<close> of its \<^verbatim>\<open>master.c\<close> (the same text), and the
  file loop of its \<^verbatim>\<open>interface.c\<close>. A file travels without its size; the end of the stream is its end.
\<close>

section \<open>Opening files\<close>

text \<open>\<^verbatim>\<open>open(name, O_CREAT | O_RDWR, ...)\<close>: without \<^verbatim>\<open>O_TRUNC\<close> the contents stay.\<close>

definition add_file_fd :: "osys \<Rightarrow> string \<Rightarrow> int \<times> osys" where
  "add_file_fd os f =
     (next_fd os, os\<lparr>fds := (fds os)(next_fd os \<mapsto> File f 0), incoming := (incoming os)(next_fd os := []),
        wplan := (wplan os)(next_fd os := []), next_fd := next_fd os + 1\<rparr>)"

definition getFdForWriteFile :: "osys \<Rightarrow> string \<Rightarrow> int \<times> osys" where
  "getFdForWriteFile os name =
     (if denied os name then (- 1, os)
      else add_file_fd (os\<lparr>disk := (disk os)(name \<mapsto> file_bytes os name)\<rparr>) name)"

definition getFdForReadFile :: "osys \<Rightarrow> string \<Rightarrow> int \<times> osys" where
  "getFdForReadFile os name = (if may_read os name then add_file_fd os name else (- 1, os))"

section \<open>\<^verbatim>\<open>scheduler.c\<close>\<close>

text \<open>A result of -1 comes with the error in \<^verbatim>\<open>errno\<close>, here \<open>Some e\<close>; otherwise the result is the number of
  bytes that were transferred.\<close>

function old_read_all_loop ::
  "osys \<Rightarrow> int \<Rightarrow> nat \<Rightarrow> char list \<Rightarrow> (errno option \<times> char list \<times> osys) res" where
  "old_read_all_loop os sock n buffer =
     (if n = 0 then Inr (None, buffer, os)
      else (case sys_read os sock n of
        (RBlock, _) \<Rightarrow> Inl Blocks
      | (RErr e, os') \<Rightarrow>
          if e = EINTR then old_read_all_loop os' sock n buffer else Inr (Some e, buffer, os')
      | (RData bs, os') \<Rightarrow>
          if bs = [] then Inr (None, buffer, os')
          else old_read_all_loop os' sock (n - length bs) (buffer @ bs)))"
  by pat_completeness auto
termination
  by (relation "measure (\<lambda>(os, fd, n, buffer). readable os fd)")
    (auto dest: sys_read_retry_progress[OF sym] sys_read_data_progress[OF sym])

declare old_read_all_loop.simps [simp del]

definition read_all_from_socket :: "osys \<Rightarrow> int \<Rightarrow> nat \<Rightarrow> (errno option \<times> char list \<times> osys) res" where
  "read_all_from_socket os sock n = old_read_all_loop os sock n []"

function old_write_all_loop :: "osys \<Rightarrow> int \<Rightarrow> char list \<Rightarrow> nat \<Rightarrow> (errno option \<times> nat \<times> osys)" where
  "old_write_all_loop os sock buffer total_write =
     (if buffer = [] then (None, total_write, os)
      else (case sys_write os sock buffer of
        (WErr e, os') \<Rightarrow>
          if e = EINTR then old_write_all_loop os' sock buffer total_write
          else (Some e, total_write, os')
      | (WCount k, os') \<Rightarrow>
          if k = 0 then (None, total_write, os')
          else old_write_all_loop os' sock (drop k buffer) (total_write + k)))"
  by pat_completeness auto
termination
  by (relation "measure (\<lambda>(os, sock, buffer, t). length (wplan os sock) + length buffer)")
    (auto dest!: sys_write_progress[OF sym] sys_write_count[OF sym])

declare old_write_all_loop.simps [simp del]

definition old_write_all_to_socket :: "osys \<Rightarrow> int \<Rightarrow> char list \<Rightarrow> errno option \<times> nat \<times> osys" where
  "old_write_all_to_socket os sock buffer = old_write_all_loop os sock buffer 0"

text \<open>What \<^verbatim>\<open>read_all_from_socket\<close> had read before it failed is forgotten; \<open>sz\<close> is negative when the
  whole stream is meant.\<close>

partial_function (option) old_copy_loop ::
  "osys \<Rightarrow> int \<Rightarrow> int \<Rightarrow> int \<Rightarrow> int \<Rightarrow> int \<Rightarrow> (int \<times> osys) res option" where
  "old_copy_loop os sock fd initial sz total_read =
     (if sz \<noteq> 0 then
        (if 4096 < sz \<or> initial = - 1 \<or> 0 < sz then
           (case read_all_from_socket os sock (if 4096 < sz \<or> initial = - 1 then 4096 else nat sz) of
              Inl e \<Rightarrow> Some (Inl e)
            | Inr (Some e, _, os) \<Rightarrow>
                if e = EINTR \<or> e = EAGAIN then old_copy_loop os sock fd initial sz total_read
                else Some (Inr (- 1, os))
            | Inr (None, buffer, os) \<Rightarrow>
                if buffer = [] then Some (Inr (total_read, os))
                else (let (failed, _, os) = old_write_all_to_socket os fd buffer in
                  if failed = Some EPIPE then Some (Inr (- 1, os))
                  else old_copy_loop os sock fd initial (sz - int (length buffer))
                    (total_read + int (length buffer))))
         else Some (Inl Out_of_bounds))
      else Some (Inr (total_read, os)))"

definition old_write_all_from_socket_to_fd :: "osys \<Rightarrow> int \<Rightarrow> int \<Rightarrow> int \<Rightarrow> (int \<times> osys) res" where
  "old_write_all_from_socket_to_fd os sock fd sz =
     bindr (or_fault Diverges (old_copy_loop os sock fd sz sz 0)) (\<lambda>r. r)"

section \<open>Whole files\<close>

text \<open>The write and the loop for the rest of it; nothing is retried. \<open>None\<close> is a failed write.\<close>

function write_rest :: "osys \<Rightarrow> int \<Rightarrow> char list \<Rightarrow> bool \<times> osys" where
  "write_rest os fd buf =
     (if buf = [] then (True, os)
      else (case sys_write os fd buf of
        (WErr e, os') \<Rightarrow> (False, os')
      | (WCount k, os') \<Rightarrow> write_rest os' fd (drop k buf)))"
  by pat_completeness auto
termination
  by (relation "measure (\<lambda>(os, fd, buf). length (wplan os fd) + length buf)")
    (auto dest!: sys_write_count[OF sym])

declare write_rest.simps [simp del]

text \<open>\<open>None\<close> is the NULL that is returned; only a failed write closes the file then.\<close>

partial_function (option) receive_file_loop ::
  "osys \<Rightarrow> int \<Rightarrow> int \<Rightarrow> (bool \<times> osys) res option" where
  "receive_file_loop os sock file =
     (case sys_read os sock 2048 of
        (RBlock, _) \<Rightarrow> Some (Inl Blocks)
      | (RErr e, os) \<Rightarrow> Some (Inr (False, os))
      | (RData buf, os) \<Rightarrow>
          if buf = [] then Some (Inr (True, sys_close os file))
          else (let (written, os) = write_rest os file buf in
            if written then receive_file_loop (snd (sys_write os sock [])) sock file
            else Some (Inr (False, sys_close os file))))"

definition getBinaryFile :: "osys \<Rightarrow> int \<Rightarrow> string \<Rightarrow> (string option \<times> osys) res" where
  "getBinaryFile os sock name =
     (let (file, os) = getFdForWriteFile os name in
      if file = - 1 then Inr (None, os)
      else bindr (bindr (or_fault Diverges (receive_file_loop os sock file)) (\<lambda>r. r)) (\<lambda>(whole, os).
        Inr (if whole then Some name else None, os)))"

text \<open>Success and failure have the same result.\<close>

partial_function (option) send_file_loop :: "osys \<Rightarrow> int \<Rightarrow> int \<Rightarrow> osys res option" where
  "send_file_loop os sock file =
     (case sys_read os file 2048 of
        (RBlock, _) \<Rightarrow> Some (Inl Blocks)
      | (RErr e, os) \<Rightarrow> Some (Inr os)
      | (RData buf, os) \<Rightarrow>
          if buf = [] then Some (Inr (sys_close os file))
          else (let (written, os) = write_rest os sock buf in
            if written then send_file_loop (snd (sys_read os sock 0)) sock file
            else Some (Inr (sys_close os file))))"

definition sendBinaryFile :: "osys \<Rightarrow> int \<Rightarrow> string \<Rightarrow> (int \<times> osys) res" where
  "sendBinaryFile os sock name =
     (let (file, os) = getFdForReadFile os name in
      if file = - 1 then Inr (- 1, os)
      else bindr (bindr (or_fault Diverges (send_file_loop os sock file)) (\<lambda>r. r)) (\<lambda>os. Inr (0, os)))"

definition sendBinaryFileP :: "osys \<Rightarrow> int \<Rightarrow> string \<Rightarrow> (int \<times> osys) res" where
  "sendBinaryFileP os sock name =
     (let (file, os) = getFdForReadFile os name in
      if file = - 1 then Inr (- 1, os)
      else bindr (bindr (or_fault Diverges (send_file_loop os sock file)) (\<lambda>r. r)) (\<lambda>os. Inr (0, os)))"

text \<open>The dummy transfers.\<close>

definition resetPipeServer :: "osys \<Rightarrow> int \<Rightarrow> osys" where
  "resetPipeServer os sock = snd (sys_write (snd (sys_read os sock 0)) sock [])"

definition resetPipeClient :: "osys \<Rightarrow> int \<Rightarrow> osys" where
  "resetPipeClient os sock = snd (sys_read (snd (sys_write os sock [])) sock 0)"


section \<open>A file that travels\<close>

text \<open>What arrives ends without a failure.\<close>

definition ends :: "arrival list \<Rightarrow> bool" where
  "ends es \<longleftrightarrow> (\<forall>e. Fail e \<notin> set es) \<and> Eof \<in> set es"

abbreviation (input) never :: "errno \<Rightarrow> bool" where "never \<equiv> \<lambda>_. False"

lemma take_arrival_ends:
  assumes "take_arrival nb n es = (r, es')" "0 < n" "ends es"
  obtains bs where "r = RData bs" "stream never es = bs @ stream never es'" "ends es'"
    "bs = [] \<Longrightarrow> stream never es = []" "bs \<noteq> [] \<Longrightarrow> arrivals_size es' < arrivals_size es"
proof -
  have "\<exists>bs. r = RData bs \<and> stream never es = bs @ stream never es' \<and> ends es'
      \<and> (bs = [] \<longrightarrow> stream never es = [])"
    using assms
  proof (induction nb n es rule: take_arrival.induct)
    case (2 nb n bs es)
    then show ?case
      by (cases "bs = []") (auto simp: ends_def append_take_drop_id[symmetric] split: if_splits)
  qed (auto simp: ends_def)
  then show thesis using that take_arrival_data[of nb n es _ es'] assms(1) by blast
qed

lemma write_rest_all:
  "fds os fd \<noteq> None \<Longrightarrow> offset_ok os fd \<Longrightarrow> willing never (wplan os fd) \<Longrightarrow>
    \<exists>ps. write_rest os fd bs = (True, accept_bytes (set_wplan os fd ps) fd bs) \<and> willing never ps"
proof (induction os fd bs rule: write_rest.induct)
  case (1 os fd bs)
  show ?case
  proof (cases "bs = []")
    case True
    then show ?thesis using "1.prems"
      by (intro exI[of _ "wplan os fd"]) (simp add: write_rest.simps set_wplan_same)
  next
    case False
    obtain r os' where w: "sys_write os fd bs = (r, os')" by fastforce
    from w "1.prems"(1) show ?thesis
    proof (cases rule: sys_write_cases)
      case (refused e ps)
      then show ?thesis using "1.prems"(3) by simp
    next
      case (counted n ps)
      have ps: "willing never ps" using counted(4)[OF "1.prems"(3)] by simp
      then have "\<exists>qs. write_rest os' fd (drop n bs)
          = (True, accept_bytes (set_wplan os' fd qs) fd (drop n bs)) \<and> willing never qs"
        using "1.prems" counted
        by (intro "1.IH"[OF False w[symmetric] counted(1)]) (auto simp: offset_ok_accept)
      then show ?thesis using w counted False
        by (subst write_rest.simps) (auto simp: accept_bytes_set_wplan accept_bytes_append)
    qed
  qed
qed

lemma sys_write_nothing:
  assumes "sys_write os fd [] = (q, os')" "fds os fd = Some (Sock nb)"
  shows "fds os' = fds os" "incoming os' = incoming os" "disk os' = disk os"
    "fd \<noteq> fd' \<Longrightarrow> wplan os' fd' = wplan os fd'"
  using assms
  by (auto simp: sys_write_def Let_def accept_bytes_def set_wplan_def split: list.splits acceptance.splits)

lemma receive_file_stores:
  assumes "fds os sock = Some (Sock nb)" "ends (incoming os sock)" "fds os file = Some (File f off)"
    "disk os f = Some c" "off \<le> length c" "willing never (wplan os file)"
  shows "\<exists>os'. receive_file_loop os sock file = Some (Inr (True, os'))
    \<and> disk os' f = Some (overwrite c off (stream never (incoming os sock)))"
  using assms
proof (induction "arrivals_size (incoming os sock)" arbitrary: os off c rule: less_induct)
  case less
  obtain r es where t: "take_arrival nb 2048 (incoming os sock) = (r, es)" by fastforce
  then obtain bs where bs: "r = RData bs" "stream never (incoming os sock) = bs @ stream never es"
    "ends es" "bs = [] \<Longrightarrow> stream never (incoming os sock) = []"
    "bs \<noteq> [] \<Longrightarrow> arrivals_size es < arrivals_size (incoming os sock)"
    using take_arrival_ends[OF t _ less.prems(2)] by auto
  let ?os1 = "set_incoming os sock es"
  have rd: "sys_read os sock 2048 = (RData bs, ?os1)"
    using t bs(1) less.prems(1) by (simp add: sys_read_def)
  have neq: "sock \<noteq> file" using less.prems(1,3) by auto
  show ?case
  proof (cases "bs = []")
    case True
    then show ?thesis using rd bs(4) less.prems(4,5)
      by (simp add: receive_file_loop.simps[of os] sys_close_def)
  next
    case False
    have "offset_ok ?os1 file" "fds ?os1 file \<noteq> None" "willing never (wplan ?os1 file)"
      using less.prems by (auto simp: offset_ok_def)
    from write_rest_all[OF this(2,1,3)] obtain ps where
      w: "write_rest ?os1 file bs = (True, accept_bytes (set_wplan ?os1 file ps) file bs)"
        "willing never ps" by blast
    let ?os2 = "accept_bytes (set_wplan ?os1 file ps) file bs"
    obtain q os3 where q: "sys_write ?os2 sock [] = (q, os3)" by fastforce
    have s2: "fds ?os2 sock = Some (Sock nb)" "incoming ?os2 sock = es"
      "fds ?os2 file = Some (File f (off + length bs))" "disk ?os2 f = Some (overwrite c off bs)"
      using less.prems neq by (auto simp: accept_bytes_def file_bytes_def)
    have s3: "fds os3 = fds ?os2" "incoming os3 = incoming ?os2" "disk os3 = disk ?os2"
      "wplan os3 file = wplan ?os2 file"
      using sys_write_nothing[OF q s2(1)] neq by simp_all
    have "\<exists>os'. receive_file_loop os3 sock file = Some (Inr (True, os'))
      \<and> disk os' f = Some (overwrite (overwrite c off bs) (off + length bs) (stream never (incoming os3 sock)))"
      using s2 s3 bs(3,5) False w(2) less.prems(5)
      by (intro less.hyps) (auto simp: length_overwrite)
    then show ?thesis using rd w(1) q False bs(2) s2(2) s3(2)
      by (simp add: receive_file_loop.simps[of os] overwrite_append)
  qed
qed

lemma getBinaryFile_stores:
  assumes "fds os sock = Some (Sock nb)" "ends (incoming os sock)" "\<not> denied os name"
    "next_fd os \<noteq> - 1" "sock \<noteq> next_fd os"
  shows "\<exists>os'. getBinaryFile os sock name = Inr (Some name, os')
    \<and> disk os' name = Some (overwrite (file_bytes os name) 0 (stream never (incoming os sock)))"
proof -
  obtain os1 where fd: "getFdForWriteFile os name = (next_fd os, os1)"
    using assms(3) by (simp add: getFdForWriteFile_def add_file_fd_def)
  then have os1: "os1 = snd (getFdForWriteFile os name)" by simp
  have "\<exists>os'. receive_file_loop os1 sock (next_fd os) = Some (Inr (True, os'))
    \<and> disk os' name = Some (overwrite (file_bytes os name) 0 (stream never (incoming os1 sock)))"
    by (rule receive_file_stores) (use assms in \<open>auto simp: os1 getFdForWriteFile_def add_file_fd_def\<close>)
  moreover have "incoming os1 sock = incoming os sock"
    using assms(3,5) by (simp add: os1 getFdForWriteFile_def add_file_fd_def)
  ultimately show ?thesis using fd assms(4) by (auto simp: getBinaryFile_def)
qed

lemma send_file_sends:
  assumes "fds os sock = Some (Sock nb)" "willing never (wplan os sock)"
    "fds os file = Some (File f off)" "incoming os file = []" "disk os f = Some c"
  shows "\<exists>os'. send_file_loop os sock file = Some (Inr os') \<and> sent os' sock = sent os sock @ drop off c"
  using assms
proof (induction "length c - off" arbitrary: os off rule: less_induct)
  case less
  have neq: "sock \<noteq> file" using less.prems(1,3) by auto
  let ?bs = "take 2048 (drop off c)"
  let ?os1 = "os\<lparr>fds := (fds os)(file \<mapsto> File f (off + length ?bs))\<rparr>"
  have rd: "sys_read os file 2048 = (RData ?bs, ?os1)"
    using less.prems(3-5) by (simp add: sys_read_def file_bytes_def Let_def)
  show ?case
  proof (cases "?bs = []")
    case True
    then have "drop off c = []" by simp
    then show ?thesis using rd by (simp add: send_file_loop.simps[of os] sys_close_def)
  next
    case False
    then have off: "off < length c" by simp
    have "fds ?os1 sock \<noteq> None" "offset_ok ?os1 sock" "willing never (wplan ?os1 sock)"
      using less.prems(1,2) neq by (auto simp: offset_ok_def)
    from write_rest_all[OF this] obtain ps where
      w: "write_rest ?os1 sock ?bs = (True, accept_bytes (set_wplan ?os1 sock ps) sock ?bs)"
        "willing never ps" by blast
    let ?os2 = "accept_bytes (set_wplan ?os1 sock ps) sock ?bs"
    have s1: "fds ?os1 sock = Some (Sock nb)" using less.prems(1) neq by simp
    have dummy: "sys_read ?os2 sock 0 = (RData [], ?os2)"
      using s1 by (simp add: sys_read_def accept_bytes_sock)
    have s2: "fds ?os2 = fds ?os1" "incoming ?os2 = incoming os" "disk ?os2 = disk os"
      "wplan ?os2 sock = ps" "sent ?os2 sock = sent os sock @ ?bs"
      using s1 by (simp_all add: accept_bytes_sock)
    have "\<exists>os'. send_file_loop ?os2 sock file = Some (Inr os')
      \<and> sent os' sock = sent ?os2 sock @ drop (off + length ?bs) c"
      by (rule less.hyps) (use s1 s2 w(2) less.prems off neq in auto)
    moreover have "?bs @ drop (off + length ?bs) c = drop off c"
      by (metis append_take_drop_id drop_drop add.commute length_take min_def drop_eq_Nil2 append_Nil2 linear take_all)
    ultimately show ?thesis using rd False w(1) dummy s2(5)
      by (simp add: send_file_loop.simps[of os])
  qed
qed

lemma sendBinaryFile_sends:
  assumes "fds os sock = Some (Sock nb)" "willing never (wplan os sock)" "disk os name = Some body"
    "\<not> denied os name" "next_fd os \<noteq> - 1" "sock \<noteq> next_fd os"
  shows "\<exists>os'. sendBinaryFile os sock name = Inr (0, os') \<and> sent os' sock = sent os sock @ body"
proof -
  obtain os1 where fd: "getFdForReadFile os name = (next_fd os, os1)"
    using assms(3,4) by (simp add: getFdForReadFile_def add_file_fd_def may_read_def)
  then have os1: "os1 = snd (getFdForReadFile os name)" by simp
  have "\<exists>os'. send_file_loop os1 sock (next_fd os) = Some (Inr os')
    \<and> sent os' sock = sent os1 sock @ drop 0 body"
    by (rule send_file_sends) (use assms in \<open>auto simp: os1 getFdForReadFile_def add_file_fd_def may_read_def\<close>)
  moreover have "sent os1 = sent os"
    using fd by (auto simp: getFdForReadFile_def add_file_fd_def split: if_splits)
  ultimately show ?thesis using fd assms(5) by (auto simp: sendBinaryFile_def)
qed

end
