(* ===== verification/Old_Tasks.thy ===== *)
theory Old_Tasks
  imports Old_Transfers
begin

unbundle bit_operations_syntax

text \<open>
  \<^verbatim>\<open>taskManager.c\<close> of \<^verbatim>\<open>src/deprecated\<close>: the messages of the old cluster (one byte of type, a text, a null byte),
  the handlers that take a connection through an exchange a few bytes at a time, and the two dispatchers.
  Each \<^verbatim>\<open>case\<close> of a handler is a definition that returns from the handler or falls through to the next.
\<close>

section \<open>Messages\<close>

abbreviation (input) READY :: string where "READY \<equiv> ''Ready for work.''"
abbreviation (input) RECEIVEME :: string where "RECEIVEME \<equiv> ''Do you receive me?''"
abbreviation (input) RECEIVED :: string where "RECEIVED \<equiv> ''Yes, I received you.''"
abbreviation (input) iBool :: char where "iBool \<equiv> CHR 0x09"
abbreviation (input) iData :: char where "iData \<equiv> CHR 0x21"
abbreviation (input) iStatus :: char where "iStatus \<equiv> CHR 0x41"

text \<open>The loop of \<^verbatim>\<open>getMessageType\<close>: \<open>t\<close> counts down, the byte is shifted up.\<close>

fun message_type_loop :: "nat \<Rightarrow> 8 word \<Rightarrow> int" where
  "message_type_loop 0 headerByte = 0"
| "message_type_loop (Suc k) headerByte =
     (if headerByte AND 0x80 = 0x80 then
        (if drop_bit (7 - Suc k) headerByte AND 0x01 = 0x01 then int (Suc k) else - 1)
      else message_type_loop k (push_bit 1 headerByte))"

definition getMessageType :: "8 word \<Rightarrow> int" where
  "getMessageType headerByte = message_type_loop 7 headerByte"

section \<open>Reading and writing some bytes\<close>

text \<open>Sizes are \<^verbatim>\<open>int\<close>; a negative one means a transfer outside the buffer.\<close>

definition readSocketIntoBuf :: "osys \<Rightarrow> int \<Rightarrow> int \<Rightarrow> (int \<times> char list \<times> osys) res" where
  "readSocketIntoBuf os sock n =
     (if n < 0 then Inl Out_of_bounds
      else case sys_read os sock (nat n) of
        (RBlock, os) \<Rightarrow> Inl Blocks
      | (RErr e, os) \<Rightarrow> Inr (if e = EAGAIN then 0 else - 1, [], os)
      | (RData bs, os) \<Rightarrow> Inr (int (length bs), bs, os))"

definition writeBufIntoSocket :: "osys \<Rightarrow> int \<Rightarrow> char list \<Rightarrow> int \<Rightarrow> (int \<times> osys) res" where
  "writeBufIntoSocket os sock buf n =
     (if n < 0 \<or> int (length buf) < n then Inl Out_of_bounds
      else case sys_write os sock (take (nat n) buf) of
        (WErr e, os) \<Rightarrow> Inr (if e = EAGAIN then 0 else - 1, os)
      | (WCount k, os) \<Rightarrow> Inr (int k, os))"

definition store :: "nat \<Rightarrow> char list \<Rightarrow> char list \<Rightarrow> char list" where
  "store pos bs buf = take pos buf @ bs @ drop (pos + length bs) buf"

definition resetHelper :: "old_node \<Rightarrow> old_node" where
  "resetHelper task = task\<lparr>n_taskPos := n_taskPos task + 1, n_bufPos := 0, n_bufWIP := 0\<rparr>"

definition updateBuf :: "old_node \<Rightarrow> int \<Rightarrow> int \<times> old_node" where
  "updateBuf task bytes =
     (if bytes = - 1 then (- 1, task) else (1, task\<lparr>n_bufPos := n_bufPos task + nat bytes\<rparr>))"

definition taskDone :: "old_node \<Rightarrow> old_node" where
  "taskDone task = task\<lparr>n_bufPos := 0, n_taskPos := 0, n_taskNo := 5\<rparr>"

text \<open>The buffer is cleared and gets the type and the text.\<close>

definition initateTaskBuf :: "old_node \<Rightarrow> char \<Rightarrow> string \<Rightarrow> old_node res" where
  "initateTaskBuf task info message =
     (if n_bufSize task < length message + 2 then Inl Out_of_bounds
      else Inr (task\<lparr>n_buf := info # message @ replicate (n_bufSize task - (length message + 1)) NUL\<rparr>))"

type_synonym handled_case = "(int option \<times> osys \<times> old_node) res"

definition fall_through ::
  "handled_case \<Rightarrow> (osys \<Rightarrow> old_node \<Rightarrow> (int \<times> osys \<times> old_node) res) \<Rightarrow> (int \<times> osys \<times> old_node) res" where
  "fall_through c rest = bindr c (\<lambda>(r, os, task).
     case r of Some v \<Rightarrow> Inr (v, os, task) | None \<Rightarrow> rest os task)"

text \<open>A case that waits for a message: it goes on when the bytes of this call complete it.\<close>

definition read_case :: "string \<Rightarrow> osys \<Rightarrow> old_node \<Rightarrow> handled_case" where
  "read_case lit os task =
     bindr (readSocketIntoBuf os (n_socket_fd task) (int (n_bufSize task) - int (n_bufPos task)))
       (\<lambda>(bytesRead, bs, os).
         let task = task\<lparr>n_buf := store (n_bufPos task) bs (n_buf task)\<rparr> in
         if bytesRead \<noteq> int (length lit) + 2 - int (n_bufPos task) then
           (let (r, task) = updateBuf task bytesRead in Inr (Some r, os, task))
         else if take (length lit + 1) (drop 1 (n_buf task)) \<noteq> lit @ [NUL] then Inr (Some (- 1), os, task)
         else Inr (None, os, resetHelper task))"

text \<open>A case that sends one.\<close>

definition write_case :: "char \<Rightarrow> string \<Rightarrow> osys \<Rightarrow> old_node \<Rightarrow> handled_case" where
  "write_case info lit os task =
     bindr (initateTaskBuf task info lit) (\<lambda>task.
     bindr (writeBufIntoSocket os (n_socket_fd task) (drop (n_bufPos task) (n_buf task))
         (int (length lit) + 2 - int (n_bufPos task))) (\<lambda>(bytesWrote, os).
       if bytesWrote \<noteq> int (length lit) + 2 - int (n_bufPos task) then
         (let (r, task) = updateBuf task bytesWrote in Inr (Some r, os, task))
       else Inr (None, os, resetHelper task)))"

section \<open>The handshake\<close>

definition one_case_2 :: "osys \<Rightarrow> old_node \<Rightarrow> (int \<times> osys \<times> old_node) res" where
  "one_case_2 os task = fall_through (read_case READY os task) (\<lambda>os task. Inr (0, os, taskDone task))"

definition one_case_1 :: "osys \<Rightarrow> old_node \<Rightarrow> (int \<times> osys \<times> old_node) res" where
  "one_case_1 os task = fall_through (write_case iBool RECEIVED os task) one_case_2"

definition handleTaskOne :: "osys \<Rightarrow> old_node \<Rightarrow> (int \<times> osys \<times> old_node) res" where
  "handleTaskOne os task =
     (if n_taskPos task = 0 then fall_through (read_case RECEIVEME os task) one_case_1
      else if n_taskPos task = 1 then one_case_1 os task
      else if n_taskPos task = 2 then one_case_2 os task
      else Inr (0, os, task))"

definition zero_case_2 :: "osys \<Rightarrow> old_node \<Rightarrow> (int \<times> osys \<times> old_node) res" where
  "zero_case_2 os task = fall_through (write_case iStatus READY os task)
     (\<lambda>os task. Inr (0, os, task\<lparr>n_taskNo := 4\<rparr>))"

definition zero_case_1 :: "osys \<Rightarrow> old_node \<Rightarrow> (int \<times> osys \<times> old_node) res" where
  "zero_case_1 os task = fall_through (read_case RECEIVED os task) zero_case_2"

definition handleTaskZeroWorker :: "osys \<Rightarrow> old_node \<Rightarrow> (int \<times> osys \<times> old_node) res" where
  "handleTaskZeroWorker os task =
     (if n_taskPos task = 0 then fall_through (write_case iBool RECEIVEME os task) zero_case_1
      else if n_taskPos task = 1 then zero_case_1 os task
      else if n_taskPos task = 2 then zero_case_2 os task
      else Inr (0, os, task))"

section \<open>A file\<close>

text \<open>The master: \<^verbatim>\<open>case 0\<close> sends the name and the first piece, then a null byte and a piece in each
  call. What a short write leaves is not sent again.\<close>

definition three_case_0 :: "osys \<Rightarrow> old_node \<Rightarrow> handled_case" where
  "three_case_0 os task =
     bindr (or_fault Out_of_bounds (n_tmpTask task)) (\<lambda>t.
     bindr (initateTaskBuf task iData (if n_bufWIP task = 0 then t_file_name t else [])) (\<lambda>task.
       let (stream_fd, os) = (if n_bufWIP task = 0 then getFdForReadFile os (t_file_name t) else (t_file_stream t, os));
           task1 = task\<lparr>n_tmpTask := Some (t\<lparr>t_file_stream := stream_fd\<rparr>)\<rparr> in
       if n_bufWIP task = 0 \<and> stream_fd = - 1 then Inr (Some (- 1), os, task1)
       else
         (let task2 = task1\<lparr>n_bufWIP := 1\<rparr>; startPos = length (cstr (n_buf task2)) + 1 in
          case sys_read os stream_fd (n_bufSize task2 - startPos) of
            (RBlock, os) \<Rightarrow> Inl Blocks
          | (RErr e, os) \<Rightarrow> Inr (Some (- 1), os, task2)
          | (RData bs, os) \<Rightarrow>
              (let task3 = task2\<lparr>n_buf := store startPos bs (n_buf task2)\<rparr> in
               if bs = [] then Inr (None, os, resetHelper task3)
               else bindr (writeBufIntoSocket os (n_socket_fd task3) (drop 1 (n_buf task3))
                   (int (length bs) + int startPos - 1)) (\<lambda>(bytesWrote, os).
                 let (r, task4) = updateBuf task3 bytesWrote in Inr (Some r, os, task4))))))"

definition handleTaskThree :: "osys \<Rightarrow> old_node \<Rightarrow> (int \<times> osys \<times> old_node) res" where
  "handleTaskThree os task =
     (if n_taskPos task = 0 then fall_through (three_case_0 os task) one_case_2
      else if n_taskPos task = 1 then one_case_2 os task
      else Inr (0, os, task))"

text \<open>The worker: the name goes into an array of the function itself. Everything up to the end of what
  has arrived belongs to the file.\<close>

definition three_worker_case_0 :: "osys \<Rightarrow> old_node \<Rightarrow> handled_case" where
  "three_worker_case_0 os task =
     (if n_bufWIP task \<noteq> 0 then Inr (None, os, task)
      else bindr (readSocketIntoBuf os (n_socket_fd task) (int (n_bufSize task) - int (n_bufPos task)))
        (\<lambda>(bytesRead, bs, os).
          let task1 = task\<lparr>n_buf := store (n_bufPos task) bs (n_buf task)\<rparr> in
          bindr (c_string (drop 1 (n_buf task1))) (\<lambda>rest.
          let nameLen = length rest in
          if nameLen \<le> 1 then Inr (Some (- 1), os, task1)
          else bindr (c_string (n_buf task1)) (\<lambda>name.
            if 1024 < length name + 1 then Inl Out_of_bounds
            else
              (let (fp, os) = getFdForWriteFile os name;
                   task2 = task1\<lparr>n_fileName := Dead_array, n_tmpFP := fp, n_bufPos := nat bytesRead,
                             n_taskPos := 1, n_bufWIP := 1\<rparr> in
               if bytesRead - 2 - int nameLen < 0 then Inl Out_of_bounds
               else Inr (None, snd (sys_write os fp
                 (take (nat (bytesRead - 2 - int nameLen)) (drop (nameLen + 2) (n_buf task2)))), task2))))))"

definition three_worker_case_1 :: "osys \<Rightarrow> old_node \<Rightarrow> handled_case" where
  "three_worker_case_1 os task =
     bindr (readSocketIntoBuf os (n_socket_fd task) (int (n_bufSize task))) (\<lambda>(bytesRead, bs, os).
       let task = task\<lparr>n_bufPos := 0, n_buf := store 0 bs (n_buf task)\<rparr> in
       if bytesRead = - 1 then Inl Out_of_bounds
       else if bytesRead \<noteq> 0 then
         Inr (Some 1, snd (sys_write os (n_tmpFP task) (take (nat (bytesRead - 1)) (drop 1 (n_buf task)))), task)
       else Inr (None, os, resetHelper task))"

definition handleTaskThreeWorker :: "osys \<Rightarrow> old_node \<Rightarrow> (int \<times> osys \<times> old_node) res" where
  "handleTaskThreeWorker os task =
     (let case_1 = (\<lambda>os task. fall_through (three_worker_case_1 os task) zero_case_2) in
      if n_taskPos task = 0 then fall_through (three_worker_case_0 os task) case_1
      else if n_taskPos task = 1 then case_1 os task
      else if n_taskPos task = 2 then zero_case_2 os task
      else Inr (0, os, task))"

section \<open>The dispatchers\<close>

text \<open>The handlers for the other numbers return 0 and do nothing. A node without a task is given the
  same file every time.\<close>

definition manage_node :: "osys \<Rightarrow> old_node \<Rightarrow> (osys \<times> old_node) res" where
  "manage_node os tmp =
     (if n_taskNo tmp = 0 then
        Inr (os, tmp\<lparr>n_taskNo := 3, n_taskPos := 0,
          n_tmpTask := Some \<lparr>t_file_name = ''./testFiles/test1.txt'', t_file_stream = 0\<rparr>\<rparr>)
      else if n_taskNo tmp = 1 then bindr (handleTaskOne os tmp) (\<lambda>(_, os, tmp). Inr (os, tmp))
      else if n_taskNo tmp = 3 then bindr (handleTaskThree os tmp) (\<lambda>(_, os, tmp). Inr (os, tmp))
      else Inr (os, tmp))"

partial_function (option) manageTaskMaster :: "osys \<Rightarrow> old_state \<Rightarrow> ptr \<Rightarrow> (osys \<times> old_state) res option" where
  "manageTaskMaster os s tmp =
     (if tmp = NULL then Some (Inr (os, s))
      else case deref (o_nodes s) tmp of
        Inl e \<Rightarrow> Some (Inl e)
      | Inr n \<Rightarrow> (case manage_node os n of
          Inl e \<Rightarrow> Some (Inl e)
        | Inr (os, n) \<Rightarrow> manageTaskMaster os (s\<lparr>o_nodes := (o_nodes s)(tmp \<mapsto> n)\<rparr>) (n_next n)))"

text \<open>The program is run by the name in \<open>fileName\<close>; what \<^verbatim>\<open>execlp\<close> does is not modelled.\<close>

definition runBinaryFileT :: "name_buffer \<Rightarrow> unit res" where
  "runBinaryFileT name = (case name of
     No_name \<Rightarrow> Inl (Exits 0) | Dead_array \<Rightarrow> Inl Out_of_bounds | Own_buffer \<Rightarrow> Inr ())"

definition manageTaskWorker :: "osys \<Rightarrow> old_node \<Rightarrow> (osys \<times> old_node) res" where
  "manageTaskWorker os task =
     (if n_taskNo task = 0 then
        bindr (handleTaskThreeWorker os task) (\<lambda>(checkVal, os, task).
          if checkVal = 0 then bindr (runBinaryFileT (n_fileName task)) (\<lambda>_. Inr (os, task))
          else Inr (os, task))
      else if n_taskNo task = 3 then
        bindr (handleTaskThreeWorker os task) (\<lambda>(_, os, task). Inr (os, task))
      else Inr (os, task))"

end
