(* ===== verification/Old_Handshake.thy ===== *)
theory Old_Handshake
  imports Old_Tasks "HOL-Library.Sublist"
begin

text \<open>
  The handshake of the old cluster: \<^verbatim>\<open>handleTaskOne\<close> of the master and \<^verbatim>\<open>handleTaskZeroWorker\<close> of the worker on
  the two ends of a connection, for every interleaving of their calls, every division of the messages
  by the network, and every error of a read or a write. The dispatchers of \<open>Old_Tasks\<close> as they are reach
  neither handler.
\<close>

section \<open>One case of a handler\<close>

text \<open>A message on the wire, and all bytes that are there to be read.\<close>

definition wire :: "char \<Rightarrow> string \<Rightarrow> char list" where
  "wire info lit = info # lit @ [NUL]"

fun on_the_way :: "arrival list \<Rightarrow> char list" where
  "on_the_way [] = []"
| "on_the_way (Chunk bs # es) = bs @ on_the_way es"
| "on_the_way (_ # es) = on_the_way es"

lemma length_wire [simp]: "length (wire info lit) = length lit + 2"
  by (simp add: wire_def)

lemma on_the_way_append [simp]: "on_the_way (es @ fs) = on_the_way es @ on_the_way fs"
  by (induction es rule: on_the_way.induct) auto

lemma take_arrival_pending:
  "take_arrival nb n es = (r, es') \<Longrightarrow>
    (\<exists>bs. r = RData bs \<and> on_the_way es = bs @ on_the_way es') \<or> (\<exists>e. r = RErr e) \<and> on_the_way es = on_the_way es'
    \<or> r = RBlock \<and> \<not> nb"
  by (induction nb n es rule: take_arrival.induct) (auto split: if_splits)

definition node_ok :: "osys \<Rightarrow> old_node \<Rightarrow> bool" where
  "node_ok os task \<longleftrightarrow> fds os (n_socket_fd task) = Some (Sock True)
     \<and> length (n_buf task) = n_bufSize task \<and> 4096 \<le> n_bufSize task"

lemma readSocketIntoBuf_pending:
  assumes "fds os fd = Some (Sock True)" "0 \<le> n"
  obtains bs es r where "readSocketIntoBuf os fd n = Inr (r, bs, set_incoming os fd es)"
    "on_the_way (incoming os fd) = bs @ on_the_way es" "r = int (length bs) \<or> r = - 1 \<and> bs = []"
proof -
  obtain q es where t: "take_arrival True (nat n) (incoming os fd) = (q, es)" by fastforce
  show thesis
  proof (cases "n = 0")
    case True
    then show thesis using assms that[of 0 "[]" "incoming os fd"]
      by (simp add: readSocketIntoBuf_def sys_read_def set_incoming_same)
  next
    case False
    then have rd: "sys_read os fd (nat n) = (q, set_incoming os fd es)"
      using assms t by (simp add: sys_read_def)
    from take_arrival_pending[OF t] consider
      bs where "q = RData bs" "on_the_way (incoming os fd) = bs @ on_the_way es"
      | e where "q = RErr e" "on_the_way (incoming os fd) = on_the_way es" by blast
    then show thesis
    proof cases
      case (1 bs)
      then show thesis using that[of "int (length bs)" bs es] rd assms(2) by (simp add: readSocketIntoBuf_def)
    next
      case (2 e)
      then show thesis using that[of "if e = EAGAIN then 0 else - 1" "[]" es] rd assms(2)
        by (auto simp: readSocketIntoBuf_def)
    qed
  qed
qed

lemma take_store: "p \<le> length buf \<Longrightarrow> take (p + length bs) (store p bs buf) = take p buf @ bs"
  by (simp add: store_def)

lemma length_store: "p + length bs \<le> length buf \<Longrightarrow> length (store p bs buf) = length buf"
  by (simp add: store_def)

text \<open>Waiting for a message of which \<open>n_bufPos\<close> bytes are there, when nothing comes behind it.\<close>

lemma read_case_step:
  fixes info :: char and lit :: string
  defines "M \<equiv> wire info lit"
  assumes ok: "node_ok os task" and len: "length M \<le> 4096"
    and pos: "n_bufPos task < length M" "take (n_bufPos task) (n_buf task) = take (n_bufPos task) M"
    and env: "prefix (take (n_bufPos task) M @ on_the_way (incoming os (n_socket_fd task))) M"
  obtains (stays) r es k b where
      "read_case lit os task = Inr (Some r, set_incoming os (n_socket_fd task) es, task\<lparr>n_buf := b, n_bufPos := k\<rparr>)"
      "k < length M" "take k b = take k M" "length b = length (n_buf task)"
      "take k M @ on_the_way es = take (n_bufPos task) M @ on_the_way (incoming os (n_socket_fd task))"
  | (completes) es b where
      "read_case lit os task = Inr (None, set_incoming os (n_socket_fd task) es, resetHelper (task\<lparr>n_buf := b\<rparr>))"
      "length b = length (n_buf task)"
      "M @ on_the_way es = take (n_bufPos task) M @ on_the_way (incoming os (n_socket_fd task))"
proof -
  let ?fd = "n_socket_fd task" and ?p = "n_bufPos task"
  have sz: "?p < n_bufSize task" "length (n_buf task) = n_bufSize task"
    using ok len pos(1) by (auto simp: node_ok_def)
  obtain bs es r where rd: "readSocketIntoBuf os ?fd (int (n_bufSize task) - int ?p)
      = Inr (r, bs, set_incoming os ?fd es)"
    "on_the_way (incoming os ?fd) = bs @ on_the_way es" "r = int (length bs) \<or> r = - 1 \<and> bs = []"
    by (rule readSocketIntoBuf_pending[of os ?fd "int (n_bufSize task) - int ?p"])
      (use ok sz in \<open>auto simp: node_ok_def\<close>)
  from env rd(2) obtain zs where zs: "M = take ?p M @ bs @ on_the_way es @ zs"
    by (auto simp: prefix_def)
  then have drp: "drop ?p M = bs @ on_the_way es @ zs"
    by (metis append_eq_conv_conj append_take_drop_id)
  let ?b = "store ?p bs (n_buf task)"
  have fits: "?p + length bs \<le> length M"
    using drp pos(1) by (metis add_le_cancel_left length_append length_drop le_add1 le_add_diff_inverse less_imp_le)
  have lb: "length ?b = length (n_buf task)"
    using fits len ok by (intro length_store) (auto simp: node_ok_def)
  have tb: "take (?p + length bs) ?b = take (?p + length bs) M"
    using take_store[of ?p "n_buf task" bs] sz pos(2) drp by (simp add: take_add)
  show thesis
  proof (cases "r = int (length M) - int ?p")
    case False
    show thesis
    proof (cases "r = - 1")
      case True
      then have "bs = []" using rd(3) by auto
      then show thesis using True rd(1,2) pos tb lb sz
        by (intro stays[of "- 1" es ?p ?b]) (auto simp: read_case_def updateBuf_def M_def)
    next
      case nm: False
      then have r: "r = int (length bs)" using rd(3) by auto
      then have "?p + length bs < length M" using False fits by auto
      then show thesis using nm False r rd(1,2) tb lb drp
        by (intro stays[of 1 es "?p + length bs" ?b])
          (auto simp: read_case_def updateBuf_def M_def take_add)
    qed
  next
    case True
    then have "r \<noteq> - 1" using pos(1) by simp
    then have r: "r = int (length bs)" using rd(3) by auto
    then have all: "?p + length bs = length M" using True pos(1) by simp
    then have whole: "take (length M) ?b = M" using tb by simp
    then have "take (length lit + 1) (drop 1 ?b) = drop 1 M"
      by (metis M_def One_nat_def add_Suc_right drop_take length_wire one_add_one plus_1_eq_Suc diff_Suc_1 add.commute)
    then have "take (length lit + 1) (drop 1 ?b) = lit @ [NUL]" by (simp add: M_def wire_def)
    moreover have "M = take ?p M @ bs"
      using take_store[of ?p "n_buf task" bs] sz pos(2) all whole by simp
    ultimately show thesis using True r rd(1,2) lb
      by (intro completes[of es ?b]) (auto simp: read_case_def M_def)
  qed
qed

lemma writeBufIntoSocket_sends:
  assumes "fds os fd = Some (Sock True)" "0 \<le> n" "nat n \<le> length buf"
  obtains r k os' where "writeBufIntoSocket os fd buf n = Inr (r, os')"
    "sent os' fd = sent os fd @ take k (take (nat n) buf)" "fds os' = fds os" "incoming os' = incoming os"
    "k \<le> nat n" "r = int k \<or> r = - 1 \<and> k = 0"
proof -
  obtain q os' where w: "sys_write os fd (take (nat n) buf) = (q, os')" by fastforce
  then have wr: "writeBufIntoSocket os fd buf n = (case q of
      WErr e \<Rightarrow> Inr (if e = EAGAIN then 0 else - 1, os') | WCount k \<Rightarrow> Inr (int k, os'))"
    using assms(2,3) by (cases q) (auto simp: writeBufIntoSocket_def)
  have "fds os fd \<noteq> None" using assms(1) by simp
  with w show thesis
  proof (cases rule: sys_write_cases)
    case (refused e ps)
    then show thesis using wr
      by (intro that[of "if e = EAGAIN then 0 else - 1" os' 0]) auto
  next
    case (counted k ps)
    then show thesis using wr assms by (intro that[of "int k" os' k]) (auto simp: accept_bytes_sock)
  qed
qed

lemma write_case_step:
  fixes info :: char and lit :: string
  defines "M \<equiv> wire info lit"
  assumes ok: "node_ok os task" and len: "length M \<le> 4096" and pos: "n_bufPos task < length M"
  obtains (stays) r os' k b where
      "write_case info lit os task = Inr (Some r, os', task\<lparr>n_buf := b, n_bufPos := k\<rparr>)"
      "k < length M" "length b = n_bufSize task" "fds os' = fds os" "incoming os' = incoming os"
      "sent os' (n_socket_fd task) = sent os (n_socket_fd task) @ drop (n_bufPos task) (take k M)"
      "n_bufPos task \<le> k"
  | (completes) os' b where
      "write_case info lit os task = Inr (None, os', resetHelper (task\<lparr>n_buf := b\<rparr>))"
      "length b = n_bufSize task" "fds os' = fds os" "incoming os' = incoming os"
      "sent os' (n_socket_fd task) = sent os (n_socket_fd task) @ drop (n_bufPos task) M"
proof -
  let ?fd = "n_socket_fd task" and ?p = "n_bufPos task"
  let ?b = "info # lit @ replicate (n_bufSize task - (length lit + 1)) NUL"
  let ?n = "int (length lit) + 2 - int ?p"
  have sz: "length lit + 2 \<le> n_bufSize task" "fds os ?fd = Some (Sock True)"
    using ok len by (auto simp: node_ok_def M_def)
  have init: "initateTaskBuf task info lit = Inr (task\<lparr>n_buf := ?b\<rparr>)"
    using sz(1) by (simp add: initateTaskBuf_def)
  have lb: "length ?b = n_bufSize task" using sz(1) by simp
  have "take (length M) ?b = M" using sz(1) by (simp add: M_def wire_def take_Cons' )
  moreover have "nat ?n = length M - ?p" using pos by (simp add: M_def)
  ultimately have slice: "take (nat ?n) (drop ?p ?b) = drop ?p M" by (metis drop_take)
  obtain r k os' where w0: "writeBufIntoSocket os ?fd (drop ?p ?b) ?n = Inr (r, os')"
    "sent os' ?fd = sent os ?fd @ take k (take (nat ?n) (drop ?p ?b))" "fds os' = fds os" "incoming os' = incoming os"
    "k \<le> nat ?n" "r = int k \<or> r = - 1 \<and> k = 0"
    by (rule writeBufIntoSocket_sends[of os ?fd ?n "drop ?p ?b"])
      (use sz pos in \<open>simp_all add: M_def del: take_take\<close>)
  note w = w0[unfolded slice]
  show thesis
  proof (cases "r = ?n")
    case True
    then have "k = length M - ?p" using w(6) pos by (auto simp: M_def)
    then show thesis using True w init lb
      by (intro completes[of os' ?b]) (auto simp: write_case_def)
  next
    case False
    then have k: "?p + k < length M" using w(5,6) pos by (auto simp: M_def)
    show thesis
    proof (cases "r = - 1")
      case True
      then show thesis using False w init lb pos
        by (intro stays[of "- 1" os' ?p ?b]) (auto simp: write_case_def updateBuf_def)
    next
      case nm: False
      then have r: "r = int k" using w(6) by simp
      then show thesis using nm False w init lb k
        by (intro stays[of 1 os' "?p + k" ?b])
          (auto simp: write_case_def updateBuf_def take_drop add.commute)
    qed
  qed
qed

section \<open>The two ends\<close>

definition ask_msg :: "char list" where "ask_msg = wire iBool RECEIVEME"
definition answer_msg :: "char list" where "answer_msg = wire iBool RECEIVED"
definition ready_msg :: "char list" where "ready_msg = wire iStatus READY"

lemma wire_lengths [simp]: "length ask_msg = 20" "length answer_msg = 22" "length ready_msg = 17"
  by (simp_all add: ask_msg_def answer_msg_def ready_msg_def)

text \<open>Where an end is, with the bytes it has taken from the connection.\<close>

inductive master_end :: "osys \<Rightarrow> old_node \<Rightarrow> char list \<Rightarrow> bool" where
  asked: "node_ok os m \<Longrightarrow> n_taskNo m = 1 \<Longrightarrow> n_taskPos m = 0 \<Longrightarrow> n_bufPos m < length ask_msg \<Longrightarrow>
    take (n_bufPos m) (n_buf m) = take (n_bufPos m) ask_msg \<Longrightarrow> sent os (n_socket_fd m) = [] \<Longrightarrow>
    taken = take (n_bufPos m) ask_msg \<Longrightarrow> master_end os m taken"
| answers: "node_ok os m \<Longrightarrow> n_taskNo m = 1 \<Longrightarrow> n_taskPos m = 1 \<Longrightarrow> n_bufPos m < length answer_msg \<Longrightarrow>
    sent os (n_socket_fd m) = take (n_bufPos m) answer_msg \<Longrightarrow> taken = ask_msg \<Longrightarrow> master_end os m taken"
| awaits: "node_ok os m \<Longrightarrow> n_taskNo m = 1 \<Longrightarrow> n_taskPos m = 2 \<Longrightarrow> n_bufPos m < length ready_msg \<Longrightarrow>
    take (n_bufPos m) (n_buf m) = take (n_bufPos m) ready_msg \<Longrightarrow> sent os (n_socket_fd m) = answer_msg \<Longrightarrow>
    taken = ask_msg @ take (n_bufPos m) ready_msg \<Longrightarrow> master_end os m taken"
| agreed: "node_ok os m \<Longrightarrow> n_taskNo m = 5 \<Longrightarrow> sent os (n_socket_fd m) = answer_msg \<Longrightarrow>
    taken = ask_msg @ ready_msg \<Longrightarrow> master_end os m taken"

inductive worker_end :: "osys \<Rightarrow> old_node \<Rightarrow> char list \<Rightarrow> bool" where
  asks: "node_ok os w \<Longrightarrow> n_taskNo w = 0 \<Longrightarrow> n_taskPos w = 0 \<Longrightarrow> n_bufPos w < length ask_msg \<Longrightarrow>
    sent os (n_socket_fd w) = take (n_bufPos w) ask_msg \<Longrightarrow> taken = [] \<Longrightarrow> worker_end os w taken"
| listens: "node_ok os w \<Longrightarrow> n_taskNo w = 0 \<Longrightarrow> n_taskPos w = 1 \<Longrightarrow> n_bufPos w < length answer_msg \<Longrightarrow>
    take (n_bufPos w) (n_buf w) = take (n_bufPos w) answer_msg \<Longrightarrow> sent os (n_socket_fd w) = ask_msg \<Longrightarrow>
    taken = take (n_bufPos w) answer_msg \<Longrightarrow> worker_end os w taken"
| reports: "node_ok os w \<Longrightarrow> n_taskNo w = 0 \<Longrightarrow> n_taskPos w = 2 \<Longrightarrow> n_bufPos w < length ready_msg \<Longrightarrow>
    sent os (n_socket_fd w) = ask_msg @ take (n_bufPos w) ready_msg \<Longrightarrow> taken = answer_msg \<Longrightarrow> worker_end os w taken"
| waits: "node_ok os w \<Longrightarrow> n_taskNo w = 4 \<Longrightarrow> sent os (n_socket_fd w) = ask_msg @ ready_msg \<Longrightarrow>
    taken = answer_msg \<Longrightarrow> worker_end os w taken"

text \<open>A call has a result, the end is in one of its places again, no byte is lost or taken twice, and
  what was sent stays sent.\<close>

definition advances ::
  "(osys \<Rightarrow> old_node \<Rightarrow> char list \<Rightarrow> bool) \<Rightarrow> (int \<times> osys \<times> old_node) res \<Rightarrow> osys \<Rightarrow> old_node \<Rightarrow> char list \<Rightarrow> bool"
  where
  "advances end_of call os task taken \<longleftrightarrow> (\<exists>r os' task' taken'. call = Inr (r, os', task')
     \<and> end_of os' task' taken' \<and> n_socket_fd task' = n_socket_fd task
     \<and> taken' @ on_the_way (incoming os' (n_socket_fd task)) = taken @ on_the_way (incoming os (n_socket_fd task))
     \<and> prefix (sent os (n_socket_fd task)) (sent os' (n_socket_fd task)))"

lemma advances_trans:
  assumes "advances end_of call os' task' taken'" "n_socket_fd task' = n_socket_fd task"
    "taken' @ on_the_way (incoming os' (n_socket_fd task)) = taken @ on_the_way (incoming os (n_socket_fd task))"
    "prefix (sent os (n_socket_fd task)) (sent os' (n_socket_fd task))"
  shows "advances end_of call os task taken"
  using assms unfolding advances_def by (metis prefix_order.trans)

lemma advancesI:
  assumes "call = Inr (r, os', task')" "end_of os' task' taken'" "n_socket_fd task' = n_socket_fd task"
    "taken' @ on_the_way (incoming os' (n_socket_fd task)) = taken @ on_the_way (incoming os (n_socket_fd task))"
    "prefix (sent os (n_socket_fd task)) (sent os' (n_socket_fd task))"
  shows "advances end_of call os task taken"
  using assms unfolding advances_def by blast

lemma node_ok_upd [simp]:
  "node_ok (set_incoming os fd es) task = node_ok os task"
  "length b = n_bufSize task \<Longrightarrow> fds os' = fds os \<Longrightarrow> node_ok os task \<Longrightarrow> node_ok os' (task\<lparr>n_buf := b\<rparr>)"
  by (auto simp: node_ok_def)

lemma take_up_to: "p \<le> k \<Longrightarrow> take p M @ drop p (take k M) = take k M"
  by (metis append_take_drop_id min.absorb1 take_take)

lemma prefix_takes [simp]: "p \<le> k \<Longrightarrow> prefix (take p M) (take k M)"
  by (metis prefixI take_up_to)

declare take_is_prefix [simp]

lemma one_case_2_advances:
  assumes "node_ok os m" "n_taskNo m = 1" "n_taskPos m = 2" "n_bufPos m < length ready_msg"
    "take (n_bufPos m) (n_buf m) = take (n_bufPos m) ready_msg" "sent os (n_socket_fd m) = answer_msg"
    "prefix (take (n_bufPos m) ready_msg @ on_the_way (incoming os (n_socket_fd m))) ready_msg"
  shows "advances master_end (one_case_2 os m) os m (ask_msg @ take (n_bufPos m) ready_msg)"
proof (rule read_case_step[OF assms(1), of iStatus READY, folded ready_msg_def])
  fix r es k b
  assume "read_case READY os m = Inr (Some r, set_incoming os (n_socket_fd m) es, m\<lparr>n_buf := b, n_bufPos := k\<rparr>)"
    "k < length ready_msg" "take k b = take k ready_msg" "length b = length (n_buf m)"
    "take k ready_msg @ on_the_way es = take (n_bufPos m) ready_msg @ on_the_way (incoming os (n_socket_fd m))"
  then show ?thesis using assms
    by (intro advancesI[where taken' = "ask_msg @ take k ready_msg" and task' = "m\<lparr>n_buf := b, n_bufPos := k\<rparr>"])
      (auto simp: one_case_2_def fall_through_def node_ok_def intro!: master_end.awaits)
next
  fix es b
  assume "read_case READY os m = Inr (None, set_incoming os (n_socket_fd m) es, resetHelper (m\<lparr>n_buf := b\<rparr>))"
    "length b = length (n_buf m)"
    "ready_msg @ on_the_way es = take (n_bufPos m) ready_msg @ on_the_way (incoming os (n_socket_fd m))"
  then show ?thesis using assms
    by (intro advancesI[where taken' = "ask_msg @ ready_msg" and task' = "taskDone (resetHelper (m\<lparr>n_buf := b\<rparr>))"])
      (auto simp: one_case_2_def fall_through_def node_ok_def resetHelper_def taskDone_def intro!: master_end.agreed)
qed (use assms in auto)

lemma one_case_1_advances:
  assumes "node_ok os m" "n_taskNo m = 1" "n_taskPos m = 1" "n_bufPos m < length answer_msg"
    "sent os (n_socket_fd m) = take (n_bufPos m) answer_msg" "prefix (on_the_way (incoming os (n_socket_fd m))) ready_msg"
  shows "advances master_end (one_case_1 os m) os m ask_msg"
proof (rule write_case_step[OF assms(1), of iBool RECEIVED, folded answer_msg_def])
  fix r os' k b
  assume w: "write_case iBool RECEIVED os m = Inr (Some r, os', m\<lparr>n_buf := b, n_bufPos := k\<rparr>)"
    "k < length answer_msg" "length b = n_bufSize m" "fds os' = fds os" "incoming os' = incoming os"
    "sent os' (n_socket_fd m) = sent os (n_socket_fd m) @ drop (n_bufPos m) (take k answer_msg)"
    "n_bufPos m \<le> k"
  have "take (n_bufPos m) answer_msg @ drop (n_bufPos m) (take k answer_msg) = take k answer_msg"
    using w(7) by (rule take_up_to)
  then show ?thesis using assms w
    by (intro advancesI[where os' = os' and taken' = ask_msg and task' = "m\<lparr>n_buf := b, n_bufPos := k\<rparr>"])
      (auto simp: one_case_1_def fall_through_def node_ok_def intro!: master_end.answers)
next
  fix os' b
  assume w: "write_case iBool RECEIVED os m = Inr (None, os', resetHelper (m\<lparr>n_buf := b\<rparr>))"
    "length b = n_bufSize m" "fds os' = fds os" "incoming os' = incoming os"
    "sent os' (n_socket_fd m) = sent os (n_socket_fd m) @ drop (n_bufPos m) answer_msg"
  let ?m = "resetHelper (m\<lparr>n_buf := b\<rparr>)"
  have "advances master_end (one_case_2 os' ?m) os' ?m (ask_msg @ take (n_bufPos ?m) ready_msg)"
    by (rule one_case_2_advances) (use assms w in \<open>auto simp: resetHelper_def node_ok_def\<close>)
  moreover have "one_case_1 os m = one_case_2 os' ?m"
    using w(1) by (simp add: one_case_1_def fall_through_def)
  ultimately show ?thesis using w assms(5)
    by (auto simp: resetHelper_def elim!: advances_trans)
qed (use assms in auto)

lemma master_advances:
  assumes "master_end os m taken" "n_taskNo m = 1"
    "prefix (taken @ on_the_way (incoming os (n_socket_fd m))) (ask_msg @ ready_msg)"
    "n_taskPos m = 0 \<Longrightarrow> prefix (taken @ on_the_way (incoming os (n_socket_fd m))) ask_msg"
  shows "advances master_end (handleTaskOne os m) os m taken"
  using assms(1)
proof cases
  case asked
  note env = assms(4)[OF asked(3), unfolded asked(7)]
  show ?thesis
  proof (rule read_case_step[OF asked(1), of iBool RECEIVEME, folded ask_msg_def])
    fix r es k b
    assume "read_case RECEIVEME os m = Inr (Some r, set_incoming os (n_socket_fd m) es, m\<lparr>n_buf := b, n_bufPos := k\<rparr>)"
      "k < length ask_msg" "take k b = take k ask_msg" "length b = length (n_buf m)"
      "take k ask_msg @ on_the_way es = take (n_bufPos m) ask_msg @ on_the_way (incoming os (n_socket_fd m))"
    then show ?thesis using asked
      by (intro advancesI[where taken' = "take k ask_msg" and task' = "m\<lparr>n_buf := b, n_bufPos := k\<rparr>"])
        (auto simp: handleTaskOne_def fall_through_def node_ok_def intro!: master_end.asked)
  next
    fix es b
    assume r: "read_case RECEIVEME os m = Inr (None, set_incoming os (n_socket_fd m) es, resetHelper (m\<lparr>n_buf := b\<rparr>))"
      "length b = length (n_buf m)"
      "ask_msg @ on_the_way es = take (n_bufPos m) ask_msg @ on_the_way (incoming os (n_socket_fd m))"
    let ?m = "resetHelper (m\<lparr>n_buf := b\<rparr>)" and ?os = "set_incoming os (n_socket_fd m) es"
    have "on_the_way es = []" using env by (simp flip: r(3))
    then have "advances master_end (one_case_1 ?os ?m) ?os ?m ask_msg"
      by (intro one_case_1_advances) (use asked r in \<open>auto simp: resetHelper_def node_ok_def\<close>)
    moreover have "handleTaskOne os m = one_case_1 ?os ?m"
      using r(1) asked(3) by (simp add: handleTaskOne_def fall_through_def)
    ultimately show ?thesis using r(3) asked(7)
      by (auto simp: resetHelper_def elim!: advances_trans)
  qed (use asked env in auto)
next
  case answers
  then have "handleTaskOne os m = one_case_1 os m" by (simp add: handleTaskOne_def)
  then show ?thesis using one_case_1_advances[of os m] answers assms(3) by simp
next
  case awaits
  then have "handleTaskOne os m = one_case_2 os m" by (simp add: handleTaskOne_def)
  then show ?thesis using one_case_2_advances[of os m] awaits assms(3) by simp
qed (use assms(2) in simp)

lemma zero_case_2_advances:
  assumes "node_ok os w" "n_taskNo w = 0" "n_taskPos w = 2" "n_bufPos w < length ready_msg"
    "sent os (n_socket_fd w) = ask_msg @ take (n_bufPos w) ready_msg"
  shows "advances worker_end (zero_case_2 os w) os w answer_msg"
proof (rule write_case_step[OF assms(1), of iStatus READY, folded ready_msg_def])
  fix r os' k b
  assume s: "write_case iStatus READY os w = Inr (Some r, os', w\<lparr>n_buf := b, n_bufPos := k\<rparr>)"
    "k < length ready_msg" "length b = n_bufSize w" "fds os' = fds os" "incoming os' = incoming os"
    "sent os' (n_socket_fd w) = sent os (n_socket_fd w) @ drop (n_bufPos w) (take k ready_msg)"
    "n_bufPos w \<le> k"
  have "take (n_bufPos w) ready_msg @ drop (n_bufPos w) (take k ready_msg) = take k ready_msg"
    using s(7) by (rule take_up_to)
  then show ?thesis using assms s
    by (intro advancesI[where os' = os' and taken' = answer_msg and task' = "w\<lparr>n_buf := b, n_bufPos := k\<rparr>"])
      (auto simp: zero_case_2_def fall_through_def node_ok_def intro!: worker_end.reports)
next
  fix os' b
  assume "write_case iStatus READY os w = Inr (None, os', resetHelper (w\<lparr>n_buf := b\<rparr>))"
    "length b = n_bufSize w" "fds os' = fds os" "incoming os' = incoming os"
    "sent os' (n_socket_fd w) = sent os (n_socket_fd w) @ drop (n_bufPos w) ready_msg"
  then show ?thesis using assms
    by (intro advancesI[where os' = os' and taken' = answer_msg and task' = "(resetHelper (w\<lparr>n_buf := b\<rparr>))\<lparr>n_taskNo := 4\<rparr>"])
      (auto simp: zero_case_2_def fall_through_def node_ok_def resetHelper_def intro!: worker_end.waits)
qed (use assms in auto)

lemma zero_case_1_advances:
  assumes "node_ok os w" "n_taskNo w = 0" "n_taskPos w = 1" "n_bufPos w < length answer_msg"
    "take (n_bufPos w) (n_buf w) = take (n_bufPos w) answer_msg" "sent os (n_socket_fd w) = ask_msg"
    "prefix (take (n_bufPos w) answer_msg @ on_the_way (incoming os (n_socket_fd w))) answer_msg"
  shows "advances worker_end (zero_case_1 os w) os w (take (n_bufPos w) answer_msg)"
proof (rule read_case_step[OF assms(1), of iBool RECEIVED, folded answer_msg_def])
  fix r es k b
  assume "read_case RECEIVED os w = Inr (Some r, set_incoming os (n_socket_fd w) es, w\<lparr>n_buf := b, n_bufPos := k\<rparr>)"
    "k < length answer_msg" "take k b = take k answer_msg" "length b = length (n_buf w)"
    "take k answer_msg @ on_the_way es = take (n_bufPos w) answer_msg @ on_the_way (incoming os (n_socket_fd w))"
  then show ?thesis using assms
    by (intro advancesI[where taken' = "take k answer_msg" and task' = "w\<lparr>n_buf := b, n_bufPos := k\<rparr>"])
      (auto simp: zero_case_1_def fall_through_def node_ok_def intro!: worker_end.listens)
next
  fix es b
  assume r: "read_case RECEIVED os w = Inr (None, set_incoming os (n_socket_fd w) es, resetHelper (w\<lparr>n_buf := b\<rparr>))"
    "length b = length (n_buf w)"
    "answer_msg @ on_the_way es = take (n_bufPos w) answer_msg @ on_the_way (incoming os (n_socket_fd w))"
  let ?w = "resetHelper (w\<lparr>n_buf := b\<rparr>)" and ?os = "set_incoming os (n_socket_fd w) es"
  have "advances worker_end (zero_case_2 ?os ?w) ?os ?w answer_msg"
    by (intro zero_case_2_advances) (use assms r in \<open>auto simp: resetHelper_def node_ok_def\<close>)
  moreover have "zero_case_1 os w = zero_case_2 ?os ?w"
    using r(1) by (simp add: zero_case_1_def fall_through_def)
  ultimately show ?thesis using r(3)
    by (auto simp: resetHelper_def elim!: advances_trans)
qed (use assms in auto)

lemma worker_advances:
  assumes "worker_end os w taken" "n_taskNo w = 0"
    "prefix (taken @ on_the_way (incoming os (n_socket_fd w))) answer_msg"
  shows "advances worker_end (handleTaskZeroWorker os w) os w taken"
  using assms(1)
proof cases
  case asks
  show ?thesis
  proof (rule write_case_step[OF asks(1), of iBool RECEIVEME, folded ask_msg_def])
    fix r os' k b
    assume s: "write_case iBool RECEIVEME os w = Inr (Some r, os', w\<lparr>n_buf := b, n_bufPos := k\<rparr>)"
      "k < length ask_msg" "length b = n_bufSize w" "fds os' = fds os" "incoming os' = incoming os"
      "sent os' (n_socket_fd w) = sent os (n_socket_fd w) @ drop (n_bufPos w) (take k ask_msg)"
      "n_bufPos w \<le> k"
    have "take (n_bufPos w) ask_msg @ drop (n_bufPos w) (take k ask_msg) = take k ask_msg"
      using s(7) by (rule take_up_to)
    then show ?thesis using asks s
      by (intro advancesI[where os' = os' and taken' = "[]" and task' = "w\<lparr>n_buf := b, n_bufPos := k\<rparr>"])
        (auto simp: handleTaskZeroWorker_def fall_through_def node_ok_def intro!: worker_end.asks)
  next
    fix os' b
    assume s: "write_case iBool RECEIVEME os w = Inr (None, os', resetHelper (w\<lparr>n_buf := b\<rparr>))"
      "length b = n_bufSize w" "fds os' = fds os" "incoming os' = incoming os"
      "sent os' (n_socket_fd w) = sent os (n_socket_fd w) @ drop (n_bufPos w) ask_msg"
    let ?w = "resetHelper (w\<lparr>n_buf := b\<rparr>)"
    have "advances worker_end (zero_case_1 os' ?w) os' ?w (take (n_bufPos ?w) answer_msg)"
      by (intro zero_case_1_advances) (use asks s assms(3) in \<open>auto simp: resetHelper_def node_ok_def\<close>)
    moreover have "handleTaskZeroWorker os w = zero_case_1 os' ?w"
      using s(1) asks(3) by (simp add: handleTaskZeroWorker_def fall_through_def)
    ultimately show ?thesis using s asks
      by (auto simp: resetHelper_def elim!: advances_trans)
  qed (use asks in auto)
next
  case listens
  then have "handleTaskZeroWorker os w = zero_case_1 os w" by (simp add: handleTaskZeroWorker_def)
  then show ?thesis using zero_case_1_advances[of os w] listens assms(3) by simp
next
  case reports
  then have "handleTaskZeroWorker os w = zero_case_2 os w" by (simp add: handleTaskZeroWorker_def)
  then show ?thesis using zero_case_2_advances[of os w] reports by simp
qed (use assms(2) in simp)

section \<open>Both ends and the network\<close>

text \<open>Each end has its own kernel; the network has taken \<open>to_master\<close> bytes from the worker to the master
  and \<open>to_worker\<close> bytes back.\<close>

record handshake =
  master_os :: osys
  master_node :: old_node
  worker_os :: osys
  worker_node :: old_node
  to_master :: nat
  to_worker :: nat

definition master_sent :: "handshake \<Rightarrow> char list" where
  "master_sent h = sent (master_os h) (n_socket_fd (master_node h))"

definition worker_sent :: "handshake \<Rightarrow> char list" where
  "worker_sent h = sent (worker_os h) (n_socket_fd (worker_node h))"

text \<open>The dispatchers call the two handlers while the numbers are 1 and 0. The network delivers the next
  bytes, or a read is going to fail.\<close>

inductive handshake_step :: "handshake \<Rightarrow> handshake \<Rightarrow> bool" where
  master_calls: "n_taskNo (master_node h) = 1 \<Longrightarrow>
    handleTaskOne (master_os h) (master_node h) = Inr (r, os, m) \<Longrightarrow>
    handshake_step h (h\<lparr>master_os := os, master_node := m\<rparr>)"
| worker_calls: "n_taskNo (worker_node h) = 0 \<Longrightarrow>
    handleTaskZeroWorker (worker_os h) (worker_node h) = Inr (r, os, w) \<Longrightarrow>
    handshake_step h (h\<lparr>worker_os := os, worker_node := w\<rparr>)"
| delivers_to_master: "drop (to_master h) (worker_sent h) = bs @ rest \<Longrightarrow>
    handshake_step h (h\<lparr>master_os := feed (master_os h) (n_socket_fd (master_node h)) [Chunk bs],
      to_master := to_master h + length bs\<rparr>)"
| delivers_to_worker: "drop (to_worker h) (master_sent h) = bs @ rest \<Longrightarrow>
    handshake_step h (h\<lparr>worker_os := feed (worker_os h) (n_socket_fd (worker_node h)) [Chunk bs],
      to_worker := to_worker h + length bs\<rparr>)"
| master_error: "handshake_step h
    (h\<lparr>master_os := feed (master_os h) (n_socket_fd (master_node h)) [Fail e]\<rparr>)"
| worker_error: "handshake_step h
    (h\<lparr>worker_os := feed (worker_os h) (n_socket_fd (worker_node h)) [Fail e]\<rparr>)"

inductive handshake_reach :: "handshake \<Rightarrow> handshake \<Rightarrow> bool" for h0 where
  start: "handshake_reach h0 h0"
| step: "handshake_reach h0 h \<Longrightarrow> handshake_step h h' \<Longrightarrow> handshake_reach h0 h'"

definition handshake_start :: "handshake \<Rightarrow> bool" where
  "handshake_start h \<longleftrightarrow> node_ok (master_os h) (master_node h) \<and> node_ok (worker_os h) (worker_node h)
     \<and> n_taskNo (master_node h) = 1 \<and> n_taskPos (master_node h) = 0 \<and> n_bufPos (master_node h) = 0
     \<and> n_taskNo (worker_node h) = 0 \<and> n_taskPos (worker_node h) = 0 \<and> n_bufPos (worker_node h) = 0
     \<and> master_sent h = [] \<and> worker_sent h = [] \<and> to_master h = 0 \<and> to_worker h = 0
     \<and> incoming (master_os h) (n_socket_fd (master_node h)) = []
     \<and> incoming (worker_os h) (n_socket_fd (worker_node h)) = []"

text \<open>What an end has taken and what waits for it is what the network took from the other end.\<close>

definition handshake_inv :: "handshake \<Rightarrow> char list \<Rightarrow> char list \<Rightarrow> bool" where
  "handshake_inv h cm cw \<longleftrightarrow> master_end (master_os h) (master_node h) cm
     \<and> worker_end (worker_os h) (worker_node h) cw
     \<and> to_master h \<le> length (worker_sent h) \<and> to_worker h \<le> length (master_sent h)
     \<and> cm @ on_the_way (incoming (master_os h) (n_socket_fd (master_node h))) = take (to_master h) (worker_sent h)
     \<and> cw @ on_the_way (incoming (worker_os h) (n_socket_fd (worker_node h))) = take (to_worker h) (master_sent h)"

lemma master_end_sent: "master_end os m taken \<Longrightarrow> prefix (sent os (n_socket_fd m)) answer_msg"
  by (erule master_end.cases) auto

lemma worker_end_sent:
  "worker_end os w taken \<Longrightarrow> prefix (sent os (n_socket_fd w)) (ask_msg @ ready_msg)
    \<and> (taken = [] \<longrightarrow> prefix (sent os (n_socket_fd w)) ask_msg)"
  by (erule worker_end.cases) (auto simp: answer_msg_def wire_def prefix_append)

lemma master_end_pos: "master_end os m taken \<Longrightarrow> n_taskNo m = 1 \<Longrightarrow> n_taskPos m = 0 \<Longrightarrow> sent os (n_socket_fd m) = []"
  by (erule master_end.cases) auto

lemma master_end_feed [simp]: "master_end (feed os fd es) m taken = master_end os m taken"
  by (simp add: master_end.simps node_ok_def)

lemma worker_end_feed [simp]: "worker_end (feed os fd es) w taken = worker_end os w taken"
  by (simp add: worker_end.simps node_ok_def)

lemma take_prefix: "prefix xs ys \<Longrightarrow> n \<le> length xs \<Longrightarrow> take n ys = take n xs"
  by (auto simp: prefix_def)

lemma handshake_master_call:
  assumes "handshake_inv h cm cw" "n_taskNo (master_node h) = 1"
  shows "advances master_end (handleTaskOne (master_os h) (master_node h)) (master_os h) (master_node h) cm"
proof -
  let ?fd = "n_socket_fd (master_node h)"
  have inv: "master_end (master_os h) (master_node h) cm" "worker_end (worker_os h) (worker_node h) cw"
    "cm @ on_the_way (incoming (master_os h) ?fd) = take (to_master h) (worker_sent h)"
    "cw @ on_the_way (incoming (worker_os h) (n_socket_fd (worker_node h))) = take (to_worker h) (master_sent h)"
    using assms(1) by (auto simp: handshake_inv_def)
  note sw = worker_end_sent[OF inv(2), folded worker_sent_def]
  show ?thesis
  proof (rule master_advances[OF inv(1) assms(2)])
    show "prefix (cm @ on_the_way (incoming (master_os h) ?fd)) (ask_msg @ ready_msg)"
      unfolding inv(3) using sw take_is_prefix prefix_order.trans by blast
  next
    assume "n_taskPos (master_node h) = 0"
    then have "master_sent h = []" using master_end_pos[OF inv(1) assms(2)] by (simp add: master_sent_def)
    then have "cw = []" using inv(4) by simp
    then show "prefix (cm @ on_the_way (incoming (master_os h) ?fd)) ask_msg"
      unfolding inv(3) using sw take_is_prefix prefix_order.trans by blast
  qed
qed

lemma handshake_worker_call:
  assumes "handshake_inv h cm cw" "n_taskNo (worker_node h) = 0"
  shows "advances worker_end (handleTaskZeroWorker (worker_os h) (worker_node h)) (worker_os h) (worker_node h) cw"
proof -
  have inv: "master_end (master_os h) (master_node h) cm" "worker_end (worker_os h) (worker_node h) cw"
    "cw @ on_the_way (incoming (worker_os h) (n_socket_fd (worker_node h))) = take (to_worker h) (master_sent h)"
    using assms(1) by (auto simp: handshake_inv_def)
  note sm = master_end_sent[OF inv(1), folded master_sent_def]
  show ?thesis
    by (rule worker_advances[OF inv(2) assms(2)], unfold inv(3))
      (use sm take_is_prefix prefix_order.trans in blast)
qed

lemma deliver_take: "drop n xs = bs @ rest \<Longrightarrow> n \<le> length xs \<Longrightarrow>
    take n xs @ bs = take (n + length bs) xs \<and> n + length bs \<le> length xs"
  by (metis append_eq_conv_conj length_append length_drop le_add1 le_add_diff_inverse nat_add_left_cancel_le take_add)

lemma handshake_inv_step:
  assumes "handshake_step h h'" "handshake_inv h cm cw"
  obtains cm' cw' where "handshake_inv h' cm' cw'"
  using assms
proof (induction rule: handshake_step.induct)
  case (master_calls h r os m)
  from handshake_master_call[OF master_calls(4,1)] master_calls(2) obtain cm' where
    "master_end os m cm'" "n_socket_fd m = n_socket_fd (master_node h)"
    "cm' @ on_the_way (incoming os (n_socket_fd m)) = cm @ on_the_way (incoming (master_os h) (n_socket_fd m))"
    "prefix (master_sent h) (sent os (n_socket_fd m))"
    unfolding advances_def master_sent_def by auto
  then show ?case using master_calls(4)
    by (intro master_calls(3)[of cm' cw])
      (auto simp: handshake_inv_def master_sent_def worker_sent_def take_prefix dest: prefix_length_le)
next
  case (worker_calls h r os w)
  from handshake_worker_call[OF worker_calls(4,1)] worker_calls(2) obtain cw' where
    "worker_end os w cw'" "n_socket_fd w = n_socket_fd (worker_node h)"
    "cw' @ on_the_way (incoming os (n_socket_fd w)) = cw @ on_the_way (incoming (worker_os h) (n_socket_fd w))"
    "prefix (worker_sent h) (sent os (n_socket_fd w))"
    unfolding advances_def worker_sent_def by auto
  then show ?case using worker_calls(4)
    by (intro worker_calls(3)[of cm cw'])
      (auto simp: handshake_inv_def master_sent_def worker_sent_def take_prefix dest: prefix_length_le)
next
  case (delivers_to_master h bs rest)
  have d: "take (to_master h) (worker_sent h) @ bs = take (to_master h + length bs) (worker_sent h)
    \<and> to_master h + length bs \<le> length (worker_sent h)"
    by (rule deliver_take[OF delivers_to_master(1)]) (use delivers_to_master(3) in \<open>simp add: handshake_inv_def\<close>)
  show ?case
    by (intro delivers_to_master(2)[of cm cw])
      (use delivers_to_master(3) d in \<open>auto simp: handshake_inv_def master_sent_def worker_sent_def simp flip: append_assoc\<close>)
next
  case (delivers_to_worker h bs rest)
  have d: "take (to_worker h) (master_sent h) @ bs = take (to_worker h + length bs) (master_sent h)
    \<and> to_worker h + length bs \<le> length (master_sent h)"
    by (rule deliver_take[OF delivers_to_worker(1)]) (use delivers_to_worker(3) in \<open>simp add: handshake_inv_def\<close>)
  show ?case
    by (intro delivers_to_worker(2)[of cm cw])
      (use delivers_to_worker(3) d in \<open>auto simp: handshake_inv_def master_sent_def worker_sent_def simp flip: append_assoc\<close>)
next
  case (master_error h e)
  show ?case
    by (intro master_error(1)[of cm cw])
      (use master_error(2) in \<open>auto simp: handshake_inv_def master_sent_def worker_sent_def\<close>)
next
  case (worker_error h e)
  show ?case
    by (intro worker_error(1)[of cm cw])
      (use worker_error(2) in \<open>auto simp: handshake_inv_def master_sent_def worker_sent_def\<close>)
qed

lemma handshake_start_inv: "handshake_start h \<Longrightarrow> handshake_inv h [] []"
  unfolding handshake_start_def handshake_inv_def
  by (auto simp: master_sent_def worker_sent_def intro!: master_end.asked worker_end.asks)

lemma handshake_reach_inv:
  "handshake_reach h0 h \<Longrightarrow> handshake_start h0 \<Longrightarrow> \<exists>cm cw. handshake_inv h cm cw"
proof (induction rule: handshake_reach.induct)
  case start
  then show ?case using handshake_start_inv by blast
next
  case (step h h')
  then show ?case using handshake_inv_step[OF step.hyps(2)] by metis
qed

text \<open>Agreement: who has finished knows that the other end got there.\<close>

lemma handshake_agreement:
  assumes "handshake_inv h cm cw"
  shows "n_taskNo (master_node h) = 5 \<Longrightarrow> n_taskNo (worker_node h) = 4"
    "n_taskNo (worker_node h) = 4 \<Longrightarrow> n_taskNo (master_node h) = 5 \<or> n_taskPos (master_node h) = 2"
proof -
  have inv: "master_end (master_os h) (master_node h) cm" "worker_end (worker_os h) (worker_node h) cw"
    "prefix cm (worker_sent h)" "prefix cw (master_sent h)"
    using assms take_is_prefix unfolding handshake_inv_def
    by (metis prefixI prefix_order.trans)+
  show "n_taskNo (worker_node h) = 4" if "n_taskNo (master_node h) = 5"
  proof -
    have "cm = ask_msg @ ready_msg" using inv(1) that by cases auto
    then have "length (ask_msg @ ready_msg) \<le> length (worker_sent h)" using inv(3) prefix_length_le by blast
    with inv(2) show ?thesis by cases (auto simp: worker_sent_def)
  qed
  show "n_taskNo (master_node h) = 5 \<or> n_taskPos (master_node h) = 2" if "n_taskNo (worker_node h) = 4"
  proof -
    have "cw = answer_msg" using inv(2) that by cases auto
    then have "length answer_msg \<le> length (master_sent h)" using inv(4) prefix_length_le by blast
    with inv(1) show ?thesis by cases (auto simp: master_sent_def)
  qed
qed

section \<open>A run that completes\<close>

text \<open>An end with nothing half done, and a kernel that takes every write whole.\<close>

definition quiet_end :: "osys \<Rightarrow> old_node \<Rightarrow> int \<Rightarrow> int \<Rightarrow> arrival list \<Rightarrow> char list \<Rightarrow> bool" where
  "quiet_end os n no pos es out \<longleftrightarrow> fds os (n_socket_fd n) = Some (Sock True) \<and> n_bufSize n = 4096
     \<and> length (n_buf n) = 4096 \<and> n_bufPos n = 0 \<and> n_taskNo n = no \<and> n_taskPos n = pos
     \<and> wplan os (n_socket_fd n) = [] \<and> incoming os (n_socket_fd n) = es \<and> sent os (n_socket_fd n) = out"

lemmas run_simps = fall_through_def read_case_def write_case_def initateTaskBuf_def readSocketIntoBuf_def
  writeBufIntoSocket_def sys_read_def sys_write_def accept_bytes_def updateBuf_def
  resetHelper_def taskDone_def store_def wire_def ask_msg_def answer_msg_def ready_msg_def

lemma worker_asks:
  assumes "quiet_end os w 0 0 [] []"
  obtains r os' w' where "handleTaskZeroWorker os w = Inr (r, os', w')" "quiet_end os' w' 0 1 [] ask_msg"
    "n_socket_fd w' = n_socket_fd w"
  using assms by (simp add: handleTaskZeroWorker_def zero_case_1_def quiet_end_def run_simps)

lemma master_replies:
  assumes "quiet_end os m 1 0 [Chunk ask_msg] []"
  obtains r os' m' where "handleTaskOne os m = Inr (r, os', m')" "quiet_end os' m' 1 2 [] answer_msg"
    "n_socket_fd m' = n_socket_fd m"
  using assms by (simp add: handleTaskOne_def one_case_1_def one_case_2_def quiet_end_def run_simps)

lemma worker_finishes:
  assumes "quiet_end os w 0 1 [Chunk answer_msg] ask_msg"
  obtains r os' w' where "handleTaskZeroWorker os w = Inr (r, os', w')"
    "quiet_end os' w' 4 3 [] (ask_msg @ ready_msg)" "n_socket_fd w' = n_socket_fd w"
  using assms by (simp add: handleTaskZeroWorker_def zero_case_1_def zero_case_2_def quiet_end_def run_simps)

lemma master_finishes:
  assumes "quiet_end os m 1 2 [Chunk ready_msg] answer_msg"
  obtains r os' m' where "handleTaskOne os m = Inr (r, os', m')" "n_taskNo m' = 5"
  using assms by (simp add: handleTaskOne_def one_case_2_def quiet_end_def run_simps)

lemma quiet_feed: "quiet_end os n no pos [] out \<Longrightarrow> quiet_end (feed os (n_socket_fd n) es) n no pos es out"
  by (simp add: quiet_end_def)

lemma handshake_completes:
  assumes m: "quiet_end (master_os h) (master_node h) 1 0 [] []"
    and w: "quiet_end (worker_os h) (worker_node h) 0 0 [] []" and z: "to_master h = 0" "to_worker h = 0"
  obtains h' where "handshake_reach h h'" "n_taskNo (master_node h') = 5" "n_taskNo (worker_node h') = 4"
proof -
  obtain r1 os1 w1 where 1: "handleTaskZeroWorker (worker_os h) (worker_node h) = Inr (r1, os1, w1)"
    "quiet_end os1 w1 0 1 [] ask_msg" "n_socket_fd w1 = n_socket_fd (worker_node h)"
    using worker_asks[OF w] .
  let ?h1 = "h\<lparr>worker_os := os1, worker_node := w1\<rparr>"
  have s1: "handshake_step h ?h1"
    using handshake_step.worker_calls[OF _ 1(1)] w by (simp add: quiet_end_def)
  let ?h2 = "?h1\<lparr>master_os := feed (master_os ?h1) (n_socket_fd (master_node ?h1)) [Chunk ask_msg],
      to_master := to_master ?h1 + length ask_msg\<rparr>"
  have s2: "handshake_step ?h1 ?h2"
    by (rule handshake_step.delivers_to_master[where rest = "[]"])
      (use 1 z in \<open>simp add: worker_sent_def quiet_end_def\<close>)
  obtain r2 os2 m2 where 2: "handleTaskOne (master_os ?h2) (master_node ?h2) = Inr (r2, os2, m2)"
    "quiet_end os2 m2 1 2 [] answer_msg" "n_socket_fd m2 = n_socket_fd (master_node h)"
    by (rule master_replies[of "master_os ?h2" "master_node ?h2"]) (use quiet_feed[OF m] in simp_all)
  let ?h3 = "?h2\<lparr>master_os := os2, master_node := m2\<rparr>"
  have s3: "handshake_step ?h2 ?h3"
    by (rule handshake_step.master_calls[OF _ 2(1)]) (use m in \<open>simp add: quiet_end_def\<close>)
  let ?h4 = "?h3\<lparr>worker_os := feed (worker_os ?h3) (n_socket_fd (worker_node ?h3)) [Chunk answer_msg],
      to_worker := to_worker ?h3 + length answer_msg\<rparr>"
  have s4: "handshake_step ?h3 ?h4"
    by (rule handshake_step.delivers_to_worker[where rest = "[]"])
      (use 2 z in \<open>simp add: master_sent_def quiet_end_def\<close>)
  obtain r5 os5 w5 where 5: "handleTaskZeroWorker (worker_os ?h4) (worker_node ?h4) = Inr (r5, os5, w5)"
    "quiet_end os5 w5 4 3 [] (ask_msg @ ready_msg)" "n_socket_fd w5 = n_socket_fd w1"
    by (rule worker_finishes[of "worker_os ?h4" "worker_node ?h4"]) (use quiet_feed[OF 1(2)] in simp_all)
  let ?h5 = "?h4\<lparr>worker_os := os5, worker_node := w5\<rparr>"
  have s5: "handshake_step ?h4 ?h5"
    by (rule handshake_step.worker_calls[OF _ 5(1)]) (use 1(2) in \<open>simp add: quiet_end_def\<close>)
  let ?h6 = "?h5\<lparr>master_os := feed (master_os ?h5) (n_socket_fd (master_node ?h5)) [Chunk ready_msg],
      to_master := to_master ?h5 + length ready_msg\<rparr>"
  have s6: "handshake_step ?h5 ?h6"
    by (rule handshake_step.delivers_to_master[where rest = "[]"])
      (use 5 z in \<open>simp add: worker_sent_def quiet_end_def\<close>)
  obtain r7 os7 m7 where 7: "handleTaskOne (master_os ?h6) (master_node ?h6) = Inr (r7, os7, m7)" "n_taskNo m7 = 5"
    by (rule master_finishes[of "master_os ?h6" "master_node ?h6"]) (use quiet_feed[OF 2(2)] in simp_all)
  let ?h7 = "?h6\<lparr>master_os := os7, master_node := m7\<rparr>"
  have s7: "handshake_step ?h6 ?h7"
    by (rule handshake_step.master_calls[OF _ 7(1)]) (use 2(2) in \<open>simp add: quiet_end_def\<close>)
  have "handshake_reach h ?h7"
    using handshake_reach.start s1 s2 s3 s4 s5 s6 s7 by (meson handshake_reach.step)
  moreover have "n_taskNo (worker_node ?h7) = 4" using 5(2) by (simp add: quiet_end_def)
  ultimately show thesis using that 7(2) by simp
qed

end
