(* ===== verification/Old_Messages.thy ===== *)
theory Old_Messages
  imports Old_Tasks
begin

text \<open>
  What \<^verbatim>\<open>taskManager.c\<close> gets right and wrong: the type of a message, and a file that arrives in two pieces.
\<close>

section \<open>The type byte\<close>

lemma bit_mask_test: "n < 8 \<Longrightarrow> (w AND 2 ^ n = 2 ^ n) = bit w n" for w :: "8 word"
proof -
  assume n: "n < 8"
  have "w AND 2 ^ n = (if bit w n then 2 ^ n else 0)"
    by (rule bit_word_eqI) (auto simp: bit_simps)
  moreover have "(2 :: 8 word) ^ n \<noteq> 0" using n unat_pow2[of n, where 'a = 8] by auto
  ultimately show ?thesis by simp
qed

lemma top_bit_test: "(w AND 0x80 = 0x80) = bit w 7" for w :: "8 word"
  using bit_mask_test[of 7 w] by simp

lemma low_bit_test: "(w AND 0x01 = 0x01) = bit w 0" for w :: "8 word"
  using bit_mask_test[of 0 w] by simp

lemma message_type_loop_spec:
  "k \<le> 7 \<Longrightarrow> message_type_loop k (push_bit (7 - k) w) =
    (let ts = {t. 1 \<le> t \<and> t \<le> k \<and> bit w t} in
     if ts = {} then 0 else if bit w 0 then int (Max ts) else - 1)"
proof (induction k)
  case 0
  then show ?case by (simp add: Let_def)
next
  case (Suc k)
  have top: "bit (push_bit (7 - Suc k) w) 7 = bit w (Suc k)"
    using Suc.prems by (auto simp: bit_simps)
  have low: "bit (drop_bit (7 - Suc k) (push_bit (7 - Suc k) w)) 0 = bit w 0"
    using Suc.prems by (auto simp: bit_simps)
  have shift: "push_bit 1 (push_bit (7 - Suc k) w) = push_bit (7 - k) w"
  proof -
    have "1 + (7 - Suc k) = 7 - k" using Suc.prems by simp
    then show ?thesis by (simp only: push_bit_push_bit)
  qed
  have unfold: "message_type_loop (Suc k) (push_bit (7 - Suc k) w) =
      (if bit w (Suc k) then (if bit w 0 then int (Suc k) else - 1)
       else message_type_loop k (push_bit (7 - k) w))"
    by (simp only: message_type_loop.simps top_bit_test low_bit_test top low shift)
  show ?case
  proof (cases "bit w (Suc k)")
    case True
    have "Max {t. 1 \<le> t \<and> t \<le> Suc k \<and> bit w t} = Suc k"
      by (rule Max_eqI) (use True in auto)
    moreover have "Suc k \<in> {t. 1 \<le> t \<and> t \<le> Suc k \<and> bit w t}" using True by simp
    ultimately show ?thesis
      unfolding unfold Let_def using True by auto
  next
    case False
    have "{t. 1 \<le> t \<and> t \<le> Suc k \<and> bit w t} = {t. 1 \<le> t \<and> t \<le> k \<and> bit w t}"
      using False by (auto simp: le_Suc_eq)
    then show ?thesis unfolding unfold using Suc False by simp
  qed
qed

lemma getMessageType_spec:
  "getMessageType w = (let ts = {t. 1 \<le> t \<and> t \<le> 7 \<and> bit w t} in
     if ts = {} then 0 else if bit w 0 then int (Max ts) else - 1)"
  using message_type_loop_spec[of 7 w] by (simp add: getMessageType_def)

section \<open>A file in two pieces\<close>

text \<open>When the rest of a file is late, the worker takes the first piece for the whole, says that it is
  ready, and then runs the program by a name in an array that is gone.\<close>


lemma three_worker_case_0_first:
  assumes "fds os (n_socket_fd task) = Some (Sock True)" "n_socket_fd task \<noteq> next_fd os"
    "incoming os (n_socket_fd task) = [Chunk (name @ NUL # piece)]"
    "n_bufPos task = 0" "n_bufWIP task = 0" "length (n_buf task) = n_bufSize task"
    "NUL \<notin> set name" "3 \<le> length name" "length name < 1024" "\<not> denied os name"
    "length name + 1 + length piece \<le> n_bufSize task"
  obtains os' b where "three_worker_case_0 os task = Inr (None, os', task\<lparr>n_buf := b, n_fileName := Dead_array,
      n_tmpFP := next_fd os, n_bufPos := length name + 1 + length piece, n_taskPos := 1, n_bufWIP := 1\<rparr>)"
    "fds os' (n_socket_fd task) = Some (Sock True)" "incoming os' (n_socket_fd task) = []"
    "wplan os' (n_socket_fd task) = wplan os (n_socket_fd task)"
    "sent os' (n_socket_fd task) = sent os (n_socket_fd task)"
    "disk os' name = Some (overwrite (file_bytes os name) 0 piece)" "length b = n_bufSize task"
proof -
  define fd d b where "fd = n_socket_fd task" and "d = name @ NUL # piece"
    and "b = d @ drop (length d) (n_buf task)"
  define os1 where "os1 = set_incoming os fd []"
  define os2 where "os2 = snd (getFdForWriteFile os1 name)"
  define os3 where "os3 = accept_bytes os2 (next_fd os) piece"
  have lens: "length d = length name + 1 + length piece" "length b = n_bufSize task"
    using assms(6,11) by (simp_all add: d_def b_def)
  have rd: "readSocketIntoBuf os fd (int (n_bufSize task)) = Inr (int (length d), d, os1)"
    using assms(1,3,11) by (simp add: readSocketIntoBuf_def sys_read_def fd_def d_def os1_def)
  have st: "store 0 d (n_buf task) = b" by (simp add: store_def b_def)
  obtain c cs where nm: "name = c # cs" using assms(8) by (cases name) auto
  have s1: "c_string (drop 1 b) = Inr cs"
    using assms(7) by (simp add: nm b_def d_def c_string_def cstr_terminated)
  have s0: "c_string b = Inr name"
    using assms(7) by (simp add: b_def d_def c_string_def cstr_terminated)
  have ne: "length cs + 1 = length name" "2 \<le> length cs" using nm assms(8) by auto
  have op: "getFdForWriteFile os1 name = (next_fd os, os2)"
    using assms(10) by (simp add: getFdForWriteFile_def add_file_fd_def os1_def os2_def)
  have pc: "take (length piece) (drop (length cs + 2) b) = piece" by (simp add: b_def d_def nm)
  have w: "sys_write os2 (next_fd os) piece = (WCount (length piece), os3)"
    using assms(10)
    by (simp add: getFdForWriteFile_def add_file_fd_def sys_write_def os1_def os2_def os3_def)
  have "int (length d) - 2 - int (length cs) = int (length piece)" using lens(1) ne(1) by simp
  then have "three_worker_case_0 os task = Inr (None, os3, task\<lparr>n_buf := b, n_fileName := Dead_array,
      n_tmpFP := next_fd os, n_bufPos := length d, n_taskPos := 1, n_bufWIP := 1\<rparr>)"
    using assms(4,5,9) ne w pc
    by (simp add: three_worker_case_0_def rd st s1 s0 op Let_def fd_def[symmetric] del: drop_drop One_nat_def)
  moreover have "disk os3 name = Some (overwrite (file_bytes os name) 0 piece)"
    using assms(10)
    by (simp add: getFdForWriteFile_def add_file_fd_def accept_bytes_def file_bytes_def os1_def os2_def os3_def)
  moreover have "fds os3 fd = Some (Sock True)" "incoming os3 fd = []" "wplan os3 fd = wplan os fd"
    "sent os3 fd = sent os fd"
    using assms(1,2,10)
    by (simp_all add: getFdForWriteFile_def add_file_fd_def accept_bytes_def fd_def os1_def os2_def os3_def)
  ultimately show thesis using that[of os3 b] lens fd_def by simp
qed

lemma late_piece_is_lost:
  assumes "fds os (n_socket_fd task) = Some (Sock True)" "n_socket_fd task \<noteq> next_fd os"
    "incoming os (n_socket_fd task) = [Chunk (name @ NUL # piece)]" "wplan os (n_socket_fd task) = []"
    "n_taskNo task = 0" "n_taskPos task = 0" "n_bufPos task = 0" "n_bufWIP task = 0"
    "length (n_buf task) = n_bufSize task" "17 \<le> n_bufSize task"
    "NUL \<notin> set name" "3 \<le> length name" "length name < 1024" "\<not> denied os name"
    "length name + 1 + length piece \<le> n_bufSize task"
  obtains os' task' where "handleTaskThreeWorker os task = Inr (0, os', task')" "n_taskNo task' = 4"
    "disk os' name = Some (overwrite (file_bytes os name) 0 piece)"
    "sent os' (n_socket_fd task) = sent os (n_socket_fd task) @ iStatus # READY @ [NUL]"
    "n_fileName task' = Dead_array"
proof -
  let ?fd = "n_socket_fd task"
  obtain os1 b where c0: "three_worker_case_0 os task = Inr (None, os1, task\<lparr>n_buf := b, n_fileName := Dead_array,
      n_tmpFP := next_fd os, n_bufPos := length name + 1 + length piece, n_taskPos := 1, n_bufWIP := 1\<rparr>)"
    and o1: "fds os1 ?fd = Some (Sock True)" "incoming os1 ?fd = []" "wplan os1 ?fd = []"
      "sent os1 ?fd = sent os ?fd" "disk os1 name = Some (overwrite (file_bytes os name) 0 piece)"
    and b: "length b = n_bufSize task"
    using three_worker_case_0_first[OF assms(1-3,7-9,11-15)] unfolding assms(4) by blast
  define t1 where "t1 = task\<lparr>n_buf := b, n_fileName := Dead_array, n_tmpFP := next_fd os,
    n_bufPos := length name + 1 + length piece, n_taskPos := 1, n_bufWIP := 1\<rparr>"
  define t2 where "t2 = resetHelper (t1\<lparr>n_bufPos := 0\<rparr>)"
  have rd: "readSocketIntoBuf os1 ?fd (int (n_bufSize task)) = Inr (0, [], os1)"
    using o1(1,2) assms(10) by (simp add: readSocketIntoBuf_def sys_read_def set_incoming_same)
  have t1: "n_socket_fd t1 = ?fd" "n_bufSize t1 = n_bufSize task" "n_taskPos t1 = 1"
    "n_fileName t1 = Dead_array"
    by (simp_all add: t1_def)
  have c1: "three_worker_case_1 os1 t1 = Inr (None, os1, t2)"
    using rd t1 by (simp add: three_worker_case_1_def store_def t2_def)
  have t2: "n_socket_fd t2 = ?fd" "n_bufSize t2 = n_bufSize task" "n_bufPos t2 = 0"
    "n_fileName t2 = Dead_array"
    by (simp_all add: t2_def t1 resetHelper_def)
  define b3 where "b3 = iStatus # READY @ replicate (n_bufSize task - 16) NUL"
  define os2 where "os2 = accept_bytes os1 ?fd (iStatus # READY @ [NUL])"
  obtain n where n: "n_bufSize task = n + 17" using assms(10) le_Suc_ex by (metis add.commute)
  have b3: "take 17 b3 = iStatus # READY @ [NUL]" "17 \<le> length b3"
    by (simp_all add: b3_def n)
  have init: "initateTaskBuf t2 iStatus READY = Inr (t2\<lparr>n_buf := b3\<rparr>)"
    using t2(2) assms(10) by (simp add: initateTaskBuf_def b3_def)
  have "writeBufIntoSocket os1 ?fd b3 17 = Inr (17, os2)"
    using o1(1,3) b3 by (simp add: writeBufIntoSocket_def sys_write_def os2_def)
  then have c2: "write_case iStatus READY os1 t2 = Inr (None, os2, resetHelper (t2\<lparr>n_buf := b3\<rparr>))"
    using init t2 by (simp add: write_case_def)
  have "handleTaskThreeWorker os task = Inr (0, os2, (resetHelper (t2\<lparr>n_buf := b3\<rparr>))\<lparr>n_taskNo := 4\<rparr>)"
    using assms(6) c0[folded t1_def] c1 c2
    by (simp add: handleTaskThreeWorker_def fall_through_def zero_case_2_def)
  then show thesis
    by (rule that) (use o1 t2 in \<open>simp_all add: resetHelper_def os2_def accept_bytes_sock\<close>)
qed

lemma late_piece_runs_dead_name:
  assumes "n_taskNo task = 0" "handleTaskThreeWorker os task = Inr (0, os', task')"
    "n_fileName task' = Dead_array"
  shows "manageTaskWorker os task = Inl Out_of_bounds"
  using assms by (simp add: manageTaskWorker_def runBinaryFileT_def)

end
