(* ===== verification/Old_Programs.thy ===== *)
theory Old_Programs
  imports Old_Messages Process_Start
begin

text \<open>
  The programs of \<^verbatim>\<open>src/deprecated\<close> around the node list, the scheduler and the task manager: its \<^verbatim>\<open>master.c\<close>,
  \<^verbatim>\<open>worker.c\<close>, \<^verbatim>\<open>interface.c\<close> and \<^verbatim>\<open>main.c\<close>. What the system calls that set up sockets return is an argument.
\<close>

section \<open>The master\<close>

record old_master =
  om_state :: old_state
  om_os :: osys
  workerList :: ptr
  interfaceList :: ptr

definition setUpMaster :: "int \<Rightarrow> int \<Rightarrow> int \<Rightarrow> int \<Rightarrow> int" where
  "setUpMaster socket_result getaddrinfo_result bind_result listen_result =
     (if getaddrinfo_result \<noteq> 0 then - 1 else if bind_result \<noteq> 0 then - 1
      else if listen_result \<noteq> 0 then - 1 else socket_result)"

definition old_setUpUDPServer :: "int \<Rightarrow> int \<Rightarrow> int" where
  "old_setUpUDPServer socket_result bind_result =
     (if socket_result < 0 then - 1 else if bind_result < 0 then - 1 else socket_result)"

text \<open>\<open>got\<close> is the connection that \<^verbatim>\<open>accept4\<close> found, with the text of its address.\<close>

definition addAnyIncomingConnections ::
  "old_node \<Rightarrow> (int \<times> string) option \<Rightarrow> int \<Rightarrow> old_master \<Rightarrow> (int \<times> old_master) res" where
  "addAnyIncomingConnections raw got mode m =
     (case got of
        None \<Rightarrow> Inr (- 1, m)
      | Some (client_fd, client_address) \<Rightarrow>
          if mode = 0 then
            bindr (addNode raw client_fd client_address (workerList m) (om_state m)) (\<lambda>(first, s).
              Inr (client_fd, m\<lparr>workerList := first, om_state := s\<rparr>))
          else
            bindr (addNode raw client_fd client_address (interfaceList m) (om_state m)) (\<lambda>(first, s).
              Inr (client_fd, m\<lparr>interfaceList := first, om_state := s\<rparr>)))"

text \<open>One turn of the loop of \<^verbatim>\<open>master_main\<close>; the scheduler reads its file from the descriptor it is given,
  the one new clients connect to.\<close>

definition old_master_turn ::
  "old_node \<Rightarrow> (int \<times> string) option \<Rightarrow> (int \<times> string) option \<Rightarrow> int \<Rightarrow> int \<Rightarrow> old_master \<Rightarrow> (int option \<times> old_master) res"
  where
  "old_master_turn raw new_worker new_client incomingFdWorker incomingFdClient m =
     (if incomingFdWorker \<noteq> - 1 \<and> incomingFdClient \<noteq> - 1 then
        bindr (addAnyIncomingConnections raw new_worker 0 m) (\<lambda>(_, m).
        bindr (addAnyIncomingConnections raw new_client 1 m) (\<lambda>(_, m).
        bindr (getBinaryFile (om_os m) incomingFdClient ''test'') (\<lambda>(file_name, os).
        bindr (scheduler file_name (om_state m) (workerList m)) (\<lambda>s.
        bindr (bindr (or_fault Diverges (manageTaskMaster os s (workerList m))) (\<lambda>r. r)) (\<lambda>(os, s).
          Inr (None, m\<lparr>om_os := os, om_state := s\<rparr>))))))
      else Inr (Some (- 1), m))"

definition reportHeartbeat :: "string \<Rightarrow> dbl \<Rightarrow> dbl \<Rightarrow> ptr \<Rightarrow> old_state \<Rightarrow> old_state res" where
  "reportHeartbeat beat_addr client_usage time_received workers s =
     bindr (bindr (or_fault Diverges (searchNodeByAddr s beat_addr workers)) (\<lambda>r. r)) (\<lambda>reported_node.
       if reported_node \<noteq> NULL then
         bindr (set_last_beat_received_time s reported_node time_received) (\<lambda>s.
           set_load s reported_node client_usage)
       else Inr s)"

text \<open>One turn of the loop of \<^verbatim>\<open>listenToHeartbeat\<close>; nothing ends it.\<close>

definition old_listen_turn ::
  "(string \<Rightarrow> dbl) \<Rightarrow> char list \<Rightarrow> (string \<times> char list) option \<Rightarrow> dbl \<Rightarrow> ptr \<Rightarrow> old_state \<Rightarrow> old_state res" where
  "old_listen_turn other raw got t workers s =
     (let buffer = (case got of None \<Rightarrow> raw | Some (_, d) \<Rightarrow> take 50 d @ drop (length (take 50 d)) raw) in
      bindr (read_number buffer) (\<lambda>text.
        let client_usage = atof other text in
        case got of None \<Rightarrow> Inr s | Some (beat_addr, _) \<Rightarrow> reportHeartbeat beat_addr client_usage t workers s))"

text \<open>One pass of \<^verbatim>\<open>keepNodesInCheck\<close>: it stops at the first dead node. \<open>clock\<close> gives the time at which
  the pass comes to a node.\<close>

partial_function (option) check_loop :: "(ptr \<Rightarrow> dbl) \<Rightarrow> ptr \<Rightarrow> old_state \<Rightarrow> old_state res option" where
  "check_loop clock cur s =
     (if cur \<noteq> NULL then
        (case get_last_heartbeat_time s cur of
           Inl e \<Rightarrow> Some (Inl e)
         | Inr beat \<Rightarrow>
             if beat \<noteq> Num 0 \<and> Num 3 < clock cur - beat then
               Some (bindr (set_alive s cur 0) (\<lambda>s. recover_tasks s cur))
             else (case get_next s cur of
                 Inl e \<Rightarrow> Some (Inl e)
               | Inr nx \<Rightarrow> check_loop clock nx s))
      else Some (Inr s))"

definition keepNodesInCheck :: "(ptr \<Rightarrow> dbl) \<Rightarrow> ptr \<Rightarrow> old_state \<Rightarrow> old_state res" where
  "keepNodesInCheck clock workers s = bindr (or_fault Diverges (check_loop clock workers s)) (\<lambda>r. r)"

text \<open>A second worker cannot connect; and the first node that dies before there was a task takes the
  master with it, because the queue does not exist yet.\<close>

lemma second_connection_deadlocks:
  assumes "\<not> o_mutex (om_state m)" "(if mode = 0 then workerList m else interfaceList m) \<noteq> NULL"
  shows "addAnyIncomingConnections raw (Some (fd, addr)) mode m = Inl Deadlock"
  using assms by (auto simp: addAnyIncomingConnections_def addNode_deadlocks)

lemma first_connection:
  assumes "\<not> o_mutex (om_state m)" "workerList m = NULL" "o_fresh (om_state m) \<noteq> NULL"
  obtains m' where "addAnyIncomingConnections raw (Some (fd, addr)) 0 m = Inr (fd, m')"
    "workerList m' = o_fresh (om_state m)" "\<not> o_mutex (om_state m')" "interfaceList m' = interfaceList m"
  using that assms by (simp add: addAnyIncomingConnections_def addNode_def Let_def)

lemma dead_node_without_queue:
  assumes "\<not> o_mutex s" "o_nodes s w = Some n" "w \<noteq> NULL" "n_beat n \<noteq> Num 0"
    "Num 3 < clock w - n_beat n" "o_queue s = None"
  shows "keepNodesInCheck clock w s = Inl Null_deref"
  using assms
  by (simp add: keepNodesInCheck_def check_loop.simps get_last_heartbeat_time_def old_read_def set_alive_def
      old_write_def recover_tasks_def push_task_def del: dbl_ops)

section \<open>The worker\<close>

text \<open>\<^verbatim>\<open>curTask\<close> has no name and no task yet.\<close>

definition setupNode :: "char list \<Rightarrow> int \<Rightarrow> old_node \<Rightarrow> old_node" where
  "setupNode raw socket_fd curTask = curTask\<lparr>n_socket_fd := socket_fd, n_alive := 1, n_load := Num 0,
     n_taskNo := 0, n_taskPos := 0, n_next := NULL, n_beat := Num 0, n_bufSize := 4096, n_bufPos := 0,
     n_buf := raw, n_bufWIP := 0\<rparr>"

text \<open>The results of the calls of \<^verbatim>\<open>select\<close>: at most five turns.\<close>

fun select_loop :: "nat \<Rightarrow> int list \<Rightarrow> bool" where
  "select_loop i (checkVal # rest) =
     (if checkVal = - 1 then False else if 0 < checkVal then True
      else if i = 5 then False else select_loop (i + 1) rest)"
| "select_loop i [] = False"

definition setUpWorker :: "int \<Rightarrow> int \<Rightarrow> int \<Rightarrow> bool \<Rightarrow> int list \<Rightarrow> int" where
  "setUpWorker socket_result getaddrinfo_result connect_result in_progress selects =
     (if getaddrinfo_result \<noteq> 0 then - 1
      else if connect_result = - 1 then
        (if \<not> in_progress then - 1 else if select_loop 1 selects then socket_result else - 1)
      else socket_result)"

definition old_setUpUDPClient :: "int \<Rightarrow> int" where
  "old_setUpUDPClient socket_result = (if socket_result < 0 then - 1 else socket_result)"

text \<open>The address typed at the terminal; \<open>line\<close> is what \<^verbatim>\<open>read\<close> returned.\<close>

definition worker_address :: "string \<Rightarrow> char list \<Rightarrow> string res" where
  "worker_address defaultMaster line =
     (if length line = 1 then Inr defaultMaster
      else if line = [] then Inl Out_of_bounds else Inr (cstr (butlast line)))"

definition old_threadManager :: "string \<Rightarrow> string \<Rightarrow> string res" where
  "old_threadManager name exec_num =
     (let command = name @ '' &> output'' @ exec_num in
      if 4096 < length command + 1 then Inl Out_of_bounds else Inr command)"

definition runBinaryFile :: "string option \<Rightarrow> nat \<Rightarrow> (string \<times> nat) res" where
  "runBinaryFile name exec_num =
     (case name of None \<Rightarrow> Inl (Exits 0)
      | Some nm \<Rightarrow> bindr (old_threadManager nm (digits (exec_num + 1))) (\<lambda>command. Inr (command, exec_num + 1)))"

text \<open>Only the text is sent, without its null byte.\<close>

definition sendHeartbeat ::
  "(dbl \<Rightarrow> string) \<Rightarrow> (char list \<Rightarrow> int) \<Rightarrow> string option \<Rightarrow> dbl \<Rightarrow> int res" where
  "sendHeartbeat format sendto he cpu_usage =
     (case he of None \<Rightarrow> Inl Null_deref
      | Some ip \<Rightarrow>
          (let message = format cpu_usage @ [NUL] in
           if 50 < length message then Inl Out_of_bounds
           else if sendto (cstr message) < 0 then Inr (- 1) else Inr 0))"

definition old_get_local_usage ::
  "(dbl \<times> dbl \<times> dbl \<times> dbl) option \<Rightarrow> (dbl \<times> dbl \<times> dbl \<times> dbl) option \<Rightarrow> dbl" where
  "old_get_local_usage a b = get_local_usage a b"

section \<open>The interface\<close>

record old_interface =
  i_os :: osys
  i_fd :: int
  i_buffer :: "char list"
  i_bufferSize :: nat
  i_pos :: int
  i_tmpFP :: int

text \<open>\<^verbatim>\<open>bufferSize\<close> is a global variable that nothing sets.\<close>

definition old_interface_start :: "osys \<Rightarrow> int \<Rightarrow> old_interface" where
  "old_interface_start os sock = \<lparr>i_os = os, i_fd = sock, i_buffer = replicate 4096 NUL, i_bufferSize = 0,
     i_pos = 0, i_tmpFP = 0\<rparr>"

definition data_case_1 :: "old_interface \<Rightarrow> (int \<times> old_interface) res" where
  "data_case_1 c =
     bindr (readSocketIntoBuf (i_os c) (i_fd c) (int (i_bufferSize c))) (\<lambda>(bytesRead, bs, os).
       let c = c\<lparr>i_os := os, i_buffer := store 0 bs (i_buffer c)\<rparr> in
       if bytesRead = - 1 then Inl Out_of_bounds
       else if bytesRead \<noteq> 0 then
         Inr (1, c\<lparr>i_os := snd (sys_write os (i_tmpFP c) (take (nat bytesRead) (i_buffer c)))\<rparr>)
       else Inr (0, c))"

definition handleData :: "old_interface \<Rightarrow> (int \<times> old_interface) res" where
  "handleData c =
     (if i_pos c = 0 then
        (case sys_read (i_os c) (i_fd c) (i_bufferSize c) of
           (RBlock, _) \<Rightarrow> Inl Blocks
         | (r, os) \<Rightarrow>
             (let bs = (case r of RData bs \<Rightarrow> bs | _ \<Rightarrow> []);
                  bytesRead = (case r of RData bs \<Rightarrow> int (length bs) | _ \<Rightarrow> - 1);
                  c = c\<lparr>i_os := os, i_buffer := store 0 bs (i_buffer c)\<rparr> in
              bindr (c_string (i_buffer c)) (\<lambda>name.
                if length name \<le> 1 then Inr (- 1, c)
                else if 1024 < length name + 1 then Inl Out_of_bounds
                else
                  (let (fp, os) = getFdForWriteFile (i_os c) name; c = c\<lparr>i_os := os, i_tmpFP := fp\<rparr> in
                   if fp = - 1 then Inr (- 1, c)
                   else if bytesRead - 1 - int (length name) < 0 then Inl Out_of_bounds
                   else data_case_1 (c\<lparr>i_pos := 1, i_os := snd (sys_write os fp
                     (take (nat (bytesRead - 1 - int (length name))) (drop (length name + 1) (i_buffer c))))\<rparr>)))))
      else if i_pos c = 1 then data_case_1 c
      else Inr (0, c))"

definition setUpClient :: "int \<Rightarrow> int \<Rightarrow> int \<Rightarrow> bool \<Rightarrow> int list \<Rightarrow> int" where
  "setUpClient socket_result getaddrinfo_result connect_result in_progress selects =
     (if getaddrinfo_result \<noteq> 0 then - 1
      else if connect_result = - 1 then
        (if \<not> in_progress then - 1 else if select_loop 1 selects then socket_result else - 1)
      else socket_result)"

text \<open>The loops that send a file have the text of those of \<^verbatim>\<open>src/interface.c\<close>.\<close>

definition old_my_write :: "osys \<Rightarrow> int \<Rightarrow> char list \<Rightarrow> int \<times> osys" where
  "old_my_write os sock buffer = my_write os sock buffer"

definition old_write_binary_data :: "osys \<Rightarrow> int \<Rightarrow> char list \<Rightarrow> osys" where
  "old_write_binary_data os sock f = write_binary_data os sock f"

text \<open>The names typed after the number of programs; a name goes into a buffer of 16 bytes.\<close>

fun send_named :: "(string \<Rightarrow> bool) \<Rightarrow> string list \<Rightarrow> nat \<Rightarrow> old_interface \<Rightarrow> old_interface res" where
  "send_named executable names 0 c = Inr c"
| "send_named executable [] (Suc k) c = Inl Blocks"
| "send_named executable (name # names) (Suc k) c =
     (if 16 < length name + 1 then Inl Out_of_bounds
      else if executable name then
        (if may_read (i_os c) name
         then send_named executable names k
           (c\<lparr>i_os := old_write_binary_data (i_os c) (i_fd c) (file_bytes (i_os c) name)\<rparr>)
         else Inl Null_deref)
      else send_named executable names k c)"

definition wait_for_input :: "(string \<Rightarrow> bool) \<Rightarrow> nat \<Rightarrow> string list \<Rightarrow> old_interface \<Rightarrow> (int \<times> old_interface) res" where
  "wait_for_input executable numExec names c =
     bindr (send_named executable names numExec c) (\<lambda>c. bindr (handleData c) (\<lambda>(_, c). Inr (0, c)))"

text \<open>\<^verbatim>\<open>handleData\<close> never gets a byte.\<close>

lemma handleData_gives_up:
  assumes "fds os sock = Some (Sock nb)"
  shows "handleData (old_interface_start os sock) = Inr (- 1, old_interface_start os sock)"
  using assms
  by (simp add: handleData_def old_interface_start_def sys_read_def store_def c_string_def cstr_def Let_def)

section \<open>\<^verbatim>\<open>main.c\<close>\<close>

datatype old_program = Old_client | Old_master | Old_server

definition old_main_program :: "char list \<Rightarrow> old_program option" where
  "old_main_program line =
     (if length line \<noteq> 2 then None
      else if line = ''0'' @ [NEWLINE] then Some Old_client
      else if line = ''1'' @ [NEWLINE] then Some Old_master
      else if line = ''2'' @ [NEWLINE] then Some Old_server
      else None)"

end
