(* ===== verification/Old_Processes.thy ===== *)
theory Old_Processes
  imports Old_Programs
begin

text \<open>
  The processes of \<^verbatim>\<open>src/deprecated\<close>: start-up and threads of its master and its worker as step relations
  over the functions of \<open>Old_Programs\<close>, and its interface from start to end. A turn of a loop is one
  step; a turn that has no result has no successor.
\<close>

section \<open>The master\<close>

text \<open>Nothing sets \<^verbatim>\<open>runningM\<close> or \<^verbatim>\<open>keepalive\<close> to 0. \<open>p_returned\<close>: \<^verbatim>\<open>master_main\<close> has returned, which ends the
  process.\<close>

record old_master_process =
  p_old_master :: old_master
  p_fd_worker :: int
  p_fd_client :: int
  p_returned :: bool

definition old_master_start :: "osys \<Rightarrow> old_master" where
  "old_master_start os = \<lparr>om_state = \<lparr>o_nodes = Map.empty, o_fresh = 1, o_mutex = False, o_queue = None,
     o_tasks = Map.empty\<rparr>, om_os = os, workerList = NULL, interfaceList = NULL\<rparr>"

text \<open>The results of the calls in the two runs of \<^verbatim>\<open>setUpMaster\<close>.\<close>

definition old_master_main ::
  "int \<times> int \<times> int \<times> int \<Rightarrow> int \<times> int \<times> int \<times> int \<Rightarrow> osys \<Rightarrow> old_master_process" where
  "old_master_main worker_calls client_calls os =
     \<lparr>p_old_master = old_master_start os,
      p_fd_worker = (case worker_calls of (s, g, b, l) \<Rightarrow> setUpMaster s g b l),
      p_fd_client = (case client_calls of (s, g, b, l) \<Rightarrow> setUpMaster s g b l), p_returned = False\<rparr>"

inductive old_master_step :: "old_master_process \<Rightarrow> old_master_process \<Rightarrow> bool" where
  turn: "\<not> p_returned p \<Longrightarrow>
    old_master_turn raw new_worker new_client (p_fd_worker p) (p_fd_client p) (p_old_master p) = Inr (r, m) \<Longrightarrow>
    old_master_step p (p\<lparr>p_old_master := m, p_returned := (r \<noteq> None)\<rparr>)"
| hears: "\<not> p_returned p \<Longrightarrow>
    old_listen_turn other rawbuf got t (workerList (p_old_master p)) (om_state (p_old_master p)) = Inr s \<Longrightarrow>
    old_master_step p (p\<lparr>p_old_master := (p_old_master p)\<lparr>om_state := s\<rparr>\<rparr>)"
| checks: "\<not> p_returned p \<Longrightarrow>
    keepNodesInCheck clock (workerList (p_old_master p)) (om_state (p_old_master p)) = Inr s \<Longrightarrow>
    old_master_step p (p\<lparr>p_old_master := (p_old_master p)\<lparr>om_state := s\<rparr>\<rparr>)"
| arrives: "\<not> p_returned p \<Longrightarrow>
    old_master_step p (p\<lparr>p_old_master := (p_old_master p)\<lparr>om_os := feed (om_os (p_old_master p)) fd es\<rparr>\<rparr>)"

inductive old_master_reach :: "old_master_process \<Rightarrow> old_master_process \<Rightarrow> bool" for p0 where
  start: "old_master_reach p0 p0"
| step: "old_master_reach p0 p \<Longrightarrow> old_master_step p p' \<Longrightarrow> old_master_reach p0 p'"

text \<open>Every node is the only one of its list and has no task.\<close>

definition node_idle :: "old_node \<Rightarrow> bool" where
  "node_idle n \<longleftrightarrow> n_next n = NULL \<and> n_task_list n = replicate MAX_TASKS_PER_NODE NULL"

definition nodes_idle :: "old_state \<Rightarrow> bool" where
  "nodes_idle s \<longleftrightarrow> \<not> o_mutex s \<and> (\<forall>n \<in> ran (o_nodes s). node_idle n)
     \<and> (\<forall>q. o_queue s = Some q \<longrightarrow> (\<exists>ds. queue_holds q ds))"

definition old_master_ok :: "old_master \<Rightarrow> bool" where
  "old_master_ok m \<longleftrightarrow> nodes_idle (om_state m)
     \<and> (\<forall>p \<in> {workerList m, interfaceList m}. p \<noteq> NULL \<longrightarrow> p \<in> dom (o_nodes (om_state m)))"

lemma nodes_idle_put:
  "nodes_idle s \<Longrightarrow> node_idle n \<Longrightarrow> nodes_idle (s\<lparr>o_nodes := (o_nodes s)(p \<mapsto> n)\<rparr>)"
  by (auto simp: nodes_idle_def ran_def)

lemma nodes_idleD: "nodes_idle s \<Longrightarrow> o_nodes s p = Some n \<Longrightarrow> node_idle n"
  by (auto simp: nodes_idle_def ran_def)

text \<open>Writing a field that is neither \<^verbatim>\<open>next\<close> nor the tasks.\<close>

lemma nodes_idle_write:
  assumes "nodes_idle s" "old_write change s p = Inr s'" "\<And>n. node_idle n \<Longrightarrow> node_idle (change n)"
  shows "nodes_idle s' \<and> dom (o_nodes s) \<subseteq> dom (o_nodes s')"
  using assms nodes_idleD[OF assms(1), of p]
  by (auto simp: old_write_def bindr_eq_Inr deref_def or_fault_Inr intro!: nodes_idle_put split: if_splits option.splits)

lemma nodes_idle_push:
  assumes "nodes_idle s" "push_task s t = Inr s'"
  shows "nodes_idle s' \<and> o_nodes s' = o_nodes s"
proof -
  obtain q where q: "o_queue s = Some q" using assms(2) by (auto simp: push_task_def bindr_eq_Inr or_fault_Inr)
  then obtain ds where "queue_holds q ds" using assms(1) by (auto simp: nodes_idle_def)
  then obtain q' where "push_task s t = Inr (s\<lparr>o_queue := Some q'\<rparr>)" "queue_holds q' (ds @ [t])"
    using push_task_appends[OF q] by blast
  then show ?thesis using assms by (auto simp: nodes_idle_def)
qed

lemma nodes_idle_schedule:
  assumes "nodes_idle s" "scheduler f s workers = Inr s'"
  shows "nodes_idle s' \<and> o_nodes s' = o_nodes s"
proof (cases f)
  case None
  then show ?thesis using assms by (simp add: scheduler_def)
next
  case (Some nm)
  define s1 where "s1 = s\<lparr>o_fresh := o_fresh s + 1, o_tasks := (o_tasks s)(o_fresh s \<mapsto> nm)\<rparr>"
  define s2 where "s2 = (if o_queue s1 = None then s1\<lparr>o_queue := Some old_queue_create\<rparr> else s1)"
  have s2: "nodes_idle s2" "o_nodes s2 = o_nodes s"
    using assms(1) by (auto simp: s1_def s2_def nodes_idle_def old_queue_create_def intro: queue_create_holds)
  obtain s3 where s3: "push_task s2 (o_fresh s) = Inr s3" "get_task_from_queue_onto_nodes s3 workers = Inr s'"
  proof -
    have "bindr (schedule_task s1 (o_fresh s)) (\<lambda>s. get_task_from_queue_onto_nodes s workers) = Inr s'"
      using assms(2) Some by (simp add: scheduler_def s1_def Let_def)
    moreover have "schedule_task s1 (o_fresh s) = push_task s2 (o_fresh s)"
      by (simp add: schedule_task_def s2_def)
    ultimately show thesis using that by (auto simp: bindr_eq_Inr)
  qed
  note i3 = nodes_idle_push[OF s2(1) s3(1)]
  obtain q where q: "o_queue s3 = Some q" using s3(1) by (auto simp: push_task_def bindr_eq_Inr)
  then obtain ds where "queue_holds q ds" using i3 by (auto simp: nodes_idle_def)
  from assign_requeues[OF s3(2) q this] i3 s2(2) show ?thesis by (auto simp: nodes_idle_def)
qed

text \<open>The handlers of the task manager touch neither field.\<close>

definition keeps_place :: "old_node \<Rightarrow> old_node \<Rightarrow> bool" where
  "keeps_place a b \<longleftrightarrow> n_next b = n_next a \<and> n_task_list b = n_task_list a"

lemma keeps_place_refl [simp]: "keeps_place a a"
  by (simp add: keeps_place_def)

lemma keeps_place_trans: "keeps_place a b \<Longrightarrow> keeps_place b c \<Longrightarrow> keeps_place a c"
  by (simp add: keeps_place_def)

lemmas case_defs = read_case_def write_case_def three_case_0_def updateBuf_def resetHelper_def
  initateTaskBuf_def Let_def bindr_eq_Inr

lemma cases_keep_place:
  "read_case lit os n = Inr (r, os', n') \<Longrightarrow> keeps_place n n'"
  "write_case info lit os n = Inr (r, os', n') \<Longrightarrow> keeps_place n n'"
  "three_case_0 os n = Inr (r, os', n') \<Longrightarrow> keeps_place n n'"
  by (auto simp: case_defs keeps_place_def split: if_splits prod.splits sum.splits rd.splits)

lemma fall_through_keeps_place:
  assumes "fall_through c rest = Inr (v, os', n')" "\<And>r os1 n1. c = Inr (r, os1, n1) \<Longrightarrow> keeps_place n n1"
    "\<And>os1 n1 v. rest os1 n1 = Inr (v, os', n') \<Longrightarrow> keeps_place n1 n'"
  shows "keeps_place n n'"
  using assms keeps_place_trans
  by (auto simp: fall_through_def bindr_eq_Inr split: option.splits)

lemma one_case_2_keeps_place: "one_case_2 os n = Inr (v, os', n') \<Longrightarrow> keeps_place n n'"
  unfolding one_case_2_def
  by (erule fall_through_keeps_place) (auto dest: cases_keep_place simp: keeps_place_def taskDone_def)

lemma one_case_1_keeps_place: "one_case_1 os n = Inr (v, os', n') \<Longrightarrow> keeps_place n n'"
  unfolding one_case_1_def
  by (erule fall_through_keeps_place) (auto dest: cases_keep_place one_case_2_keeps_place)

lemma handleTaskOne_keeps_place: "handleTaskOne os n = Inr (v, os', n') \<Longrightarrow> keeps_place n n'"
  by (auto simp: handleTaskOne_def one_case_1_keeps_place one_case_2_keeps_place cases_keep_place
      elim: fall_through_keeps_place split: if_splits)

lemma handleTaskThree_keeps_place: "handleTaskThree os n = Inr (v, os', n') \<Longrightarrow> keeps_place n n'"
  by (auto simp: handleTaskThree_def one_case_2_keeps_place cases_keep_place
      elim: fall_through_keeps_place split: if_splits)

lemma manage_node_keeps_place: "manage_node os n = Inr (os', n') \<Longrightarrow> keeps_place n n'"
  by (auto simp: manage_node_def bindr_eq_Inr keeps_place_def[of n]
      dest: handleTaskOne_keeps_place handleTaskThree_keeps_place split: if_splits)

lemma nodes_idle_manage:
  assumes "nodes_idle s" "manageTaskMaster os s p = Some (Inr (os', s'))"
  shows "nodes_idle s' \<and> dom (o_nodes s) \<subseteq> dom (o_nodes s')"
proof (cases "p = NULL")
  case True
  then show ?thesis using assms by (simp add: manageTaskMaster.simps)
next
  case False
  then obtain n where n: "o_nodes s p = Some n"
    using assms(2) by (cases "o_nodes s p") (auto simp: manageTaskMaster.simps[of os s p] deref_def)
  then obtain os1 n1 where n1: "manage_node os n = Inr (os1, n1)"
    "manageTaskMaster os1 (s\<lparr>o_nodes := (o_nodes s)(p \<mapsto> n1)\<rparr>) (n_next n1) = Some (Inr (os', s'))"
    using assms(2) False
    by (auto simp: manageTaskMaster.simps[of os s p] deref_def split: sum.splits prod.splits)
  have i: "node_idle n1" using nodes_idleD[OF assms(1) n] manage_node_keeps_place[OF n1(1)]
    by (simp add: node_idle_def keeps_place_def)
  then have "s' = s\<lparr>o_nodes := (o_nodes s)(p \<mapsto> n1)\<rparr>"
    using n1(2) by (simp add: node_idle_def manageTaskMaster.simps)
  then show ?thesis using nodes_idle_put[OF assms(1) i] by auto
qed

lemma nodes_idle_check:
  assumes "nodes_idle s" "keepNodesInCheck clock p s = Inr s'"
  shows "nodes_idle s' \<and> dom (o_nodes s) \<subseteq> dom (o_nodes s')"
proof (cases "p = NULL")
  case True
  then show ?thesis using assms by (simp add: keepNodesInCheck_def check_loop.simps)
next
  case False
  have free: "\<not> o_mutex s" using assms(1) by (simp add: nodes_idle_def)
  obtain n where n: "o_nodes s p = Some n"
    using assms(2) False free
    by (cases "o_nodes s p")
      (auto simp: keepNodesInCheck_def check_loop.simps[of clock p s] get_last_heartbeat_time_def old_read_def
        deref_def)
  then have last: "get_next s p = Inr NULL" "get_last_heartbeat_time s p = Inr (n_beat n)"
    using nodes_idleD[OF assms(1) n] False free
    by (auto simp: get_next_def get_last_heartbeat_time_def old_read_def deref_def node_idle_def)
  show ?thesis
  proof (cases "n_beat n \<noteq> Num 0 \<and> Num 3 < clock p - n_beat n")
    case True
    then obtain s1 where s1: "set_alive s p 0 = Inr s1" "recover_tasks s1 p = Inr s'"
      using assms(2) last False
      by (auto simp: keepNodesInCheck_def check_loop.simps[of clock p s] bindr_eq_Inr simp del: dbl_ops)
    have i1: "nodes_idle s1 \<and> dom (o_nodes s) \<subseteq> dom (o_nodes s1)"
      using s1(1) unfolding set_alive_def by (rule nodes_idle_write[OF assms(1)]) (simp add: node_idle_def)
    then show ?thesis using s1(2) nodes_idle_push[of s1 _ s'] False
      by (auto simp: recover_tasks_def bindr_eq_Inr)
  next
    case False
    then have "s' = s" using assms(2) last \<open>p \<noteq> NULL\<close>
      by (auto simp: keepNodesInCheck_def check_loop.simps[of clock p s] check_loop.simps[of clock NULL s]
          simp del: dbl_ops split: if_splits)
    then show ?thesis using assms(1) by simp
  qed
qed

lemma nodes_idle_report:
  assumes "nodes_idle s" "reportHeartbeat a u t p s = Inr s'"
  shows "nodes_idle s' \<and> dom (o_nodes s) \<subseteq> dom (o_nodes s')"
proof -
  consider "s' = s"
    | q s1 where "set_last_beat_received_time s q t = Inr s1" "set_load s1 q u = Inr s'"
    using assms(2) by (auto simp: reportHeartbeat_def bindr_eq_Inr split: if_splits)
  then show ?thesis
  proof cases
    case 1
    then show ?thesis using assms(1) by simp
  next
    case (2 q s1)
    have "nodes_idle s1 \<and> dom (o_nodes s) \<subseteq> dom (o_nodes s1)"
      using 2(1) unfolding set_last_beat_received_time_def
      by (rule nodes_idle_write[OF assms(1)]) (simp add: node_idle_def)
    moreover from this have "nodes_idle s' \<and> dom (o_nodes s1) \<subseteq> dom (o_nodes s')"
      using 2(2) unfolding set_load_def
      by (intro nodes_idle_write[of s1 "\<lambda>n. n\<lparr>n_load := u\<rparr>" q s']) (auto simp: node_idle_def)
    ultimately show ?thesis by blast
  qed
qed

text \<open>A connection is added to an empty list or not at all.\<close>

lemma old_master_ok_accept:
  assumes "old_master_ok m" "addAnyIncomingConnections raw got mode m = Inr (r, m')"
  shows "old_master_ok m'"
proof (cases got)
  case None
  then show ?thesis using assms by (simp add: addAnyIncomingConnections_def)
next
  case (Some c)
  obtain fd addr where c: "c = (fd, addr)" by (cases c)
  have free: "\<not> o_mutex (om_state m)" using assms(1) by (simp add: old_master_ok_def nodes_idle_def)
  then have empty: "(if mode = 0 then workerList m else interfaceList m) = NULL"
    using second_connection_deadlocks[OF free, of mode raw fd addr] assms(2) Some c by fastforce
  define n where "n = raw\<lparr>n_socket_fd := fd, n_alive := 1, n_load := Num 0, n_taskNo := 0, n_taskPos := 0,
    n_next := NULL, n_address := addr, n_beat := Num 0, n_bufSize := 4096, n_bufPos := 0, n_bufWIP := 0,
    n_num_of_task := 0, n_task_list := replicate MAX_TASKS_PER_NODE NULL, n_fileName := Own_buffer\<rparr>"
  define s where "s = (om_state m)\<lparr>o_fresh := o_fresh (om_state m) + 1,
    o_nodes := (o_nodes (om_state m))(o_fresh (om_state m) \<mapsto> n), o_mutex := False\<rparr>"
  have "nodes_idle s"
    using assms(1) by (auto simp: s_def n_def old_master_ok_def nodes_idle_def node_idle_def ran_def)
  moreover have "addNode raw fd addr NULL (om_state m) = Inr (o_fresh (om_state m), s)"
    using free by (simp add: addNode_def Let_def s_def n_def)
  moreover have "\<forall>p. o_nodes (om_state m) p \<noteq> None \<longrightarrow> o_nodes s p \<noteq> None" "o_nodes s (o_fresh (om_state m)) \<noteq> None"
    by (simp_all add: s_def)
  ultimately show ?thesis using assms empty Some c
    by (auto simp: addAnyIncomingConnections_def old_master_ok_def split: if_splits)
qed

lemma old_master_ok_state:
  "old_master_ok m \<Longrightarrow> nodes_idle s \<and> dom (o_nodes (om_state m)) \<subseteq> dom (o_nodes s) \<Longrightarrow>
    old_master_ok (m\<lparr>om_os := os, om_state := s\<rparr>)"
  by (auto simp: old_master_ok_def)

lemma old_master_ok_turn:
  assumes "old_master_ok m" "old_master_turn raw nw nc fw fc m = Inr (r, m')"
  shows "old_master_ok m'"
proof (cases "fw \<noteq> - 1 \<and> fc \<noteq> - 1")
  case False
  then show ?thesis using assms by (auto simp: old_master_turn_def)
next
  case True
  then obtain r1 m1 r2 m2 f os s os' s' where t: "addAnyIncomingConnections raw nw 0 m = Inr (r1, m1)"
    "addAnyIncomingConnections raw nc 1 m1 = Inr (r2, m2)"
    "scheduler f (om_state m2) (workerList m2) = Inr s"
    "manageTaskMaster os s (workerList m2) = Some (Inr (os', s'))" "m' = m2\<lparr>om_os := os', om_state := s'\<rparr>"
    using assms(2) by (auto simp: old_master_turn_def bindr_eq_Inr or_fault_Inr split: prod.splits)
  have m2: "old_master_ok m2" using old_master_ok_accept t(1,2) assms(1) by blast
  then have "nodes_idle s \<and> o_nodes s = o_nodes (om_state m2)"
    using nodes_idle_schedule t(3) by (auto simp: old_master_ok_def)
  then have "nodes_idle s' \<and> dom (o_nodes (om_state m2)) \<subseteq> dom (o_nodes s')"
    using nodes_idle_manage[OF _ t(4)] by auto
  then show ?thesis using old_master_ok_state[OF m2] t(5) by blast
qed

lemma old_master_step_ok:
  assumes "old_master_step p p'" "old_master_ok (p_old_master p)"
  shows "old_master_ok (p_old_master p')"
  using assms
proof (induction rule: old_master_step.induct)
  case (turn p raw nw nc r m)
  then show ?case using old_master_ok_turn by simp
next
  case (hears p other rawbuf got t s)
  then have "s = om_state (p_old_master p)
      \<or> (\<exists>a u. reportHeartbeat a u t (workerList (p_old_master p)) (om_state (p_old_master p)) = Inr s)"
    by (auto simp: old_listen_turn_def Let_def bindr_eq_Inr split: option.splits prod.splits)
  then have "nodes_idle s \<and> dom (o_nodes (om_state (p_old_master p))) \<subseteq> dom (o_nodes s)"
    using nodes_idle_report hears.prems unfolding old_master_ok_def by blast
  then show ?case using hears.prems by (auto simp: old_master_ok_def)
next
  case (checks p clock s)
  then have "nodes_idle s \<and> dom (o_nodes (om_state (p_old_master p))) \<subseteq> dom (o_nodes s)"
    using nodes_idle_check unfolding old_master_ok_def by blast
  then show ?case using checks.prems by (auto simp: old_master_ok_def)
next
  case (arrives p fd es)
  then show ?case by (simp add: old_master_ok_def)
qed

lemma old_master_reach_ok:
  "old_master_reach p0 p \<Longrightarrow> old_master_ok (p_old_master p0) \<Longrightarrow> old_master_ok (p_old_master p)"
  by (induction rule: old_master_reach.induct) (auto intro: old_master_step_ok)

lemma old_master_main_ok: "old_master_ok (p_old_master (old_master_main wc cc os))"
  by (simp add: old_master_main_def old_master_start_def old_master_ok_def nodes_idle_def)

section \<open>The worker\<close>

text \<open>\<^verbatim>\<open>cleanup\<close> is registered for SIGCHLD only; the line that registers it for SIGINT is a comment.\<close>

datatype old_signal = SIGCHLD | SIGINT

definition old_cleanup :: "old_signal \<Rightarrow> bool \<Rightarrow> bool" where
  "old_cleanup sig runningC = (case sig of SIGCHLD \<Rightarrow> runningC | SIGINT \<Rightarrow> False)"

record old_worker =
  ow_os :: osys
  curTask :: old_node
  runningC :: bool

text \<open>A global struct before anything was stored in it.\<close>

definition static_node :: old_node where
  "static_node = \<lparr>n_socket_fd = 0, n_alive = 0, n_taskNo = 0, n_taskPos = 0, n_bufSize = 0, n_bufPos = 0,
     n_bufWIP = 0, n_buf = [], n_load = Num 0, n_beat = Num 0, n_address = [], n_task_list = replicate 5 NULL,
     n_num_of_task = 0, n_tmpFP = 0, n_fileName = No_name, n_tmpTask = None, n_next = NULL\<rparr>"

text \<open>\<open>line\<close> is what \<^verbatim>\<open>read\<close> returned, \<open>None\<close> an error; \<open>calls\<close> are the results of the calls of
  \<^verbatim>\<open>setUpWorker\<close> for an address, \<open>raw\<close> is the memory for the buffer.\<close>

definition server_main ::
  "string \<Rightarrow> char list option \<Rightarrow> (string \<Rightarrow> int \<times> int \<times> int \<times> bool \<times> int list) \<Rightarrow> char list \<Rightarrow> osys \<Rightarrow>
    old_worker option res" where
  "server_main defaultMaster line calls raw os =
     bindr (or_fault Out_of_bounds line) (\<lambda>line.
     bindr (worker_address defaultMaster line) (\<lambda>addr.
       let socketFd = (case calls addr of (s, g, c, p, sel) \<Rightarrow> setUpWorker s g c p sel) in
       if socketFd = - 1 then Inr None
       else Inr (Some \<lparr>ow_os = os, curTask = setupNode raw socketFd static_node, runningC = True\<rparr>)))"

inductive old_worker_step :: "old_worker \<Rightarrow> old_worker \<Rightarrow> bool" where
  turn: "runningC w \<Longrightarrow> manageTaskWorker (ow_os w) (curTask w) = Inr (os, task) \<Longrightarrow>
    old_worker_step w (w\<lparr>ow_os := os, curTask := task\<rparr>)"
| child: "old_worker_step w (w\<lparr>runningC := old_cleanup SIGCHLD (runningC w)\<rparr>)"
| arrives: "old_worker_step w (w\<lparr>ow_os := feed (ow_os w) fd es\<rparr>)"

inductive old_worker_reach :: "old_worker \<Rightarrow> old_worker \<Rightarrow> bool" for w0 where
  start: "old_worker_reach w0 w0"
| step: "old_worker_reach w0 w \<Longrightarrow> old_worker_step w w' \<Longrightarrow> old_worker_reach w0 w'"

text \<open>The worker waits for its first program, or is in the middle of it.\<close>

definition at_startup :: "old_node \<Rightarrow> bool" where
  "at_startup task \<longleftrightarrow> n_taskNo task = 0 \<and> (n_taskPos task = 0 \<and> n_bufWIP task = 0
     \<or> (n_taskPos task = 1 \<or> n_taskPos task = 2) \<and> n_fileName task = Dead_array)"

definition startup_result :: "int \<Rightarrow> old_node \<Rightarrow> bool" where
  "startup_result r task \<longleftrightarrow> (if r = 0 then n_fileName task = Dead_array else at_startup task)"

lemmas startup_defs = at_startup_def startup_result_def

lemma zero_case_2_startup:
  assumes "zero_case_2 os t = Inr (r, os', t')" "n_taskNo t = 0" "n_taskPos t = 2" "n_fileName t = Dead_array"
  shows "startup_result r t'"
  using assms
  by (auto simp: zero_case_2_def fall_through_def case_defs startup_defs split: if_splits prod.splits)

lemma three_worker_case_1_startup:
  assumes "three_worker_case_1 os t = Inr (r, os', t')" "n_taskNo t = 0" "n_taskPos t = 1"
    "n_fileName t = Dead_array"
  shows "n_taskNo t' = 0 \<and> n_fileName t' = Dead_array
    \<and> (case r of None \<Rightarrow> n_taskPos t' = 2 | Some v \<Rightarrow> v = 1 \<and> n_taskPos t' = 1)"
  using assms
  by (auto simp: three_worker_case_1_def bindr_eq_Inr Let_def resetHelper_def split: if_splits prod.splits)

lemma three_worker_case_0_startup:
  assumes "three_worker_case_0 os t = Inr (r, os', t')" "at_startup t" "n_taskPos t = 0"
  shows "(case r of None \<Rightarrow> n_taskNo t' = 0 \<and> n_taskPos t' = 1 \<and> n_fileName t' = Dead_array
      | Some v \<Rightarrow> v = - 1 \<and> at_startup t')"
  using assms
  by (auto simp: three_worker_case_0_def bindr_eq_Inr Let_def at_startup_def case_prod_beta split: if_split_asm)

lemma case_1_on_startup:
  assumes "fall_through (three_worker_case_1 os t) zero_case_2 = Inr (r, os', t')"
    "n_taskNo t = 0" "n_taskPos t = 1" "n_fileName t = Dead_array"
  shows "startup_result r t'"
proof -
  obtain v os1 t1 where c: "three_worker_case_1 os t = Inr (v, os1, t1)"
    using assms(1) by (auto simp: fall_through_def bindr_eq_Inr)
  show ?thesis
    using three_worker_case_1_startup[OF c assms(2-4)] zero_case_2_startup[of os1 t1 r os' t'] assms(1) c
    by (cases v) (auto simp: fall_through_def startup_defs)
qed

lemma handleTaskThreeWorker_startup:
  assumes "handleTaskThreeWorker os t = Inr (r, os', t')" "at_startup t"
  shows "startup_result r t'"
proof -
  consider "n_taskPos t = 0" | "n_taskPos t = 1" "n_fileName t = Dead_array"
    | "n_taskPos t = 2" "n_fileName t = Dead_array"
    using assms(2) by (auto simp: at_startup_def)
  then show ?thesis
  proof cases
    case 1
    then obtain v os1 t1 where c: "three_worker_case_0 os t = Inr (v, os1, t1)"
      using assms(1) by (auto simp: handleTaskThreeWorker_def fall_through_def[of "three_worker_case_0 os t"] bindr_eq_Inr)
    show ?thesis
      using three_worker_case_0_startup[OF c assms(2) 1] case_1_on_startup[of os1 t1 r os' t'] assms(1) c 1
      by (cases v) (auto simp: handleTaskThreeWorker_def fall_through_def[of "Inr _"] startup_result_def)
  next
    case 2
    then show ?thesis using case_1_on_startup assms by (simp add: handleTaskThreeWorker_def at_startup_def)
  next
    case 3
    then show ?thesis using zero_case_2_startup assms by (simp add: handleTaskThreeWorker_def at_startup_def)
  qed
qed

lemma whole_program_crashes:
  assumes "at_startup t" "handleTaskThreeWorker os t = Inr (0, os', t')"
  shows "manageTaskWorker os t = Inl Out_of_bounds"
  using late_piece_runs_dead_name[OF _ assms(2)] handleTaskThreeWorker_startup[OF assms(2,1)] assms(1)
  by (simp add: startup_defs)

lemma manageTaskWorker_startup:
  assumes "manageTaskWorker os t = Inr (os', t')" "at_startup t"
  shows "at_startup t'"
proof -
  have "n_taskNo t = 0" using assms(2) by (simp add: at_startup_def)
  then obtain r os1 t1 where h: "handleTaskThreeWorker os t = Inr (r, os1, t1)"
    using assms(1) by (auto simp: manageTaskWorker_def bindr_eq_Inr)
  moreover have "r \<noteq> 0" using whole_program_crashes[OF assms(2), of os os1 t1] h assms(1) by auto
  ultimately show ?thesis
    using handleTaskThreeWorker_startup[OF h assms(2)] assms(1) \<open>n_taskNo t = 0\<close>
    by (simp add: manageTaskWorker_def startup_result_def)
qed

lemma server_main_startup:
  "server_main dm line calls raw os = Inr (Some w) \<Longrightarrow> runningC w \<and> at_startup (curTask w)"
  by (auto simp: server_main_def bindr_eq_Inr Let_def setupNode_def at_startup_def split: if_splits prod.splits)

lemma old_worker_reach_startup:
  "old_worker_reach w0 w \<Longrightarrow> runningC w0 \<and> at_startup (curTask w0) \<Longrightarrow> runningC w \<and> at_startup (curTask w)"
proof (induction rule: old_worker_reach.induct)
  case start
  then show ?case .
next
  case (step w w')
  from step.hyps(2) step.IH[OF step.prems] show ?case
    by cases (auto simp: old_cleanup_def manageTaskWorker_startup)
qed

section \<open>The interface\<close>

text \<open>\<open>raw\<close> is the array of 1024 bytes before the read; it is looked at even when nothing was read.\<close>

definition interface_address :: "string \<Rightarrow> char list \<Rightarrow> char list option \<Rightarrow> string res" where
  "interface_address defaultMaster raw line =
     (let bs = (case line of None \<Rightarrow> [] | Some bs \<Rightarrow> bs); tempBuf = bs @ drop (length bs) raw in
      if tempBuf ! 0 = NEWLINE then Inr defaultMaster
      else if bs = [] then Inl Out_of_bounds
      else Inr (cstr (butlast bs)))"

definition old_interface_main ::
  "string \<Rightarrow> char list \<Rightarrow> char list option \<Rightarrow> (string \<Rightarrow> int \<times> int \<times> int \<times> bool \<times> int list) \<Rightarrow>
    (string \<Rightarrow> bool) \<Rightarrow> nat \<Rightarrow> string list \<Rightarrow> osys \<Rightarrow> (int \<times> osys) res" where
  "old_interface_main defaultMaster raw line calls executable numExec names os =
     bindr (interface_address defaultMaster raw line) (\<lambda>addr.
       let socketFd = (case calls addr of (s, g, c, p, sel) \<Rightarrow> setUpClient s g c p sel) in
       if socketFd = - 1 then Inr (0, os)
       else bindr (wait_for_input executable numExec names (old_interface_start os socketFd)) (\<lambda>(_, c).
         Inr (0, i_os c)))"

end
