(* ===== verification/Master_Fate.thy ===== *)
theory Master_Fate
  imports Master_Message "HOL-Library.Sublist" "HOL-Library.Multiset"
begin

text \<open>
  What becomes of workers and tasks over whole runs of the master. Two relations between the states
  before and after a part of a step carry the proofs: \<open>minds\<close>, of code that touches no list of tasks,
  and \<open>acts\<close>, of any code that serves one connection. From them: a dead worker is frozen until a
  heartbeat, the list of parked tasks only grows, and every task is outstanding exactly once.
\<close>

section \<open>Serving one connection\<close>

text \<open>The changes a worker struct may see outside a heartbeat.\<close>

definition like :: "worker \<Rightarrow> worker \<Rightarrow> bool" where
  "like w w' \<longleftrightarrow> IP w' = IP w \<and> worker_fd w' = worker_fd w \<and> (alive w' = alive w \<or> alive w' = 0)
     \<and> (last_beat_received w' = last_beat_received w \<or> last_beat_received w' = Num 0)"

lemma like_refl [simp]: "like w w"
  by (simp add: like_def)

lemma like_trans: "like w w1 \<Longrightarrow> like w1 w' \<Longrightarrow> like w w'"
  by (auto simp: like_def)

lemma like_tasks [simp]: "like w (w\<lparr>tasks := l\<rparr>)"
  by (simp add: like_def)

lemma keeps_like: "keeps w w' \<Longrightarrow> like w w' \<and> tasks w' = tasks w"
  by (simp add: keeps_def like_def)

text \<open>The worker at \<open>p\<close> is served; no list of tasks changes.\<close>

definition minds :: "ptr \<Rightarrow> mstate \<Rightarrow> mstate \<Rightarrow> bool" where
  "minds p m m' \<longleftrightarrow> task_list m' = task_list m \<and> m_tasks m' = m_tasks m \<and> next_ptr m' = next_ptr m
     \<and> (\<forall>q. q \<noteq> p \<longrightarrow> m_workers m' q = m_workers m q)
     \<and> (case m_workers m p of
          None \<Rightarrow> m_workers m' p = None
        | Some w \<Rightarrow> (\<exists>w'. m_workers m' p = Some w' \<and> tasks w' = tasks w \<and> like w w'))"

text \<open>The worker at \<open>p\<close> is served; live workers may get or lose tasks, parked tasks stay.\<close>

definition acts :: "ptr \<Rightarrow> mstate \<Rightarrow> mstate \<Rightarrow> bool" where
  "acts p m m' \<longleftrightarrow> prefix (vlist (task_list m)) (vlist (task_list m')) \<and> m_tasks m \<subseteq>\<^sub>m m_tasks m'
     \<and> (\<forall>q w. m_workers m q = Some w \<longrightarrow> (\<exists>w'. m_workers m' q = Some w' \<and> like w w'
          \<and> (q \<noteq> p \<longrightarrow> w' = w\<lparr>tasks := tasks w'\<rparr>) \<and> (q \<noteq> p \<and> alive w = 0 \<longrightarrow> w' = w)))"

lemma minds_same:
  "task_list m' = task_list m \<Longrightarrow> m_tasks m' = m_tasks m \<Longrightarrow> next_ptr m' = next_ptr m \<Longrightarrow>
    m_workers m' = m_workers m \<Longrightarrow> minds p m m'"
  by (simp add: minds_def split: option.split)

lemma minds_refl [simp]: "minds p m m"
  by (simp add: minds_same)

lemma minds_os [simp]: "minds p m (m\<lparr>m_os := os\<rparr>)"
  by (simp add: minds_same)

lemma minds_put:
  "get_worker m p = Inr w \<Longrightarrow> tasks w' = tasks w \<Longrightarrow> like w w' \<Longrightarrow> minds p m (put_worker p w' m)"
  by (auto simp: minds_def get_worker_def deref_Inr)

lemma minds_trans: "minds p m m1 \<Longrightarrow> minds p m1 m' \<Longrightarrow> minds p m m'"
  by (auto simp: minds_def intro: like_trans split: option.splits)

lemma minds_acts: "minds p m m' \<Longrightarrow> acts p m m'"
proof -
  assume a: "minds p m m'"
  have "\<exists>w'. m_workers m' q = Some w' \<and> like w w' \<and> (q \<noteq> p \<longrightarrow> w' = w\<lparr>tasks := tasks w'\<rparr>)
      \<and> (q \<noteq> p \<and> alive w = 0 \<longrightarrow> w' = w)" if "m_workers m q = Some w" for q w
    using a that by (cases "q = p") (auto simp: minds_def)
  then show ?thesis using a by (simp add: acts_def minds_def)
qed

lemma acts_refl [simp]: "acts p m m"
  using minds_acts minds_refl by blast

lemma acts_trans:
  assumes "acts p m m1" "acts p m1 m'"
  shows "acts p m m'"
  unfolding acts_def
proof (intro conjI allI impI)
  show "prefix (vlist (task_list m)) (vlist (task_list m'))"
    using assms unfolding acts_def using prefix_order.trans by blast
  show "m_tasks m \<subseteq>\<^sub>m m_tasks m'" using assms unfolding acts_def using map_le_trans by blast
  fix q w assume w: "m_workers m q = Some w"
  then obtain w1 where w1: "m_workers m1 q = Some w1" "like w w1"
    "q \<noteq> p \<longrightarrow> w1 = w\<lparr>tasks := tasks w1\<rparr>" "q \<noteq> p \<and> alive w = 0 \<longrightarrow> w1 = w"
    using assms(1) by (auto simp: acts_def)
  then obtain w' where w': "m_workers m' q = Some w'" "like w1 w'"
    "q \<noteq> p \<longrightarrow> w' = w1\<lparr>tasks := tasks w'\<rparr>" "q \<noteq> p \<and> alive w1 = 0 \<longrightarrow> w' = w1"
    using assms(2) by (auto simp: acts_def)
  have "w' = w\<lparr>tasks := tasks w'\<rparr>" if "q \<noteq> p"
  proof -
    have "w' = (w\<lparr>tasks := tasks w1\<rparr>)\<lparr>tasks := tasks w'\<rparr>" using w1(3) w'(3) that by metis
    then show ?thesis by simp
  qed
  then show "\<exists>w'. m_workers m' q = Some w' \<and> like w w' \<and> (q \<noteq> p \<longrightarrow> w' = w\<lparr>tasks := tasks w'\<rparr>)
      \<and> (q \<noteq> p \<and> alive w = 0 \<longrightarrow> w' = w)"
    using w1 w' like_trans by blast
qed

lemma acts_schedule:
  assumes "sched_ok m" "task_ptr m t" "schedule t m = Inr (fd, m')"
  shows "acts p m m'"
  using assms
proof (cases rule: schedule_Inr)
  case (nobody l)
  then show ?thesis by (auto simp: acts_def intro!: exI[of _ "_ :: worker"])
next
  case (chosen b w l)
  then show ?thesis by (auto simp: acts_def runs_def)
qed

lemma acts_alloc_task: "alloc_task t m = (q, m') \<Longrightarrow> fresh_ok m \<Longrightarrow> acts p m m'"
  by (auto simp: acts_def alloc_task_def put_task_def map_le_def fresh_ok_def)

lemma minds_do_put: "m_do_put fd w m = Inr (r, m') \<Longrightarrow> minds p m m'"
  using m_do_put_frame[of fd w m r m'] by (simp add: minds_same)

lemma minds_read:
  assumes "m_read reader p m = Inr (c, m')" "master_ok m"
    "\<And>w os c w' os'. reader w os = Inr (c, w', os') \<Longrightarrow> tame (w, os) (w', os')"
  shows "minds p m m'"
proof -
  from assms obtain w w' os where r: "m' = put_worker p w' (m\<lparr>m_os := os\<rparr>)" "get_worker m p = Inr w"
    "keeps w w'" by (rule m_read_ok)
  then have "minds p (m\<lparr>m_os := os\<rparr>) m'"
    using keeps_like[OF r(3)] by (auto intro: minds_put simp: get_worker_def)
  then show ?thesis using minds_trans[OF minds_os] by blast
qed

section \<open>The blocks of the handler\<close>

lemma minds_need_size:
  assumes "handle_need_size p m = Inr x" "master_ok m"
  shows "minds p m (flow_state x)"
proof -
  obtain w0 where w0: "get_worker m p = Inr w0"
    using assms(1) by (auto simp: handle_need_size_def bindr_eq_Inr)
  show ?thesis
  proof (cases "status w0 = NEED_SIZE")
    case False
    then show ?thesis using assms w0 by (auto simp: handle_need_size_def)
  next
    case True
    obtain c m1 where r: "m_read get_size p m = Inr (c, m1)"
      using assms(1) w0 True by (auto simp: handle_need_size_def bindr_eq_Inr)
    from r assms(2) get_size_tame obtain w' where w': "get_worker m1 p = Inr w'" by (rule m_read_ok)
    have "minds p m m1" by (rule minds_read[OF r assms(2) get_size_tame])
    then show ?thesis
      using assms(1) w0 True r w'
        minds_put[OF w', of "w'\<lparr>alive := (if file_size w' = 0 then 0 else alive w'), status := RECIEVING_DATA\<rparr>"]
      by (auto simp: handle_need_size_def like_def intro: minds_trans split: if_splits)
  qed
qed

lemma minds_recieving:
  assumes "handle_recieving p m = Inr x" "master_ok m"
  shows "minds p m (flow_state x)"
proof -
  obtain w0 where w0: "get_worker m p = Inr w0"
    using assms(1) by (auto simp: handle_recieving_def bindr_eq_Inr)
  show ?thesis
  proof (cases "status w0 = RECIEVING_DATA")
    case False
    then show ?thesis using assms w0 by (auto simp: handle_recieving_def)
  next
    case True
    obtain c m1 where r: "m_read get_binary_data p m = Inr (c, m1)"
      using assms(1) w0 True by (auto simp: handle_recieving_def bindr_eq_Inr)
    from r assms(2) get_binary_data_tame obtain w' where w': "get_worker m1 p = Inr w'" by (rule m_read_ok)
    have "minds p m m1" by (rule minds_read[OF r assms(2) get_binary_data_tame])
    then show ?thesis
      using assms(1) w0 True r w' minds_put[OF w', of "w'\<lparr>status := FORWARD_DATA\<rparr>"]
      by (auto simp: handle_recieving_def like_def intro: minds_trans split: if_splits)
  qed
qed

lemma minds_become_interface: "become_interface e_fd p m = Inr m' \<Longrightarrow> minds q m m'"
  by (auto simp: become_interface_def bindr_eq_Inr lock_mutex_def intro!: minds_same split: if_splits)

lemma minds_start:
  assumes "handle_start e_fd p m = Inr x" "master_ok m"
  shows "minds p m (flow_state x)"
proof -
  note read = minds_read[OF _ assms(2) get_command_tame]
  have put: "minds p m (put_worker p w' m1)" if "m_read get_command p m = Inr (c, m1)"
    "get_worker m1 p = Inr w" "tasks w' = tasks w" "like w w'" for c m1 w w'
    using minds_trans[OF read[OF that(1)] minds_put[OF that(2-4)]] .
  from assms show ?thesis
  proof (cases rule: start_cases)
    case (becomes m1 w m3)
    then show ?thesis
      using put[of _ m1 w "w\<lparr>status := NEED_SIZE\<rparr>"] minds_become_interface[OF becomes(5)] minds_trans
      by (force simp: like_def)
  next
    case (quits c m1 w)
    let ?m = "put_worker p (w\<lparr>alive := 0\<rparr>) m1"
    have m: "minds p m ?m" by (rule put[OF quits(1,2)]) (simp_all add: like_def)
    have "minds p ?m (flow_state x)" unfolding quits(4) by (rule minds_same) simp_all
    then show ?thesis using m minds_trans by blast
  qed (use read put in \<open>auto simp: like_def\<close>)
qed

lemma minds_forwarding:
  assumes "handle_forwarding p m = Inr m'"
  shows "minds p m m'"
proof -
  obtain w where w: "get_worker m p = Inr w"
    using assms(1) by (auto simp: handle_forwarding_def bindr_eq_Inr)
  show ?thesis
  proof (cases "status w = FORWARDING_DATA")
    case False
    then show ?thesis using assms w by (auto simp: handle_forwarding_def)
  next
    case True
    obtain r m1 where d: "m_do_put (fd_to_send_to w) w m = Inr (r, m1)"
      using assms(1) w True by (auto simp: handle_forwarding_def bindr_eq_Inr)
    obtain w' os where rs: "reset_worker_for_parsing w (m_os m1) = (w', os)" by fastforce
    have l: "tasks (w'\<lparr>status := START\<rparr>) = tasks w" "like w (w'\<lparr>status := START\<rparr>)"
      using rs by (auto simp: reset_worker_for_parsing_def Let_def like_def)
    have "get_worker (m1\<lparr>m_os := os\<rparr>) p = Inr w" using w m_do_put_frame[OF d] by (simp add: get_worker_def)
    from minds_put[OF this l] have "minds p (m1\<lparr>m_os := os\<rparr>) m'"
      using assms w True d rs by (simp add: handle_forwarding_def)
    then show ?thesis using minds_trans[OF minds_do_put[OF d]] minds_trans[OF minds_os] by blast
  qed
qed

section \<open>The ledger\<close>

text \<open>The tasks that are parked or on some worker's list, with repetitions.\<close>

definition ledger :: "mstate \<Rightarrow> ptr multiset" where
  "ledger m = mset (vlist (task_list m))
     + (\<Sum>p<next_ptr m. case m_workers m p of None \<Rightarrow> {#} | Some w \<Rightarrow> mset (vlist (tasks w)))"

lemma ledger_minds:
  assumes "minds p m m'"
  shows "ledger m' = ledger m"
proof -
  have "(case m_workers m' q of None \<Rightarrow> {#} | Some w \<Rightarrow> mset (vlist (tasks w)))
      = (case m_workers m q of None \<Rightarrow> {#} | Some w \<Rightarrow> mset (vlist (tasks w)))" for q
    using assms by (cases "q = p") (auto simp: minds_def split: option.splits)
  then show ?thesis using assms by (simp add: ledger_def minds_def)
qed

lemma fresh_below: "fresh_ok m \<Longrightarrow> m_workers m p = Some w \<Longrightarrow> p < next_ptr m"
  by (rule ccontr) (auto simp: fresh_ok_def)

lemma ledger_put:
  assumes "fresh_ok m" "m_workers m p = Some w"
  shows "ledger (put_worker p w' m) + mset (vlist (tasks w)) = ledger m + mset (vlist (tasks w'))"
proof -
  let ?f = "\<lambda>m p. case m_workers m p of None \<Rightarrow> {#} | Some w \<Rightarrow> mset (vlist (tasks w))"
  have p: "p \<in> {..<next_ptr m}" using fresh_below[OF assms] by simp
  have "sum (?f (put_worker p w' m)) {..<next_ptr m}
      = mset (vlist (tasks w')) + sum (?f (put_worker p w' m)) ({..<next_ptr m} - {p})"
    using p by (subst sum.remove[of _ p]) auto
  moreover have "sum (?f (put_worker p w' m)) ({..<next_ptr m} - {p}) = sum (?f m) ({..<next_ptr m} - {p})"
    by (rule sum.cong) auto
  moreover have "sum (?f m) {..<next_ptr m} = mset (vlist (tasks w)) + sum (?f m) ({..<next_ptr m} - {p})"
    using p assms(2) by (subst sum.remove[of _ p]) auto
  ultimately show ?thesis by (simp add: ledger_def)
qed

lemma ledger_schedule:
  assumes "master_ok m" "task_ptr m t" "schedule t m = Inr (fd, m')"
  shows "ledger m' = add_mset t (ledger m)"
  using master_okD(1)[OF assms(1)] assms(2,3)
proof (cases rule: schedule_Inr)
  case (nobody l)
  then show ?thesis by (simp add: ledger_def)
next
  case (chosen b w l)
  then show ?thesis
    using ledger_put[OF master_okD(3)[OF assms(1)], of b w "w\<lparr>tasks := l\<rparr>"] by (simp add: runs_def)
qed

lemma ledger_alloc_task: "alloc_task t m = (q, m') \<Longrightarrow> fresh_ok m \<Longrightarrow> ledger m' = ledger m"
  by (auto simp: alloc_task_def put_task_def ledger_def fresh_ok_def)

lemma mset_remove_first:
  assumes "List.find q xs = Some x"
  shows "mset xs = add_mset x (mset (remove_first q xs))"
  using assms by (rule find_split) simp

text \<open>What serving the connection of \<open>p\<close> does to the ledger.\<close>

definition balance :: "ptr \<Rightarrow> mstate \<Rightarrow> mstate \<Rightarrow> bool" where
  "balance p m m' \<longleftrightarrow> ledger m' = ledger m
     \<or> (\<exists>t. m_tasks m t = None \<and> m_tasks m' t \<noteq> None \<and> ledger m' = add_mset t (ledger m))
     \<or> (\<exists>w t. m_workers m p = Some w \<and> t \<in> set (vlist (tasks w)) \<and> ledger m = add_mset t (ledger m'))"

lemma balance_minds_left: "minds p m n \<Longrightarrow> balance p n m' \<Longrightarrow> balance p m m'"
proof -
  assume a: "minds p m n" "balance p n m'"
  have "\<exists>v. m_workers m p = Some v \<and> tasks v = tasks w" if "m_workers n p = Some w" for w
    using a(1) that by (auto simp: minds_def split: option.splits)
  moreover have "m_tasks n = m_tasks m" using a(1) by (simp add: minds_def)
  ultimately show ?thesis using a(2) unfolding balance_def ledger_minds[OF a(1)] by metis
qed

lemma balance_minds_right: "balance p m n \<Longrightarrow> minds p n m' \<Longrightarrow> balance p m m'"
  unfolding balance_def using ledger_minds[of p n m'] by (auto simp: minds_def)

text \<open>The worker that \<^verbatim>\<open>scheduler_remove_task\<close> finds is the one that is served.\<close>

definition served :: "ptr \<Rightarrow> mstate \<Rightarrow> bool" where
  "served p m \<longleftrightarrow> p \<in> set (vlist (worker_list m)) \<or> p = interface m"

lemma served_found:
  assumes "master_inv m" "served p m" "get_worker m p = Inr w" "alive w \<noteq> 0"
    "List.find (worker_is m (\<lambda>v. worker_fd v = worker_fd w)) (vlist (worker_list m)) = Some q"
  shows "q = p"
proof (cases "p \<in> set (vlist (worker_list m))")
  case True
  then show ?thesis using in_list_focus[OF assms(1) True assms(3)] assms(5) by simp
next
  case False
  have ok: "master_ok m" "conn_ok m" using assms(1) by (simp_all add: master_inv_def)
  have w: "m_workers m p = Some w" "p = interface m" "p \<noteq> NULL"
    using False assms(2,3) by (simp_all add: served_def get_worker_def deref_Inr)
  have "interface_fd m \<noteq> - 1 \<and> worker_fd w = interface_fd m"
    using ok(1) w assms(4) by (auto simp: master_ok_def iface_ok_def worker_is_def split: if_splits)
  moreover have "q \<in> set (vlist (worker_list m))" "fd_of m q = worker_fd w"
    using assms(5) by (auto simp: find_Some_iff worker_is_def fd_of_def split: option.splits)
  ultimately show ?thesis using ok(2) by (auto simp: conn_ok_def)
qed

lemma forward_request:
  assumes "handle_forward e_fd p m = Inr x" "master_ok m" "get_worker m p = Inr w0"
    "status w0 = FORWARD_DATA" "e_fd = interface_fd m"
  shows "acts p m (flow_state x) \<and> balance p m (flow_state x)"
proof -
  have f: "fresh_ok m" using assms(2) by (rule master_okD)
  obtain t where t: "make_task w0 = Inr t"
    using assms by (auto simp: handle_forward_def bindr_eq_Inr)
  obtain q m1 where a: "alloc_task t m = (q, m1)" by fastforce
  note m1 = alloc_task_ok[OF assms(2) a]
  obtain fd m2 where s: "schedule q m1 = Inr (fd, m2)"
    using assms t a by (auto simp: handle_forward_def bindr_eq_Inr)
  obtain w where w: "get_worker m2 p = Inr w"
    "x = Go_on (put_worker p (w\<lparr>fd_to_send_to := fd, status := FORWARDING_DATA\<rparr>) m2)"
    using assms t a s by (auto simp: handle_forward_def bindr_eq_Inr)
  have put: "minds p m2 (flow_state x)" using w by (auto intro: minds_put simp: like_def)
  have "acts p m (flow_state x)"
    using acts_alloc_task[OF a f] acts_schedule[OF master_okD(1)[OF m1(1)] m1(2) s]
      minds_acts[OF put] acts_trans by blast
  moreover have "ledger (flow_state x) = add_mset q (ledger m)"
    using ledger_schedule[OF m1(1,2) s] ledger_alloc_task[OF a f] ledger_minds[OF put] by simp
  moreover have "m_tasks m q = None" "m_tasks (flow_state x) q \<noteq> None"
    using a f schedule_m_tasks[OF s] put
    by (auto simp: alloc_task_def put_task_def fresh_ok_def minds_def)
  ultimately show ?thesis unfolding balance_def by blast
qed

lemma remove_task_outcome:
  assumes "scheduler_remove_task (worker_fd w) name m = Inr m1" "master_inv m" "served p m"
    "get_worker m p = Inr w" "alive w \<noteq> 0"
  shows "acts p m m1 \<and> balance p m m1"
proof (cases "List.find (worker_is m (\<lambda>v. worker_fd v = worker_fd w)) (vlist (worker_list m))")
  case None
  have "sched_ok m" using assms(2) by (simp add: master_inv_def master_ok_def)
  then have "m1 = m" using scheduler_remove_task_ok[of m "worker_fd w" name] None assms(1) by simp
  then show ?thesis by (simp add: balance_def)
next
  case (Some q)
  have ok: "sched_ok m" "fresh_ok m" using assms(2) by (simp_all add: master_inv_def master_ok_def)
  have "q = p" using served_found[OF assms(2-5)] Some by blast
  with scheduler_remove_task_ok[OF ok(1), of "worker_fd w" name] Some assms(1) obtain l where
    r: "m_workers m p = Some w" "m1 = put_worker p (w\<lparr>tasks := l\<rparr>) m"
    "vlist l = remove_first (task_named m name) (vlist (tasks w))"
    using assms(4) by (auto simp: get_worker_def deref_Inr)
  note paid = ledger_put[OF ok(2) r(1), of "w\<lparr>tasks := l\<rparr>"]
  have "balance p m m1"
  proof (cases "List.find (task_named m name) (vlist (tasks w))")
    case None
    then show ?thesis using paid r(2,3) by (simp add: balance_def remove_first_None)
  next
    case (Some t)
    then have "t \<in> set (vlist (tasks w))" by (auto simp: find_Some_iff)
    moreover have "ledger m = add_mset t (ledger m1)" using paid r(2,3) mset_remove_first[OF Some] by simp
    ultimately show ?thesis using r(1) unfolding balance_def by blast
  qed
  then show ?thesis using r(1,2) by (auto simp: acts_def)
qed

lemma forward_outcome:
  assumes "handle_forward e_fd p m = Inr x" "master_inv m" "served p m"
  shows "acts p m (flow_state x) \<and> balance p m (flow_state x)"
proof -
  have ok: "master_ok m" using assms(2) by (simp add: master_inv_def)
  obtain w0 where w0: "get_worker m p = Inr w0"
    using assms(1) by (auto simp: handle_forward_def bindr_eq_Inr)
  consider (other) "status w0 \<noteq> FORWARD_DATA \<or> (e_fd \<noteq> interface_fd m \<and> alive w0 = 0)"
    | (interface) "status w0 = FORWARD_DATA" "e_fd = interface_fd m"
    | (worker) "status w0 = FORWARD_DATA" "e_fd \<noteq> interface_fd m" "alive w0 \<noteq> 0" by blast
  then show ?thesis
  proof cases
    case other
    then have "flow_state x = m" using assms(1) w0 by (auto simp: handle_forward_def split: if_splits)
    then show ?thesis by (simp add: balance_def)
  next
    case interface
    then show ?thesis by (rule forward_request[OF assms(1) ok w0])
  next
    case worker
    obtain name m1 w where s: "scheduler_remove_task (worker_fd w0) name m = Inr m1" "get_worker m1 p = Inr w"
      "x = Go_on (put_worker p (w\<lparr>fd_to_send_to := interface_fd m1, status := FORWARDING_DATA\<rparr>) m1)"
      using assms(1) w0 worker by (auto simp: handle_forward_def bindr_eq_Inr or_fault_Inr)
    have put: "minds p m1 (flow_state x)" using s(2,3) by (auto intro: minds_put simp: like_def)
    then show ?thesis
      using remove_task_outcome[OF s(1) assms(2,3) w0 worker(3)] acts_trans[OF _ minds_acts[OF put]]
        balance_minds_right[OF _ put] by blast
  qed
qed

section \<open>The handler\<close>

lemma in_focus_served: "in_focus e_fd p m \<Longrightarrow> served p m"
  by (auto simp: in_focus_def served_def find_Some_iff split: option.splits)

lemma served_shape: "same_shape m m' \<Longrightarrow> served p m \<Longrightarrow> served p m'"
  by (simp add: served_def same_shape_def)

text \<open>The list of workers and the interface change only here.\<close>

lemma become_interface_list:
  assumes "master_ok m" "become_interface e_fd p m = Inr m'"
    "List.find (worker_is m (\<lambda>w. worker_fd w = e_fd)) (vlist (worker_list m)) = Some p"
  shows "interface m' = p \<and> vlist (worker_list m')
    = remove_first (worker_is m (\<lambda>w. worker_fd w = e_fd)) (vlist (worker_list m))"
proof -
  let ?q = "worker_is m (\<lambda>w. worker_fd w = e_fd)" and ?l = "vlist (worker_list m)"
  note ok = master_okD[OF assms(1)]
  obtain w where w: "get_worker m p = Inr w" "p \<in> set ?l" "?q p"
    using worker_found[OF ok(1) assms(3)] by (metis find_split assms(3))
  let ?m = "m\<lparr>interface_fd := worker_fd w, interface := p, mutex := True\<rparr>"
  have eq: "worker_list ?m = worker_list m" "m_workers ?m = m_workers m" by simp_all
  have "find_worker_pos ?m e_fd = find_worker_pos m e_fd"
    unfolding find_worker_pos_def get_worker_def eq ..
  then have "find_worker_pos ?m e_fd = Inr (int (length (takeWhile (\<lambda>p. \<not> ?q p) ?l)))"
    using find_worker_pos_ok[OF ok(1), of e_fd] w(2,3) by auto
  moreover obtain l where "ptr_erase (worker_list m) (of_nat (length (takeWhile (\<lambda>p. \<not> ?q p) ?l))) = Inr l"
    "vlist l = remove_first ?q ?l"
    using ptrs.erase_found[OF sched_okD(1)[OF ok(1)] assms(3)] by blast
  ultimately show ?thesis
    using assms(2) w(1) ok(4) by (auto simp: become_interface_def lock_mutex_def)
qed

definition same_list :: "mstate \<Rightarrow> mstate \<Rightarrow> bool" where
  "same_list m m' \<longleftrightarrow> worker_list m' = worker_list m \<and> interface m' = interface m
     \<and> interface_fd m' = interface_fd m"

lemma same_list_shape: "same_shape m m' \<Longrightarrow> same_list m m'"
  by (simp add: same_list_def same_shape_def)

lemma start_list:
  assumes "handle_start e_fd p m = Inr x" "master_inv m" "in_focus e_fd p m"
    "worker_is m (\<lambda>w. alive w \<noteq> 0) p"
  obtains (same) "same_list m (flow_state x)"
  | (joins) ys zs where "interface_fd m = - 1" "interface (flow_state x) = p"
      "vlist (worker_list m) = ys @ p # zs" "vlist (worker_list (flow_state x)) = ys @ zs"
  | (leaves) "p = interface m" "worker_list (flow_state x) = worker_list m"
      "interface (flow_state x) = interface m" "interface_fd (flow_state x) = - 1"
proof -
  have ok: "master_ok m" using assms(2) by (simp add: master_inv_def)
  have read: "master_ok m1 \<and> same_shape m m1" if "m_read get_command p m = Inr (c, m1)" for c m1
  proof -
    from that ok get_command_tame obtain "master_ok m1" "same_shape m m1" by (rule m_read_ok)
    then show ?thesis by blast
  qed
  have put: "same_list m (put_worker p w m1)" if "m_read get_command p m = Inr (c, m1)" for c m1 w
    using same_list_shape[OF read[OF that, THEN conjunct2]] by (simp add: same_list_def)
  from assms(1) ok show thesis
  proof (cases rule: start_cases)
    case (becomes m1 w m3)
    let ?m = "put_worker p (w\<lparr>status := NEED_SIZE\<rparr>) m1" and ?q = "worker_is m (\<lambda>w. worker_fd w = e_fd)"
    have m1: "master_ok m1" "same_shape m m1" using read[OF becomes(1)] by blast+
    have m2: "master_ok ?m" "same_shape m ?m"
      using master_put[OF m1(1) becomes(2)] same_shape_trans[OF m1(2)] by simp_all
    have free: "interface_fd m = - 1" using m1(2) becomes(3) by (simp add: same_shape_def)
    have "p \<noteq> NULL" using becomes(2) by (simp add: get_worker_def deref_Inr)
    then have f: "List.find ?q (vlist (worker_list m)) = Some p"
      by (rule focus_listed[OF assms(3) master_okD(2)[OF ok] free assms(4)])
    then obtain ys zs where l: "vlist (worker_list m) = ys @ p # zs"
      "remove_first ?q (vlist (worker_list m)) = ys @ zs" by (rule find_split)
    have "List.find (worker_is ?m (\<lambda>w. worker_fd w = e_fd)) (vlist (worker_list ?m)) = Some p"
      using find_shape[OF m2(2), of e_fd] f by (simp only:)
    from become_interface_list[OF m2(1) becomes(5) this]
    have "interface m3 = p" "vlist (worker_list m3) = ys @ zs"
      using worker_is_shape[OF m2(2)] l(2) same_shapeD(1)[OF m2(2)] by (simp_all only:)
    then show thesis using joins[OF free _ l(1)] becomes(4) by simp
  next
    case (quits c m1 w)
    have s: "worker_list m1 = worker_list m" "interface m1 = interface m" "interface_fd m1 = interface_fd m"
      using read[OF quits(1)] by (simp_all add: same_shape_def)
    have "p = interface m" using focus_interface[OF _ assms(2)] assms(3) quits(3) s(3) by simp
    then show thesis using leaves quits(4) s by simp
  qed (use same put read same_list_shape in \<open>auto simp: same_list_def\<close>)
qed

lemma handle_data_outcome:
  assumes "handle_data e_fd m = Inr m'" "master_inv m"
  obtains (nothing) "m' = m"
  | (serves) p w where "in_focus e_fd p m" "get_worker m p = Inr w" "alive w \<noteq> 0" "acts p m m'"
      "balance p m m'"
  using assms
proof (cases rule: handle_data_cases)
  case 1
  then show thesis by (rule nothing)
next
  case (2 p w)
  have alive: "worker_is m (\<lambda>w. alive w \<noteq> 0) p"
    using 2(2,3) by (simp add: worker_is_def get_worker_def deref_Inr)
  have "acts p m m' \<and> balance p m m'" using 2(4)
  proof (rule run_blocks_rule[where Q = "\<lambda>n. master_inv n \<and> served p n \<and> minds p m n"
        and R = "\<lambda>n. acts p m n \<and> balance p m n"])
    fix x assume h: "handle_start e_fd p m = Inr x"
    from h assms(2) 2(1) alive have "served p (flow_state x)"
      by (rule start_list)
        (use in_focus_served[OF 2(1)] in \<open>auto simp: served_def same_list_def\<close>)
    then show "master_inv (flow_state x) \<and> served p (flow_state x) \<and> minds p m (flow_state x)"
      using handle_start_inv[OF h assms(2) 2(1) alive] minds_start[OF h] assms(2) by (simp add: master_inv_def)
  next
    fix n x assume n: "master_inv n \<and> served p n \<and> minds p m n" "handle_need_size p n = Inr x"
    then have "master_ok (flow_state x) \<and> same_shape n (flow_state x)"
      by (intro handle_need_size_ok) (simp_all add: master_inv_def)
    then show "master_inv (flow_state x) \<and> served p (flow_state x) \<and> minds p m (flow_state x)"
      using n minds_need_size[OF n(2)] master_inv_shape served_shape minds_trans
      unfolding master_inv_def by blast
  next
    fix n x assume n: "master_inv n \<and> served p n \<and> minds p m n" "handle_recieving p n = Inr x"
    then have "master_ok (flow_state x) \<and> same_shape n (flow_state x)"
      by (intro handle_recieving_ok) (simp_all add: master_inv_def)
    then show "master_inv (flow_state x) \<and> served p (flow_state x) \<and> minds p m (flow_state x)"
      using n minds_recieving[OF n(2)] master_inv_shape served_shape minds_trans
      unfolding master_inv_def by blast
  next
    fix n x assume n: "master_inv n \<and> served p n \<and> minds p m n" "handle_forward e_fd p n = Inr x"
    then show "acts p m (flow_state x) \<and> balance p m (flow_state x)"
      using forward_outcome[OF n(2)] minds_acts acts_trans balance_minds_left by blast
  next
    fix n assume n: "master_inv n \<and> served p n \<and> minds p m n"
    then show "acts p m n \<and> balance p m n"
      using minds_acts ledger_minds by (auto simp: balance_def)
  next
    fix n assume "acts p m n \<and> balance p m n" "handle_forwarding p n = Inr m'"
    then show "acts p m m' \<and> balance p m m'"
      using minds_forwarding minds_acts acts_trans balance_minds_right by blast
  qed
  then show thesis using serves[OF 2(1-3)] by blast
qed

text \<open>What it does to the list and to the interface.\<close>

lemma handle_data_list:
  assumes "handle_data e_fd m = Inr m'" "master_inv m"
  obtains (same) "same_list m m'"
  | (joins) p ys zs where "interface_fd m = - 1" "vlist (worker_list m) = ys @ p # zs"
      "vlist (worker_list m') = ys @ zs"
  | (leaves) "worker_is m (\<lambda>w. alive w \<noteq> 0) (interface m)" "worker_list m' = worker_list m"
  using assms
proof (cases rule: handle_data_cases)
  case 1
  then show thesis using same by (simp add: same_list_def)
next
  case (2 p w)
  have alive: "worker_is m (\<lambda>w. alive w \<noteq> 0) p"
    using 2(2,3) by (simp add: worker_is_def get_worker_def deref_Inr)
  let ?S = "\<lambda>n. same_list m n \<or> (interface_fd m = - 1 \<and> (\<exists>ys zs. vlist (worker_list m) = ys @ p # zs
      \<and> vlist (worker_list n) = ys @ zs)) \<or> (p = interface m \<and> worker_list n = worker_list m)"
  have keep: "master_inv n' \<and> ?S n'" if "master_inv n \<and> ?S n" "master_ok n' \<and> same_shape n n'" for n n'
    using that master_inv_shape same_list_shape[of n n'] by (auto simp: same_list_def)
  have "master_inv m' \<and> ?S m'" using 2(4)
  proof (rule run_blocks_rule[where Q = "\<lambda>n. master_inv n \<and> ?S n"])
    fix x assume h: "handle_start e_fd p m = Inr x"
    from h assms(2) 2(1) alive have "?S (flow_state x)" by (rule start_list) auto
    then show "master_inv (flow_state x) \<and> ?S (flow_state x)"
      using handle_start_inv[OF h assms(2) 2(1) alive] by blast
  next
    fix n x assume n: "master_inv n \<and> ?S n" "handle_need_size p n = Inr x"
    show "master_inv (flow_state x) \<and> ?S (flow_state x)"
      by (rule keep[OF n(1) handle_need_size_ok[OF n(2)]]) (use n in \<open>simp add: master_inv_def\<close>)
  next
    fix n x assume n: "master_inv n \<and> ?S n" "handle_recieving p n = Inr x"
    show "master_inv (flow_state x) \<and> ?S (flow_state x)"
      by (rule keep[OF n(1) handle_recieving_ok[OF n(2)]]) (use n in \<open>simp add: master_inv_def\<close>)
  next
    fix n x assume n: "master_inv n \<and> ?S n" "handle_forward e_fd p n = Inr x"
    show "master_inv (flow_state x) \<and> ?S (flow_state x)"
      by (rule keep[OF n(1) handle_forward_ok[OF n(2)]]) (use n in \<open>simp add: master_inv_def\<close>)
  next
    fix n assume n: "master_inv n \<and> ?S n" "handle_forwarding p n = Inr m'"
    show "master_inv m' \<and> ?S m'"
      by (rule keep[OF n(1) handle_forwarding_ok[OF n(2)]]) (use n in \<open>simp add: master_inv_def\<close>)
  qed
  then show thesis using same joins leaves alive by blast
qed

end
