(* ===== verification/Master_Steps.thy ===== *)
theory Master_Steps
  imports Master_Fate
begin

text \<open>
  What the steps that no connection takes part in do to workers and tasks: a pass of the monitor, new
  connections, a heartbeat. The relations \<open>calm\<close> and \<open>watches\<close> hold across any number of them.
\<close>

section \<open>The monitor\<close>

text \<open>What any number of served connections leave.\<close>

definition calm :: "mstate \<Rightarrow> mstate \<Rightarrow> bool" where
  "calm m m' \<longleftrightarrow> prefix (vlist (task_list m)) (vlist (task_list m')) \<and> m_tasks m \<subseteq>\<^sub>m m_tasks m'
     \<and> (\<forall>q w. m_workers m q = Some w \<longrightarrow>
          (\<exists>w'. m_workers m' q = Some w' \<and> like w w' \<and> (alive w = 0 \<longrightarrow> w' = w)))"

lemma calm_refl [simp]: "calm m m"
  by (simp add: calm_def)

lemma calm_trans: "calm m m1 \<Longrightarrow> calm m1 m' \<Longrightarrow> calm m m'"
  unfolding calm_def using prefix_order.trans map_le_trans like_trans by (smt (verit))

lemma acts_calm: "acts p m m' \<Longrightarrow> get_worker m p = Inr w \<Longrightarrow> alive w \<noteq> 0 \<Longrightarrow> calm m m'"
  unfolding acts_def calm_def get_worker_def deref_Inr by (metis option.inject)

text \<open>Without a heartbeat on record a worker is not watched.\<close>

definition watches :: "mstate \<Rightarrow> mstate \<Rightarrow> bool" where
  "watches m m' \<longleftrightarrow> (\<forall>q w. m_workers m q = Some w \<longrightarrow> (\<exists>w'. m_workers m' q = Some w' \<and> like w w'
     \<and> (\<not> Num 0 < last_beat_received w \<longrightarrow> alive w' = alive w)))"

lemma watches_refl [simp]: "watches m m"
  by (simp add: watches_def)

lemma watches_trans:
  assumes "watches m m1" "watches m1 m'"
  shows "watches m m'"
  unfolding watches_def
proof (intro allI impI)
  fix q w assume w: "m_workers m q = Some w"
  obtain w1 where w1: "m_workers m1 q = Some w1" "like w w1"
    "\<not> Num 0 < last_beat_received w \<longrightarrow> alive w1 = alive w" using assms(1) w unfolding watches_def by blast
  obtain w' where w': "m_workers m' q = Some w'" "like w1 w'"
    "\<not> Num 0 < last_beat_received w1 \<longrightarrow> alive w' = alive w1" using assms(2) w1(1) unfolding watches_def by blast
  have "\<not> Num 0 < last_beat_received w1" if "\<not> Num 0 < last_beat_received w"
  proof -
    have "last_beat_received w1 = last_beat_received w \<or> last_beat_received w1 = Num 0"
      using w1(2) by (simp add: like_def)
    moreover have "\<not> Num 0 < Num 0" by simp
    ultimately show ?thesis using that by metis
  qed
  then have "\<not> Num 0 < last_beat_received w \<longrightarrow> alive w' = alive w" using w1(3) w'(3) by simp
  then show "\<exists>w'. m_workers m' q = Some w' \<and> like w w' \<and> (\<not> Num 0 < last_beat_received w \<longrightarrow> alive w' = alive w)"
    using w'(1) like_trans[OF w1(2) w'(2)] by (intro exI[of _ w'] conjI)
qed

lemma acts_watches:
  assumes "acts p m m'" "m_workers m p = Some w" "Num 0 < last_beat_received w"
  shows "watches m m'"
  unfolding watches_def
proof (intro allI impI)
  fix q v assume v: "m_workers m q = Some v"
  then obtain v' where v': "m_workers m' q = Some v'" "like v v'" "q \<noteq> p \<longrightarrow> v' = v\<lparr>tasks := tasks v'\<rparr>"
    using assms(1) unfolding acts_def by blast
  have "alive v' = alive v" if "q \<noteq> p"
  proof -
    have e: "v' = v\<lparr>tasks := tasks v'\<rparr>" using v'(3) that by blast
    show ?thesis by (subst e) simp
  qed
  moreover have "q \<noteq> p" if "\<not> Num 0 < last_beat_received v"
  proof
    assume "q = p"
    then have "v = w" using v assms(2) by simp
    then show False using that assms(3) by simp
  qed
  ultimately have "\<not> Num 0 < last_beat_received v \<longrightarrow> alive v' = alive v" by blast
  then show "\<exists>v'. m_workers m' q = Some v' \<and> like v v' \<and> (\<not> Num 0 < last_beat_received v \<longrightarrow> alive v' = alive v)"
    using v'(1,2) by (intro exI[of _ v'] conjI)
qed

lemma reschedule_outcome:
  assumes "reschedule raw p m = Inr m'" "master_ok m" "m_workers m p = Some w" "alive w = 0"
  shows "acts p m m' \<and> ledger m' = ledger m"
proof -
  have p: "p \<noteq> NULL" "get_worker m p = Inr w"
    using assms(1,3) by (auto simp: reschedule_def bindr_eq_Inr get_worker_def deref_Inr)
  note w = master_ok_worker[OF assms(2) p(2)]
  have v: "ptr_vector_ok (tasks w)" using w(2) by (simp add: tasks_ok_def)
  have "length (vlist (tasks w)) < 2"
    using reschedule_many[OF assms(3,4) v] assms(1) not_less by blast
  then consider "vlist (tasks w) = []" | t where "vlist (tasks w) = [t]"
    by (cases "vlist (tasks w)") (auto simp: less_Suc_eq)
  then show ?thesis
  proof cases
    case 1
    then show ?thesis using reschedule_none[OF p(1) assms(3) v] assms(1) by simp
  next
    case (2 t)
    have n: "vector_size (tasks w) = 1"
    proof -
      have "unat (vector_size (tasks w)) = unat (1 :: size_t)" using ptrs.count[OF v] 2 by simp
      then show ?thesis by (simp only: word_unat_eq_iff)
    qed
    have first: "vector_get (tasks w) 0 = Inr t" using ptrs.get[OF v, of 0] 2 by simp
    obtain m2 where m2: "resend_loop raw p 0 1 m = Inr m2" "erase_loop p 0 1 m2 = Inr m'"
      using assms(1) p(2) n by (auto simp: reschedule_def bindr_eq_Inr)
    obtain fd m1 where s: "schedule t m = Inr (fd, m1)"
      using m2(1) p(2) first by (subst (asm) resend_loop.simps) (auto simp: bindr_eq_Inr)
    note m2' = m2(1)[unfolded resend_loop.simps[of raw p 0], simplified, unfolded p(2) bindr_Inr first s]
    obtain r n1 os raw' where d: "m_do_put fd raw' (m1\<lparr>m_os := os\<rparr>) = Inr (r, n1)" "m2 = n1"
      using m2' by (auto simp: bindr_eq_Inr case_prod_beta resend_loop.simps[of raw p 1])
    have t: "task_ptr m t" using w(2) 2 by (simp add: tasks_ok_def)
    have put: "minds p m1 m2" using minds_trans[OF minds_os minds_do_put[OF d(1)]] d(2) by simp
    have a: "acts p m m2"
      using acts_schedule[OF master_okD(1)[OF assms(2)] t s] minds_acts[OF put] acts_trans by blast
    have l2: "ledger m2 = add_mset t (ledger m)"
      using ledger_schedule[OF assms(2) t s] ledger_minds[OF put] by simp
    have w2: "m_workers m2 p = Some w"
      using schedule_dead[OF s assms(3,4)] m_do_put_frame[OF d(1)] d(2) by simp
    have s0: "vlist (tasks w) = [] @ t # []" using 2 by simp
    obtain l where l: "ptr_erase (tasks w) 0 = Inr l" "vlist l = []"
      using ptrs.erase[OF v s0, of 0] by auto
    have m': "m' = put_worker p (w\<lparr>tasks := l\<rparr>) m2"
      using m2(2) w2 p(1) l(1)
      by (subst (asm) erase_loop.simps) (simp add: get_worker_def erase_loop.simps[of p 1])
    have ok2: "fresh_ok m2"
      using schedule_master_ok[OF assms(2) t s] m_do_put_ok[OF d(1)] d(2) master_okD(3) by simp
    have "ledger m' = ledger m" using ledger_put[OF ok2 w2, of "w\<lparr>tasks := l\<rparr>"] l2 2 l(2) m' by simp
    moreover have "acts p m2 m'" using m' w2 by (auto simp: acts_def)
    ultimately show ?thesis using a acts_trans by blast
  qed
qed

lemma detect_loop_outcome:
  "detect_loop raw t i n m = Inr m' \<Longrightarrow> master_ok m \<Longrightarrow>
    calm m m' \<and> watches m m' \<and> ledger m' = ledger m"
proof (induction raw t i n m rule: detect_loop.induct)
  case (1 raw t i n m)
  show ?case
  proof (cases "i < n")
    case True
    note now = "1.prems"(1)[unfolded detect_loop.simps[of raw t i] if_P[OF True]]
    obtain p where p: "vector_get (worker_list m) i = Inr p" using now by (auto simp: bindr_eq_Inr)
    have free: "\<not> mutex m" using "1.prems"(2) by (rule master_okD)
    show ?thesis
    proof (cases "p = NULL")
      case null: True
      then show ?thesis using now p "1.IH"(1)[OF True p null] "1.prems"(2) by simp
    next
      case False
      let ?m1 = "m\<lparr>mutex := True\<rparr>"
      have l: "lock_mutex m = Inr ?m1" using free by (rule lock_free)
      have u: "unlock_mutex ?m1 = m" using free by simp
      obtain w where w: "get_worker ?m1 p = Inr w"
        using now p False l by (auto simp: bindr_eq_Inr)
      have w': "get_worker m p = Inr w" "m_workers m p = Some w"
        using w by (simp_all add: get_worker_def deref_Inr)
      have e: "(Num 0 < last_beat_received w \<and> alive w = 1 \<and> Num 3 < t - last_beat_received w)
        = expired t w" by (simp only: expired_def)
      note now' = now[unfolded p bindr_Inr if_not_P[OF False] l w Let_def u e]
      show ?thesis
      proof (cases "expired t w")
        case ex: True
        let ?m = "put_worker p (w\<lparr>alive := 0\<rparr>) m"
        obtain m3 where m3: "reschedule raw p ?m = Inr m3" "detect_loop raw t (i + 1) n m3 = Inr m'"
          using now' ex by (auto simp: bindr_eq_Inr)
        have ok: "master_ok ?m \<and> same_shape m ?m" by (rule master_put[OF "1.prems"(2) w'(1)]) simp_all
        have k: "master_ok m3" using reschedule_ok[OF m3(1)] ok by blast
        have mind: "minds p m ?m" by (rule minds_put[OF w'(1)]) (simp_all add: like_def)
        have r: "acts p ?m m3 \<and> ledger m3 = ledger ?m"
          by (rule reschedule_outcome[OF m3(1), of "w\<lparr>alive := 0\<rparr>"]) (use ok in simp_all)
        then have a: "acts p m m3" "ledger m3 = ledger m"
          using acts_trans[OF minds_acts[OF mind]] ledger_minds[OF mind] by auto
        have alive: "alive w \<noteq> 0" "Num 0 < last_beat_received w" using ex unfolding expired_def by auto
        have "calm m m3" "watches m m3"
          using acts_calm[OF a(1) w'(1) alive(1)] acts_watches[OF a(1) w'(2) alive(2)] .
        moreover have "calm m3 m' \<and> watches m3 m' \<and> ledger m' = ledger m3"
          using "1.IH"(2)[OF True p False l w refl refl, unfolded u e, OF ex m3(1,2) k] .
        ultimately show ?thesis using a(2) calm_trans watches_trans by metis
      next
        case fine: False
        have "detect_loop raw t (i + 1) n m = Inr m'" using now' fine by simp
        from "1.IH"(3)[OF True p False l w refl refl, unfolded u e, OF fine this "1.prems"(2)]
        show ?thesis .
      qed
    qed
  next
    case False
    then show ?thesis using "1.prems" by (simp add: detect_loop.simps[of raw t i])
  qed
qed

section \<open>New connections and heartbeats\<close>

lemma accept_outcome:
  "accept_connections raw epoll_add pending m = Inr m' \<Longrightarrow> accept_fresh pending (m_os m) \<Longrightarrow>
    master_inv m \<Longrightarrow> calm m m' \<and> ledger m' = ledger m \<and> interface m' = interface m
      \<and> interface_fd m' = interface_fd m
      \<and> (\<exists>ps. vlist (worker_list m') = vlist (worker_list m) @ ps \<and> (\<forall>p\<in>set ps. m_workers m p = None))"
proof (induction raw epoll_add pending m rule: accept_connections.induct)
  case (3 raw epoll_add new_fd ip rest m)
  obtain w os where c: "create_worker raw new_fd ip (open_socket new_fd (m_os m)) = Inr (w, os)"
    using "3.prems"(1) by (auto simp: bindr_eq_Inr)
  note w = create_worker_Inr[OF c]
  obtain p m1 where a: "alloc_worker w (m\<lparr>m_os := os\<rparr>) = (p, m1)" by fastforce
  obtain l where l: "ptr_push (worker_list m1) p = Inr l" "epoll_add new_fd"
    "accept_connections raw epoll_add rest (m1\<lparr>worker_list := l\<rparr>) = Inr m'"
    using "3.prems"(1) c a by (auto simp: bindr_eq_Inr split: if_splits)
  let ?m = "m1\<lparr>worker_list := l\<rparr>"
  have "tasks_ok m (tasks w)" using w by (simp add: tasks_ok_def)
  then have inv: "master_inv ?m"
    using "3.prems"(2,3) w a l(1) by (intro accept_one[where w = w and fd = new_fd and m = m]) auto
  have os: "m_os m1 = open_socket new_fd (m_os m)"
    using a w by (auto simp: alloc_worker_def)
  have ok: "fresh_ok m" "sched_ok m" using "3.prems"(3) by (simp_all add: master_inv_def master_ok_def)
  have m1: "p = next_ptr m" "m_workers m1 = (m_workers m)(p \<mapsto> w)" "worker_list m1 = worker_list m"
    "task_list m1 = task_list m" "m_tasks m1 = m_tasks m" "next_ptr m1 = next_ptr m + 1"
    "interface m1 = interface m" "interface_fd m1 = interface_fd m"
    using a by (auto simp: alloc_worker_def)
  have new: "m_workers m p = None" using ok(1) m1(1) by (simp add: fresh_ok_def)
  have "calm m ?m" using m1 new by (auto simp: calm_def)
  moreover have "ledger ?m = ledger m"
    using m1 w new by (auto simp: ledger_def intro: sum.cong)
  moreover have "vlist l = vlist (worker_list m) @ [p]"
    using ptr_push_Inr[OF l(1)] sched_okD(1)[OF ok(2)] m1(3) by simp
  moreover have IH: "calm ?m m' \<and> ledger m' = ledger ?m \<and> interface m' = interface ?m
      \<and> interface_fd m' = interface_fd ?m
      \<and> (\<exists>ps. vlist (worker_list m') = vlist (worker_list ?m) @ ps \<and> (\<forall>p\<in>set ps. m_workers ?m p = None))"
    using "3.prems"(2) os
    by (intro "3.IH"[OF c refl refl a[symmetric] l(1,2,3) _ inv]) simp
  ultimately have "calm m m'" "ledger m' = ledger m" using calm_trans by metis+
  moreover obtain ps where ps: "vlist (worker_list m') = vlist (worker_list m) @ p # ps"
    "\<forall>q\<in>set ps. m_workers m1 q = None"
    using IH \<open>vlist l = vlist (worker_list m) @ [p]\<close> by auto
  moreover have "\<forall>q\<in>set (p # ps). m_workers m q = None" using ps(2) new m1(2) by (auto split: if_splits)
  ultimately show ?case using IH m1 by (intro conjI exI[of _ "p # ps"]) auto
qed (auto split: if_splits)

lemma heartbeat_cases:
  assumes "report_heartbeat a u t m = Inr m'" "master_inv m"
  obtains "m' = m"
  | p w where "List.find (worker_is m (\<lambda>w. IP w = a)) (vlist (worker_list m)) = Some p"
      "m_workers m p = Some w" "IP w = a" "p \<in> set (vlist (worker_list m))"
      "m' = put_worker p (w\<lparr>CPU_usage := u, last_beat_received := t,
          alive := (if alive w = 0 then 1 else alive w)\<rparr>) m"
proof (cases "List.find (worker_is m (\<lambda>w. IP w = a)) (vlist (worker_list m))")
  case None
  have ok: "sched_ok m" using assms(2) by (simp add: master_inv_def master_ok_def)
  show thesis using report_heartbeat_ok[OF ok, of a u t] assms(1) None that(1) by simp
next
  case (Some p)
  have ok: "sched_ok m" using assms(2) by (simp add: master_inv_def master_ok_def)
  from worker_found[OF ok Some] obtain w where w: "m_workers m p = Some w" "IP w = a"
    "p \<in> set (vlist (worker_list m))" by metis
  then show thesis using report_heartbeat_ok[OF ok, of a u t] assms(1) Some that(2) by simp
qed

end
