(* ===== verification/Master_Runs.thy ===== *)
theory Master_Runs
  imports Master_Steps
begin

text \<open>
  Whole runs of the master. Every task is outstanding at most once: parked or on one list. A dead
  worker is frozen until a heartbeat from its address, a dead interface for ever. Of two connections
  of one host the later one is not monitored while the earlier one is listed.
\<close>

section \<open>One step\<close>

text \<open>What a step other than a heartbeat does to the outstanding tasks: nothing, one new task, or one
  task less on the list of a live worker.\<close>

definition accounts :: "mstate \<Rightarrow> mstate \<Rightarrow> bool" where
  "accounts m m' \<longleftrightarrow> ledger m' = ledger m
     \<or> (\<exists>t. m_tasks m t = None \<and> m_tasks m' t \<noteq> None \<and> ledger m' = add_mset t (ledger m))
     \<or> (\<exists>p w t. m_workers m p = Some w \<and> alive w \<noteq> 0 \<and> t \<in> set (vlist (tasks w))
          \<and> ledger m = add_mset t (ledger m'))"

lemma ledger_same:
  "task_list m' = task_list m \<Longrightarrow> m_workers m' = m_workers m \<Longrightarrow> next_ptr m' = next_ptr m \<Longrightarrow>
    ledger m' = ledger m"
  by (simp add: ledger_def)

lemma calm_same:
  "task_list m' = task_list m \<Longrightarrow> m_workers m' = m_workers m \<Longrightarrow> m_tasks m' = m_tasks m \<Longrightarrow> calm m m'"
  by (simp add: calm_def)

lemma handle_data_calm:
  assumes "handle_data e_fd m = Inr m'" "master_inv m"
  shows "calm m m' \<and> accounts m m'"
  using assms
proof (cases rule: handle_data_outcome)
  case nothing
  then show ?thesis by (simp add: accounts_def)
next
  case (serves p w)
  then have "m_workers m p = Some w" by (simp add: get_worker_def deref_Inr)
  then have "accounts m m'" using serves(3,5) unfolding balance_def accounts_def by (metis option.inject)
  then show ?thesis using acts_calm[OF serves(4,2,3)] by blast
qed

lemma detect_pass_outcome:
  "detect_pass raw t m = Inr m' \<Longrightarrow> master_inv m \<Longrightarrow>
    calm m m' \<and> watches m m' \<and> ledger m' = ledger m \<and> same_shape m m'"
  using detect_loop_outcome detect_loop_ok unfolding detect_pass_def master_inv_def by blast

lemma heartbeat_ledger:
  assumes "report_heartbeat a u t m = Inr m'" "master_inv m"
  shows "ledger m' = ledger m \<and> task_list m' = task_list m \<and> m_tasks m' = m_tasks m"
  using assms
proof (cases rule: heartbeat_cases)
  case (2 p w)
  let ?w = "w\<lparr>CPU_usage := u, last_beat_received := t, alive := (if alive w = 0 then 1 else alive w)\<rparr>"
  have "fresh_ok m" using assms(2) by (simp add: master_inv_def master_ok_def)
  from ledger_put[OF this 2(2), of ?w] have "ledger (put_worker p ?w m) = ledger m" by simp
  then show ?thesis unfolding 2(5) by simp
qed simp

text \<open>The steps, all but the heartbeats together.\<close>

lemma step_outcome:
  assumes "master_step m m'" "master_inv m"
  obtains (quiet) "calm m m'" "accounts m m'"
  | (beat) a u t where "report_heartbeat a u t m = Inr m'"
  using assms(1)
proof cases
  case (arrives fd es)
  then show thesis using quiet calm_same[of m' m] ledger_same[of m' m] by (simp add: accounts_def)
next
  case (connects raw epoll_add pending)
  then show thesis using quiet accept_outcome assms(2) by (metis accounts_def)
next
  case (data e_fd)
  then show thesis using quiet handle_data_calm assms(2) by blast
next
  case (heartbeat addr usage t)
  then show thesis by (rule beat)
next
  case (monitor raw t)
  then show thesis using quiet detect_pass_outcome assms(2) by (metis accounts_def)
qed

section \<open>Every task once\<close>

definition tasks_once :: "mstate \<Rightarrow> bool" where
  "tasks_once m \<longleftrightarrow> (\<forall>t. count (ledger m) t \<le> (if m_tasks m t = None then 0 else 1))"

lemma step_accounts: "master_step m m' \<Longrightarrow> master_inv m \<Longrightarrow> accounts m m'"
  by (erule (1) step_outcome) (auto simp: accounts_def heartbeat_ledger)

lemma step_tasks: "master_step m m' \<Longrightarrow> master_inv m \<Longrightarrow>
  prefix (vlist (task_list m)) (vlist (task_list m')) \<and> m_tasks m \<subseteq>\<^sub>m m_tasks m'"
  by (erule (1) step_outcome) (auto simp: calm_def heartbeat_ledger)

lemma step_once:
  assumes "master_step m m'" "master_inv m" "tasks_once m"
  shows "tasks_once m'"
  unfolding tasks_once_def
proof
  fix t
  have old: "count (ledger m) t \<le> (if m_tasks m t = None then 0 else 1)"
    using assms(3) by (simp add: tasks_once_def)
  have keep: "m_tasks m' t \<noteq> None" if "m_tasks m t \<noteq> None"
  proof -
    have "m_tasks m \<subseteq>\<^sub>m m_tasks m'" using step_tasks[OF assms(1,2)] by blast
    then show ?thesis using that unfolding map_le_def by (metis domI not_None_eq)
  qed
  from step_accounts[OF assms(1,2)]
  consider "ledger m' = ledger m"
    | s where "m_tasks m s = None" "m_tasks m' s \<noteq> None" "ledger m' = add_mset s (ledger m)"
    | s where "ledger m = add_mset s (ledger m')" unfolding accounts_def by blast
  then show "count (ledger m') t \<le> (if m_tasks m' t = None then 0 else 1)"
  proof cases
    case 1
    then show ?thesis using old keep by (auto split: if_splits)
  next
    case (2 s)
    then show ?thesis using old keep by (cases "s = t") (auto split: if_splits)
  next
    case (3 s)
    then show ?thesis using old keep by (cases "s = t") (auto split: if_splits)
  qed
qed

lemma reach_once: "master_reach m0 m \<Longrightarrow> master_inv m0 \<Longrightarrow> tasks_once m0 \<Longrightarrow> tasks_once m"
  by (induction rule: master_reach.induct) (auto intro: step_once master_reach_inv)

lemma initial_once:
  assumes "initial_master os = Inr m"
  shows "tasks_once m"
proof -
  obtain v where v: "ptr_create = Inr v" "vlist v = []" by (rule ptr_create_ok)
  then have "vlist (task_list m) = []" "m_workers m = (\<lambda>_. None)"
    using assms unfolding initial_master_def v(1) bindr_Inr by auto
  then show ?thesis by (simp add: tasks_once_def ledger_def)
qed

lemma reach_tasks: "master_reach m0 m \<Longrightarrow> master_inv m0 \<Longrightarrow>
  prefix (vlist (task_list m0)) (vlist (task_list m)) \<and> m_tasks m0 \<subseteq>\<^sub>m m_tasks m"
proof (induction rule: master_reach.induct)
  case (step m m')
  then have "prefix (vlist (task_list m)) (vlist (task_list m')) \<and> m_tasks m \<subseteq>\<^sub>m m_tasks m'"
    using step_tasks master_reach_inv by blast
  then show ?case using step prefix_order.trans map_le_trans by blast
qed simp

text \<open>So a task is in one place only.\<close>

lemma ledger_parts:
  assumes "fresh_ok m" "m_workers m p = Some w"
  shows "mset (vlist (task_list m)) + mset (vlist (tasks w)) \<subseteq># ledger m"
    "m_workers m q = Some v \<Longrightarrow> q \<noteq> p \<Longrightarrow> mset (vlist (tasks v)) + mset (vlist (tasks w)) \<subseteq># ledger m"
proof -
  let ?f = "\<lambda>p. case m_workers m p of None \<Rightarrow> {#} | Some w \<Rightarrow> mset (vlist (tasks w))"
  have p: "p \<in> {..<next_ptr m}" using fresh_below[OF assms] by simp
  have s: "sum ?f {..<next_ptr m} = mset (vlist (tasks w)) + sum ?f ({..<next_ptr m} - {p})"
    using p assms(2) by (subst sum.remove[of _ p]) auto
  then show "mset (vlist (task_list m)) + mset (vlist (tasks w)) \<subseteq># ledger m"
    by (simp add: ledger_def)
  assume q: "m_workers m q = Some v" "q \<noteq> p"
  then have "q \<in> {..<next_ptr m} - {p}" using fresh_below[OF assms(1) q(1)] by simp
  then have "sum ?f ({..<next_ptr m} - {p})
      = mset (vlist (tasks v)) + sum ?f ({..<next_ptr m} - {p} - {q})"
    using q by (subst sum.remove[of _ q]) auto
  then show "mset (vlist (tasks v)) + mset (vlist (tasks w)) \<subseteq># ledger m"
    using s by (simp add: ledger_def subset_mset_def)
qed

lemma once_apart:
  assumes "master_inv m" "tasks_once m" "m_workers m p = Some w" "t \<in> set (vlist (tasks w))"
  shows "t \<notin> set (vlist (task_list m))"
    "m_workers m q = Some v \<Longrightarrow> q \<noteq> p \<Longrightarrow> t \<notin> set (vlist (tasks v))"
proof -
  have f: "fresh_ok m" using assms(1) by (simp add: master_inv_def master_ok_def)
  have "count (ledger m) t \<le> (if m_tasks m t = None then 0 else 1)" using assms(2)
    unfolding tasks_once_def by blast
  then have once: "count (ledger m) t \<le> 1" by (simp split: if_splits)
  have here: "1 \<le> count (mset (vlist (tasks w))) t"
    using assms(4) by (simp only: count_greater_eq_one_iff set_mset_mset)
  have there: "t \<notin> set l" if "mset l + mset (vlist (tasks w)) \<subseteq># ledger m" for l
  proof -
    have "count (mset l) t + count (mset (vlist (tasks w))) t \<le> count (ledger m) t"
      using mset_subset_eq_count[OF that, of t] by simp
    then have "count (mset l) t = 0" using once here by linarith
    then show ?thesis by simp
  qed
  show "t \<notin> set (vlist (task_list m))" by (rule there[OF ledger_parts(1)[OF f assms(3)]])
  show "t \<notin> set (vlist (tasks v))" if "m_workers m q = Some v" "q \<noteq> p"
    by (rule there[OF ledger_parts(2)[OF f assms(3) that]])
qed

section \<open>Runs without a heartbeat from an address\<close>

inductive unheard :: "string \<Rightarrow> mstate \<Rightarrow> mstate \<Rightarrow> bool" for a m0 where
  start: "unheard a m0 m0"
| arrives: "unheard a m0 m \<Longrightarrow> unheard a m0 (m\<lparr>m_os := feed (m_os m) fd es\<rparr>)"
| connects: "unheard a m0 m \<Longrightarrow> accept_connections raw epoll_add pending m = Inr m' \<Longrightarrow>
    accept_fresh pending (m_os m) \<Longrightarrow> unheard a m0 m'"
| data: "unheard a m0 m \<Longrightarrow> handle_data e_fd m = Inr m' \<Longrightarrow> unheard a m0 m'"
| heartbeat: "unheard a m0 m \<Longrightarrow> report_heartbeat addr usage t m = Inr m' \<Longrightarrow> addr \<noteq> a \<Longrightarrow>
    unheard a m0 m'"
| monitor: "unheard a m0 m \<Longrightarrow> detect_pass raw t m = Inr m' \<Longrightarrow> unheard a m0 m'"

lemma unheard_reach: "unheard a m0 m \<Longrightarrow> master_reach m0 m"
  by (induction rule: unheard.induct) (auto intro: master_reach.intros master_step.intros)

text \<open>A dead worker is frozen: it gets no task, loses none, and no data of its connection is read.\<close>

lemma unheard_frozen:
  assumes "unheard (IP w) m0 m" "master_inv m0" "m_workers m0 p = Some w" "alive w = 0"
  shows "m_workers m p = Some w"
  using assms(1)
proof (induction rule: unheard.induct)
  case start
  then show ?case using assms(3) .
next
  case (arrives m fd es)
  then show ?case by simp
next
  case (connects m raw epoll_add pending m')
  have "master_inv m" using master_reach_inv[OF unheard_reach[OF connects(1)] assms(2)] .
  then have "calm m m'" using accept_outcome connects(2,3) by blast
  then show ?case using connects.IH assms(4) unfolding calm_def by blast
next
  case (data m e_fd m')
  have "master_inv m" using master_reach_inv[OF unheard_reach[OF data(1)] assms(2)] .
  then have "calm m m'" using handle_data_calm data(2) by blast
  then show ?case using data.IH assms(4) unfolding calm_def by blast
next
  case (heartbeat m addr usage t m')
  have "master_inv m" using master_reach_inv[OF unheard_reach[OF heartbeat(1)] assms(2)] .
  from heartbeat(2) this show ?case
  proof (cases rule: heartbeat_cases)
    case (2 q v)
    then have "q \<noteq> p" using heartbeat.IH heartbeat(3) by auto
    then show ?thesis using heartbeat.IH 2(5) by simp
  qed (use heartbeat.IH in simp)
next
  case (monitor m raw t m')
  have "master_inv m" using master_reach_inv[OF unheard_reach[OF monitor(1)] assms(2)] .
  then have "calm m m'" using detect_pass_outcome monitor(2) by blast
  then show ?case using monitor.IH assms(4) unfolding calm_def by blast
qed

text \<open>Its tasks are on its list and nowhere else, for as long.\<close>

lemma stranded_tasks:
  assumes "unheard (IP w) m0 m" "master_inv m0" "tasks_once m0" "m_workers m0 p = Some w" "alive w = 0"
    "t \<in> set (vlist (tasks w))"
  shows "t \<notin> set (vlist (task_list m))"
    "m_workers m q = Some v \<Longrightarrow> q \<noteq> p \<Longrightarrow> t \<notin> set (vlist (tasks v))"
proof -
  note r = unheard_reach[OF assms(1)]
  note now = once_apart[OF master_reach_inv[OF r assms(2)] reach_once[OF r assms(2,3)]
      unheard_frozen[OF assms(1,2,4,5)] assms(6)]
  show "t \<notin> set (vlist (task_list m))" by (rule now)
  show "t \<notin> set (vlist (tasks v))" if "m_workers m q = Some v" "q \<noteq> p" by (rule now(2)[OF that])
qed

section \<open>A dead interface\<close>

definition locked :: "mstate \<Rightarrow> bool" where
  "locked m \<longleftrightarrow> interface_fd m \<noteq> - 1 \<and> worker_is m (\<lambda>w. alive w = 0) (interface m)"

lemma calm_dead: "calm m m' \<Longrightarrow> worker_is m (\<lambda>w. alive w = 0) p \<Longrightarrow> m_workers m' p = m_workers m p"
  by (auto simp: worker_is_def calm_def split: option.splits)

lemma locked_same:
  assumes "locked m" "same_list m m'" "m_workers m' (interface m) = m_workers m (interface m)"
  shows "locked m' \<and> interface m' = interface m \<and> interface_fd m' = interface_fd m
    \<and> m_workers m' (interface m) = m_workers m (interface m)"
  using assms by (simp add: locked_def same_list_def worker_is_def)

lemma locked_step:
  assumes "master_step m m'" "master_inv m" "locked m"
  shows "locked m' \<and> interface m' = interface m \<and> interface_fd m' = interface_fd m
    \<and> m_workers m' (interface m) = m_workers m (interface m)"
proof -
  have dead: "worker_is m (\<lambda>w. alive w = 0) (interface m)" "interface_fd m \<noteq> - 1"
    using assms(3) by (simp_all add: locked_def)
  show ?thesis
    using assms(1)
  proof cases
    case (arrives fd es)
    then show ?thesis using assms(3) by (intro locked_same) (simp_all add: same_list_def)
  next
    case (connects raw epoll_add pending)
    from accept_outcome[OF this assms(2)] have "calm m m'" "interface m' = interface m"
      "interface_fd m' = interface_fd m" by blast+
    then show ?thesis using dead calm_dead by (simp add: locked_def worker_is_def)
  next
    case (data e_fd)
    have w: "m_workers m' (interface m) = m_workers m (interface m)"
      using calm_dead[OF _ dead(1)] handle_data_calm[OF data assms(2)] by blast
    from data assms(2) have "same_list m m'"
    proof (cases rule: handle_data_list)
      case leaves
      then show ?thesis using dead(1) by (simp add: worker_is_def split: option.splits)
    qed (use dead(2) in simp_all)
    then show ?thesis using w by (rule locked_same[OF assms(3)])
  next
    case (heartbeat addr usage t)
    from this assms(2) show ?thesis
    proof (cases rule: heartbeat_cases)
      case (2 p w)
      have "interface m \<notin> set (vlist (worker_list m))"
        using assms(2) by (simp add: master_inv_def master_ok_def iface_ok_def)
      then have "p \<noteq> interface m" using 2(4) by auto
      then show ?thesis using 2(5) assms(3) by (intro locked_same) (simp_all add: same_list_def)
    qed (use assms(3) in simp)
  next
    case (monitor raw t)
    from detect_pass_outcome[OF this assms(2)] have "calm m m'" "same_list m m'"
      using same_list_shape by blast+
    then show ?thesis using dead calm_dead by (intro locked_same[OF assms(3)]) auto
  qed
qed

lemma locked_reach:
  "master_reach m0 m \<Longrightarrow> master_inv m0 \<Longrightarrow> locked m0 \<Longrightarrow>
    locked m \<and> interface m = interface m0 \<and> interface_fd m = interface_fd m0
      \<and> m_workers m (interface m0) = m_workers m0 (interface m0)"
proof (induction rule: master_reach.induct)
  case (step m m')
  have "locked m" "interface m = interface m0" using step by blast+
  with locked_step[OF step(2) master_reach_inv[OF step(1,4)]] step show ?case by simp
qed simp

section \<open>Two connections of one host\<close>

text \<open>A worker that does not stand before another one of its host on the list, and has no heartbeat on
  record.\<close>

definition shadowed :: "ptr \<Rightarrow> ptr \<Rightarrow> string \<Rightarrow> mstate \<Rightarrow> bool" where
  "shadowed p q a m \<longleftrightarrow> p \<noteq> q \<and> worker_is m (\<lambda>w. IP w = a) q
     \<and> worker_is m (\<lambda>w. IP w = a \<and> \<not> Num 0 < last_beat_received w) p
     \<and> \<not> subseq [p, q] (vlist (worker_list m))"

text \<open>Old workers only leave the list, new ones come last.\<close>

lemma step_list:
  assumes "master_step m m'" "master_inv m"
  obtains ps where "subseq (vlist (worker_list m')) (vlist (worker_list m) @ ps)"
    "\<forall>p\<in>set ps. m_workers m p = None"
proof -
  note new = that
  have keep: thesis if "worker_list m' = worker_list m" by (rule new[of "[]"]) (simp_all add: that)
  show thesis
    using assms(1)
  proof cases
    case (connects raw epoll_add pending)
    then show thesis using accept_outcome[OF connects assms(2)] new by (metis subseq_order.refl)
  next
    case (data e_fd)
    from data assms(2) show thesis
    proof (cases rule: handle_data_list)
      case (joins p ys zs)
      have "subseq (ys @ zs) (ys @ p # zs)" by (intro list_emb_append_mono) auto
      then have "subseq (vlist (worker_list m')) (vlist (worker_list m) @ [])" using joins by simp
      then show thesis by (rule new) simp
    qed (simp_all add: keep same_list_def)
  next
    case (heartbeat addr usage t)
    from this assms(2) show thesis by (cases rule: heartbeat_cases) (simp_all add: keep)
  next
    case (monitor raw t)
    then show thesis using detect_pass_outcome[OF monitor assms(2)] keep same_list_shape
      by (simp add: same_list_def same_shape_def)
  qed (simp add: keep)
qed

lemma calm_shadow:
  assumes "calm m m'"
  shows "worker_is m (\<lambda>w. IP w = a) q \<Longrightarrow> worker_is m' (\<lambda>w. IP w = a) q"
    "worker_is m (\<lambda>w. IP w = a \<and> \<not> Num 0 < last_beat_received w) q \<Longrightarrow>
      worker_is m' (\<lambda>w. IP w = a \<and> \<not> Num 0 < last_beat_received w) q"
proof -
  have "\<not> Num 0 < Num 0" by simp
  then have l: "IP w' = IP w \<and> (\<not> Num 0 < last_beat_received w \<longrightarrow> \<not> Num 0 < last_beat_received w')"
    if "like w w'" for w w' using that unfolding like_def by metis
  have w: "\<exists>w'. m_workers m' q = Some w' \<and> like w w'" if "m_workers m q = Some w" for w
    using assms that unfolding calm_def by blast
  show "worker_is m' (\<lambda>w. IP w = a) q" if q: "worker_is m (\<lambda>w. IP w = a) q"
  proof -
    obtain v where v: "m_workers m q = Some v" "IP v = a"
      using q by (cases "m_workers m q") (simp_all add: worker_is_def)
    then show ?thesis using w[OF v(1)] l by (auto simp: worker_is_def)
  qed
  show "worker_is m' (\<lambda>w. IP w = a \<and> \<not> Num 0 < last_beat_received w) q"
    if q: "worker_is m (\<lambda>w. IP w = a \<and> \<not> Num 0 < last_beat_received w) q"
  proof -
    obtain v where v: "m_workers m q = Some v" "IP v = a" "\<not> Num 0 < last_beat_received v"
      using q by (cases "m_workers m q") (simp_all add: worker_is_def)
    obtain v' where v': "m_workers m' q = Some v'" "like v v'" using w[OF v(1)] by blast
    then have "IP v' = a" "\<not> Num 0 < last_beat_received v'" using l[OF v'(2)] v(2,3) by simp_all
    then show ?thesis using v'(1) unfolding worker_is_def by simp
  qed
qed

lemma shadowed_step:
  assumes "master_step m m'" "master_inv m" "worker_is m (\<lambda>w. IP w = a) q"
    "q \<in> set (vlist (worker_list m)) \<longrightarrow> shadowed p q a m"
  shows "worker_is m' (\<lambda>w. IP w = a) q \<and> (q \<in> set (vlist (worker_list m')) \<longrightarrow> shadowed p q a m')"
proof -
  obtain ps where ps: "subseq (vlist (worker_list m')) (vlist (worker_list m) @ ps)"
    "\<forall>p\<in>set ps. m_workers m p = None" using step_list[OF assms(1,2)] by blast
  have new: "q \<notin> set ps" using ps(2) assms(3) by (auto simp: worker_is_def)
  have old: "q \<in> set (vlist (worker_list m))" if "q \<in> set (vlist (worker_list m'))"
    using list_emb_set[OF ps(1)] new that by auto
  have order: "\<not> subseq [p, q] (vlist (worker_list m'))" if "\<not> subseq [p, q] (vlist (worker_list m))"
  proof
    assume "subseq [p, q] (vlist (worker_list m'))"
    then have "subseq [p, q] (vlist (worker_list m) @ ps)" using ps(1) subseq_order.trans by blast
    then obtain xs ys where s: "[p, q] = xs @ ys" "subseq xs (vlist (worker_list m))" "subseq ys ps"
      by (auto simp: subseq_append_iff)
    have "ys = []" using s(1) list_emb_set[OF s(3)] new by (cases ys rule: rev_cases) auto
    then show False using s(1,2) that by simp
  qed
  from assms(1,2) show ?thesis
  proof (cases rule: step_outcome)
    case quiet
    then show ?thesis using calm_shadow[OF quiet(1)] assms(3,4) old order by (auto simp: shadowed_def)
  next
    case (beat b u t)
    from beat assms(2) show ?thesis
    proof (cases rule: heartbeat_cases)
      case 1
      then show ?thesis using assms(3,4) by simp
    next
      case (2 r w)
      have r: "r \<noteq> p" if "q \<in> set (vlist (worker_list m))"
      proof
        assume "r = p"
        have sh: "shadowed p q a m" using assms(4) that by blast
        then have b: "b = a" using 2(2,3) \<open>r = p\<close> by (simp add: shadowed_def worker_is_def)
        obtain ys zs where s: "vlist (worker_list m) = ys @ r # zs"
          "\<forall>y\<in>set ys. \<not> worker_is m (\<lambda>w. IP w = b) y" using 2(1) by (rule find_split)
        then have "q \<in> set zs" using that sh b \<open>r = p\<close> by (auto simp: shadowed_def)
        then have "subseq [p, q] (vlist (worker_list m))"
          using s(1) \<open>r = p\<close> by (auto intro!: list_emb_append2 simp: subseq_singleton_left)
        then show False using sh by (simp add: shadowed_def)
      qed
      have "worker_is m' (\<lambda>w. IP w = a) q" using assms(3) 2(2,5) by (auto simp: worker_is_def)
      moreover have "shadowed p q a m'" if q: "q \<in> set (vlist (worker_list m'))"
      proof -
        have "shadowed p q a m" "r \<noteq> p" using assms(4) old[OF q] r[OF old[OF q]] by blast+
        then show ?thesis using order calculation 2(5) by (simp add: shadowed_def worker_is_def)
      qed
      ultimately show ?thesis by blast
    qed
  qed
qed

lemma shadowed_reach:
  "master_reach m0 m \<Longrightarrow> master_inv m0 \<Longrightarrow> shadowed p q a m0 \<Longrightarrow>
    worker_is m (\<lambda>w. IP w = a) q \<and> (q \<in> set (vlist (worker_list m)) \<longrightarrow> shadowed p q a m)"
proof (induction rule: master_reach.induct)
  case start
  then show ?case by (simp add: shadowed_def)
next
  case (step m m')
  then show ?case using shadowed_step[OF step(2) master_reach_inv[OF step(1,4)]] by blast
qed

text \<open>So the monitor never finds it expired, however long it is silent.\<close>

lemma shadowed_monitor:
  assumes "shadowed p q a m" "master_inv m" "detect_pass raw t m = Inr m'" "m_workers m p = Some w"
  shows "\<exists>w'. m_workers m' p = Some w' \<and> alive w' = alive w"
proof -
  have "\<not> Num 0 < last_beat_received w" using assms(1,4) by (simp add: shadowed_def worker_is_def)
  moreover have "watches m m'" using detect_pass_outcome[OF assms(3,2)] by blast
  ultimately show ?thesis using assms(4) unfolding watches_def by blast
qed

end
