(* ===== verification/Examples.thy ===== *)
theory Examples
  imports Cluster_Protocol Worker_Shutdown Process_Start Old_Handshake Old_Processes Master_Runs
begin

text \<open>
  Concrete states of the program, on which the witnesses of the properties evaluate: small vectors,
  a system with a few descriptors, a master with an interface and a worker.
\<close>

section \<open>Vectors\<close>

definition ex_vector :: "ptr list \<Rightarrow> unit vector" where
  "ex_vector ps = \<lparr>copy_constructor = shallow_copy_constructor, destructor = shallow_destructor,
     default_constructor = shallow_default_constructor,
     array = ps @ replicate (10 - length ps) NULL, v_size = of_nat (length ps), capacity = 10\<rparr>"

lemma ex_vector_ok:
  assumes "length ps \<le> 10"
  shows "ptr_vector_ok (ex_vector ps)" "vec_ok (ex_vector ps)" "vlist (ex_vector ps) = ps"
    "vector_size (ex_vector ps) = of_nat (length ps)"
proof -
  have n: "unat (of_nat (length ps) :: size_t) = length ps"
    using assms by (intro unat_of_nat_small) simp
  show "vlist (ex_vector ps) = ps"
    by (rule vec_okI(2)[where m = "10 - length ps"]) (use assms n in \<open>simp_all add: ex_vector_def\<close>)
  show "vec_ok (ex_vector ps)"
    by (rule vec_okI(1)[where m = "10 - length ps" and xs = ps])
      (use assms n in \<open>simp_all add: ex_vector_def\<close>)
  then show "ptr_vector_ok (ex_vector ps)" by (simp add: ptr_vector_ok_def ex_vector_def)
  show "vector_size (ex_vector ps) = of_nat (length ps)"
    by (simp add: vector_size_def ex_vector_def)
qed

section \<open>Descriptors\<close>

text \<open>Descriptors 4 to 8 are non-blocking sockets; the next one is 10.\<close>

definition ex_os :: "(int \<Rightarrow> arrival list) \<Rightarrow> (int \<Rightarrow> acceptance list) \<Rightarrow> osys" where
  "ex_os arr acc = \<lparr>fds = (\<lambda>fd. if 4 \<le> fd \<and> fd \<le> 8 then Some (Sock True) else None),
     incoming = arr, wplan = acc, sent = (\<lambda>_. []), disk = (\<lambda>_. None), denied = (\<lambda>_. False),
     next_fd = 10\<rparr>"

section \<open>Workers\<close>

definition ex_worker :: "int \<Rightarrow> ptr list \<Rightarrow> worker" where
  "ex_worker fd ts = \<lparr>worker_fd = fd, alive = 1, IP = ''10.0.0.1'', tasks = ex_vector ts,
     CPU_usage = Num (1/2), last_beat_received = Num 0, status = START,
     command = replicate COMMAND_BUF_SIZE NUL, command_size = 0, to_do = PUT,
     temp_file_name = None, file_size = 0, size_buffer_pos = 0, temp_fd = - 1,
     fd_to_send_to = 0, file_buffer_pos = 0\<rparr>"

lemma ex_worker_ready: "ready (ex_worker fd ts)"
  by (simp add: ready_def ex_worker_def command_ok_def)

lemma ex_worker_simps [simp]:
  "worker_fd (ex_worker fd ts) = fd" "alive (ex_worker fd ts) = 1"
  "tasks (ex_worker fd ts) = ex_vector ts" "CPU_usage (ex_worker fd ts) = Num (1/2)"
  "last_beat_received (ex_worker fd ts) = Num 0" "command_size (ex_worker fd ts) = 0"
  "size_buffer_pos (ex_worker fd ts) = 0" "temp_fd (ex_worker fd ts) = - 1"
  "status (ex_worker fd ts) = START" "IP (ex_worker fd ts) = ''10.0.0.1''"
  by (simp_all add: ex_worker_def)

lemma ex_worker_load:
  "length ts \<le> 10 \<Longrightarrow> load_factor (ex_worker fd ts) = Num (5 + of_nat (length ts))"
  by (simp add: load_factor_def ex_vector_ok unat_of_nat_small)

section \<open>A master\<close>

text \<open>The interface is the worker struct at 1, on descriptor 4; a worker at 2, on descriptor 5, has
  the task at 3.\<close>

definition ex_task :: task where
  "ex_task = \<lparr>file_name = ''job'', orphan = 0, fd_owner = 0\<rparr>"

definition ex_master :: "osys \<Rightarrow> mstate" where
  "ex_master os = \<lparr>m_workers = [1 \<mapsto> ex_worker 4 [], 2 \<mapsto> ex_worker 5 [3]], m_tasks = [3 \<mapsto> ex_task],
     worker_list = ex_vector [2], task_list = ex_vector [], interface_fd = 4, interface = 1,
     mutex = False, next_ptr = 4, m_os = os\<rparr>"

lemma ex_master_simps [simp]:
  "m_workers (ex_master os) = [1 \<mapsto> ex_worker 4 [], 2 \<mapsto> ex_worker 5 [3]]"
  "m_tasks (ex_master os) = [3 \<mapsto> ex_task]" "m_os (ex_master os) = os"
  "vlist (worker_list (ex_master os)) = [2]" "vlist (task_list (ex_master os)) = []"
  "interface (ex_master os) = 1" "interface_fd (ex_master os) = 4" "\<not> mutex (ex_master os)"
  by (simp_all add: ex_master_def ex_vector_ok)

lemma ex_master_inv: "master_inv (ex_master (ex_os arr acc))"
proof -
  let ?m = "ex_master (ex_os arr acc)"
  have v: "ptr_vector_ok (worker_list ?m)" "ptr_vector_ok (task_list ?m)"
    by (simp_all add: ex_master_def ex_vector_ok)
  have t: "tasks_ok ?m (ex_vector [])" "tasks_ok ?m (ex_vector [3])"
    by (simp_all add: tasks_ok_def ex_vector_ok task_ptr_def)
  have w: "worker_ptr ?m 1" "worker_ptr ?m 2" using t by (simp_all add: worker_ptr_def)
  have "sched_ok ?m" using v w by (simp add: sched_ok_def tasks_ok_def)
  moreover have "iface_ok ?m" using w by (simp add: iface_ok_def worker_is_def)
  moreover have "fresh_ok ?m" by (auto simp: fresh_ok_def ex_master_def)
  moreover have "conn_ok ?m" by (simp add: conn_ok_def fd_of_def ex_os_def)
  ultimately show ?thesis by (simp add: master_inv_def master_ok_def)
qed

lemma ex_master_runs:
  "runs (ex_master os) q v \<longleftrightarrow> (q = 1 \<and> v = ex_worker 4 [] \<or> q = 2 \<and> v = ex_worker 5 [3])"
  by (auto simp: runs_def)

section \<open>Messages under way\<close>

definition ex_request :: "int \<Rightarrow> arrival list" where
  "ex_request = (\<lambda>fd. if fd = 4 then [Chunk (take 20 (message INTERFACE_PUT ''job'' ''xy'')),
     Fail EINTR, Chunk (drop 20 (message INTERFACE_PUT ''job'' ''xy''))] else [])"

definition ex_answer :: "int \<Rightarrow> arrival list" where
  "ex_answer = (\<lambda>fd. if fd = 5 then [Chunk (message PUT ''job'' ''z'')] else [])"

section \<open>Masters with a silent worker\<close>

text \<open>One worker, on descriptor 5, without tasks, last heard of at \<open>beat\<close>.\<close>

definition ex_idle :: "dbl \<Rightarrow> mstate" where
  "ex_idle beat = \<lparr>m_workers = [2 \<mapsto> (ex_worker 5 [])\<lparr>last_beat_received := beat\<rparr>],
     m_tasks = Map.empty, worker_list = ex_vector [2], task_list = ex_vector [],
     interface_fd = - 1, interface = NULL, mutex = False, next_ptr = 3,
     m_os = ex_os (\<lambda>_. []) (\<lambda>_. [])\<rparr>"

text \<open>A dead worker at 2 with tasks, and a live one at 4 on descriptor 6.\<close>

definition ex_dead :: "ptr list \<Rightarrow> osys \<Rightarrow> mstate" where
  "ex_dead ts os = \<lparr>m_workers = [2 \<mapsto> (ex_worker 5 ts)\<lparr>alive := 0\<rparr>, 4 \<mapsto> ex_worker 6 []],
     m_tasks = [3 \<mapsto> ex_task], worker_list = ex_vector [2, 4], task_list = ex_vector [],
     interface_fd = - 1, interface = NULL, mutex = False, next_ptr = 5, m_os = os\<rparr>"

lemma ex_dead_ok: "set ts \<subseteq> {3} \<and> length ts \<le> 10 \<Longrightarrow> sched_ok (ex_dead ts os)"
  by (auto simp: ex_dead_def sched_ok_def tasks_ok_def worker_ptr_def task_ptr_def ex_vector_ok)

section \<open>Masters on the run\<close>

text \<open>A new connection, from any address, on a descriptor the system does not use.\<close>

lemma ex_accept:
  assumes "master_inv m" "fds (m_os m) fd = None" "0 \<le> fd" "length (vlist (worker_list m)) < 10"
  obtains m' p w where "master_step m m'" "vlist (worker_list m') = vlist (worker_list m) @ [p]"
    "m_workers m' = (m_workers m)(p \<mapsto> w)" "p = next_ptr m" "IP w = a" "last_beat_received w = Num 0"
proof -
  let ?p = "[Accepted fd a, Accept_fails EAGAIN]" and ?raw = "ex_worker 0 []"
  have ok: "sched_ok m" using assms(1) by (simp add: master_inv_def master_ok_def)
  obtain v where v: "ptr_create = Inr v" by (rule ptr_create_ok)
  obtain w os' where w: "create_worker ?raw fd a (open_socket fd (m_os m)) = Inr (w, os')"
    "IP w = a" "last_beat_received w = Num 0"
    by (simp add: create_worker_def v reset_worker_for_parsing_def Let_def)
  obtain p m1 where al: "alloc_worker w (m\<lparr>m_os := os'\<rparr>) = (p, m1)" by fastforce
  then have m1: "worker_list m1 = worker_list m" "m_workers m1 = (m_workers m)(p \<mapsto> w)" "p = next_ptr m"
    by (auto simp: alloc_worker_def)
  obtain l where l: "ptr_push (worker_list m1) p = Inr l" "vlist l = vlist (worker_list m) @ [p]"
    using ptrs.push[OF sched_okD(1)[OF ok], of p] assms(4) m1(1) by auto
  have "accept_connections ?raw (\<lambda>_. True) ?p m = Inr (m1\<lparr>worker_list := l\<rparr>)"
    using w(1) al l(1) m1(1) by simp
  moreover have "accept_fresh ?p (m_os m)" using assms(2,3) by simp
  ultimately have "master_step m (m1\<lparr>worker_list := l\<rparr>)" by (rule master_step.connects)
  then show thesis by (rule that[of _ p w]) (use l(2) m1(2,3) w(2,3) in simp_all)
qed

lemma ex_first_worker:
  obtains m0 m p where "initial_master (ex_os (\<lambda>_. []) (\<lambda>_. [])) = Inr m0" "master_step m0 m"
    "vlist (worker_list m) = [p]"
proof -
  let ?os = "ex_os (\<lambda>_. []) (\<lambda>_. [])"
  obtain m0 where m0: "initial_master ?os = Inr m0" "vlist (worker_list m0) = []" "m_os m0 = ?os"
    by (rule initial_master_ok[of ?os]) auto
  have "fds (m_os m0) 9 = None" "(0 :: int) \<le> 9" "length (vlist (worker_list m0)) < 10"
    using m0(2,3) by (simp_all add: ex_os_def)
  from ex_accept[OF initial_master_inv[OF m0(1)] this, of "''10.0.0.1''"] obtain m p where
    m: "master_step m0 m" "vlist (worker_list m) = vlist (worker_list m0) @ [p]" by blast
  show thesis by (rule that[OF m0(1) m(1), of p]) (use m(2) m0(2) in simp)
qed

text \<open>The worker hangs up. What is left has no live worker, and the task at 3 on the dead one's list.\<close>

lemma ex_master_once: "tasks_once (ex_master os)"
proof -
  have "ledger (ex_master os) = {#3#}"
    by (simp add: ledger_def ex_master_def ex_vector_ok lessThan_Suc numeral_eq_Suc)
  then show ?thesis by (simp add: tasks_once_def)
qed

definition ex_gone :: "osys \<Rightarrow> mstate" where
  "ex_gone os = put_worker 2 ((ex_worker 5 [3])\<lparr>alive := 0\<rparr>) (ex_master os)"

lemma ex_gone_inv: "master_inv (ex_gone (ex_os arr acc))"
proof -
  have "get_worker (ex_master (ex_os arr acc)) 2 = Inr (ex_worker 5 [3])" by (simp add: get_worker_def)
  from master_put[OF _ this, of "(ex_worker 5 [3])\<lparr>alive := 0\<rparr>"] ex_master_inv[of arr acc] show ?thesis
    unfolding ex_gone_def by (intro master_inv_shape[OF ex_master_inv[of arr acc]]) (simp add: master_inv_def)
qed

lemma ex_gone_once: "tasks_once (ex_gone os)"
proof -
  have "minds 2 (ex_master os) (ex_gone os)"
    unfolding ex_gone_def by (rule minds_put[where w = "ex_worker 5 [3]"]) (simp_all add: get_worker_def like_def)
  from ledger_minds[OF this] show ?thesis
    using ex_master_once[of os] by (simp add: tasks_once_def ex_gone_def)
qed

section \<open>Transfers\<close>

text \<open>A worker on descriptor 5 in the middle of a message: \<open>n\<close> bytes of the body are to come.\<close>

definition ex_receiving :: "size_t \<Rightarrow> worker" where
  "ex_receiving n = (ex_worker 5 [])\<lparr>temp_file_name := Some ''f'', file_size := n\<rparr>"

text \<open>A stored file, open on descriptor 9, and the peer's behaviour on descriptor 4.\<close>

definition ex_stored :: worker where
  "ex_stored = (ex_worker 5 [])\<lparr>temp_file_name := Some ''f'', temp_fd := 9\<rparr>"

definition ex_stored_os :: "acceptance list \<Rightarrow> osys" where
  "ex_stored_os acc = (ex_os (\<lambda>_. []) (\<lambda>fd. if fd = 4 then acc else []))
     \<lparr>fds := (fds (ex_os (\<lambda>_. []) (\<lambda>_. [])))(9 \<mapsto> File ''f'' 2), disk := [''f'' \<mapsto> ''xy'']\<rparr>"

section \<open>Worker and interface processes\<close>

text \<open>A process with a connection to the master on descriptor 4, the terminal on descriptor 1, and a
  program on its disk.\<close>

definition ex_client :: "(int \<Rightarrow> arrival list) \<Rightarrow> osys" where
  "ex_client arr = (ex_os arr (\<lambda>_. []))
     \<lparr>fds := (fds (ex_os arr (\<lambda>_. [])))(1 \<mapsto> Sock False), disk := [''job'' \<mapsto> ''xy'']\<rparr>"

lemma ex_client_simps [simp]:
  "fds (ex_client arr) fd = (if fd = 1 then Some (Sock False) else
    if 4 \<le> fd \<and> fd \<le> 8 then Some (Sock True) else None)"
  "incoming (ex_client arr) = arr" "wplan (ex_client arr) fd = []" "sent (ex_client arr) fd = []"
  "disk (ex_client arr) = [''job'' \<mapsto> ''xy'']" "\<not> denied (ex_client arr) f" "next_fd (ex_client arr) = 10"
  by (simp_all add: ex_client_def ex_os_def)

text \<open>A task that ran: its output is open on descriptor 9.\<close>

definition ex_done :: task_t where
  "ex_done = \<lparr>input_filename = Some ''job'', output_filename = Some (''job'' @ OUTPUT_FILE_FORMAT),
     output_fd = 9\<rparr>"

definition ex_ran :: "(int \<Rightarrow> acceptance list) \<Rightarrow> osys" where
  "ex_ran acc = (ex_os (\<lambda>_. []) acc)
     \<lparr>fds := (fds (ex_os (\<lambda>_. []) acc))(9 \<mapsto> File ''job_OUTPUT.OUTPUT'' 0),
      disk := [''job_OUTPUT.OUTPUT'' \<mapsto> ''z'']\<rparr>"

lemma ex_done_simps [simp]:
  "input_filename ex_done = Some ''job''" "output_fd ex_done = 9"
  "output_filename ex_done = Some (''job'' @ OUTPUT_FILE_FORMAT)"
  by (simp_all add: ex_done_def)

text \<open>A worker that leaves its loop: at once, and with a result not yet handed over.\<close>

definition ex_closing :: "osys \<Rightarrow> wproc" where
  "ex_closing os = main_closes ((worker_start os 4)\<lparr>main_thread := Leaving\<rparr>)"

lemma ex_closing_holds: "worker_holds (ex_closing os) [] []"
  unfolding ex_closing_def
proof (rule closes_holds)
  show "worker_holds ((worker_start os 4)\<lparr>main_thread := Leaving\<rparr>) [] []"
    by (rule quiet_holds[OF worker_start_holds[of os 4]]) (simp_all add: worker_start_def closed_ok_def)
qed simp

definition ex_late :: "osys \<Rightarrow> wproc" where
  "ex_late os = (worker_start os 4)\<lparr>p_heap := \<lparr>w_tasks = [2 \<mapsto> ex_done], w_next = 3\<rparr>,
     tasking_threads := (\<lambda>_. Pulls)(0 := Ran 2), received := [ex_done], main_thread := Leaving\<rparr>"

lemma ex_late_holds: "worker_holds (ex_late os) [] []"
proof -
  have sums: "over_threads (carried \<lparr>w_tasks = [2 \<mapsto> ex_done], w_next = 3\<rparr>) ((\<lambda>_. Pulls)(0 := Ran 2))
      = {#ex_done#}"
    "over_threads (left \<lparr>w_tasks = [2 \<mapsto> ex_done], w_next = 3\<rparr>) ((\<lambda>_. Pulls)(0 := Ran 2)) = 0"
    using over_threads_upd[of 0 "carried \<lparr>w_tasks = [2 \<mapsto> ex_done], w_next = 3\<rparr>" "\<lambda>_. Pulls" "Ran 2"]
      over_threads_upd[of 0 "left \<lparr>w_tasks = [2 \<mapsto> ex_done], w_next = 3\<rparr>" "\<lambda>_. Pulls" "Ran 2"]
    by (simp_all add: over_threads_def carried_def named_def)
  have start: "queues_ok (worker_start os 4) [] []"
    using worker_start_holds[of os 4] by (simp add: worker_holds_def)
  show ?thesis unfolding worker_holds_def
  proof (intro conjI)
    show "queues_ok (ex_late os) [] []" using start by (simp add: queues_ok_def ex_late_def)
    show "pointers_ok (ex_late os) [] []"
      by (auto simp: pointers_ok_def in_use_def ex_late_def worker_start_def split: if_splits)
    show "threads_ok (ex_late os)"
      by (simp add: threads_ok_def ex_late_def worker_start_def sentinel_def)
    show "local_ok (ex_late os)" by (simp add: local_ok_def ex_late_def)
    show "conserved (ex_late os) [] []" using sums
      by (simp add: conserved_def ex_late_def worker_start_def carried_def)
    show "sentinels_ok (ex_late os) [] []" using sums
      by (simp add: sentinels_ok_def ex_late_def worker_start_def)
    show "closed_ok (ex_late os)" by (simp add: closed_ok_def ex_late_def)
  qed
qed

text \<open>From there to the sentinel of the sending thread.\<close>

lemma ex_late_ending:
  obtains w tq where "worker_holds w tq []" "main_thread w = Ending 0" "sending_thread w = Pulls"
    "tasking_threads w 0 = Ran 2" "returned w = []"
proof -
  let ?w = "main_closes (ex_late (ex_os (\<lambda>_. []) (\<lambda>_. [])))"
  have "worker_holds ?w [] []"
    by (rule closes_holds[OF ex_late_holds]) (simp add: ex_late_def)
  moreover have "main_thread ?w = Ending NUM_THREAD"
    by (simp add: main_closes_def set_local_def)
  ultimately obtain w' tq' where "worker_holds w' tq' []" "main_thread w' = Ending 0"
    "tasking_threads w' = tasking_threads ?w"
    "sending_thread w' = sending_thread ?w" "returned w' = returned ?w"
    using sentinels_pushed[of "?w" "[]" "[]" NUM_THREAD] by auto
  then show thesis
    by (intro that[of w' tq'])
      (simp_all add: main_closes_def set_local_def ex_late_def worker_start_def)
qed

section \<open>Queues\<close>

definition ex_queue :: "int \<Rightarrow> unit queue" where
  "ex_queue limit = queue_create limit Pair (\<lambda>_ s. s)"

section \<open>The old scheduler\<close>

definition ex_node :: "int \<Rightarrow> old_node" where
  "ex_node a = \<lparr>n_socket_fd = 3, n_alive = a, n_taskNo = 0, n_taskPos = 0, n_bufSize = 4096, n_bufPos = 0,
     n_bufWIP = 0, n_buf = replicate 4096 NUL, n_load = Num 1, n_beat = Num 0, n_address = ''10.0.0.1'',
     n_task_list = replicate MAX_TASKS_PER_NODE NULL, n_num_of_task = 0, n_tmpFP = 0,
     n_fileName = Own_buffer, n_tmpTask = None, n_next = NULL\<rparr>"

definition ex_old :: "int \<Rightarrow> old_queue \<Rightarrow> old_state" where
  "ex_old a q = \<lparr>o_nodes = [1 \<mapsto> ex_node a], o_fresh = 2, o_mutex = False, o_queue = Some q,
     o_tasks = Map.empty\<rparr>"

text \<open>A queue of two tasks.\<close>

lemma ex_old_queue: obtains q :: old_queue where "queue_holds q [7, 8]"
proof -
  have "queue_holds old_queue_create []" unfolding old_queue_create_def by (rule queue_create_holds)
  then obtain q :: old_queue where "queue_holds q [7]" using old_queue.add[of old_queue_create "[]" 7] by auto
  then show thesis using old_queue.add[of q "[7]" 8] that by auto
qed

lemma ex_old_searches: "get_least_used_worker (ex_old 0 q) 1 = Inr NULL"
  by (simp add: get_least_used_worker_def least_loop.simps ex_old_def ex_node_def is_alive_def
      old_read_def get_num_of_task_def)

lemma ex_old_returns:
  assumes "queue_holds q [7, 8]"
  obtains s' where "get_task_from_queue_onto_nodes (ex_old 0 q) 1 = Inr s'"
proof -
  have ne: "\<not> old_queue_empty q" using queue_holds_size[OF assms] by (simp add: old_queue_empty_def)
  obtain q1 where q1: "old_queue_pull q = Inr (7, q1)" "queue_holds q1 [8]"
    using old_queue.remove[OF assms] by auto
  have e: "ex_old 0 q\<lparr>o_queue := Some r\<rparr> = ex_old 0 r" for r by (simp add: ex_old_def)
  obtain q2 where "push_task (ex_old 0 q1) 7 = Inr (ex_old 0 q1\<lparr>o_queue := Some q2\<rparr>)"
    by (rule push_task_appends[of "ex_old 0 q1" q1 "[8]" 7]) (use q1(2) in \<open>simp_all add: ex_old_def\<close>)
  then have "distribute_task (ex_old 0 q1) 1 7 = Inr (0, ex_old 0 q1\<lparr>o_queue := Some q2\<rparr>)"
    by (simp add: distribute_task_def ex_old_searches del: One_nat_def)
  then show thesis using ne q1(1) that
    by (simp add: get_task_from_queue_onto_nodes_def assign_loop.simps e) (simp add: ex_old_def e[unfolded ex_old_def])
qed

section \<open>Processes\<close>

definition ex_calls :: start_calls where
  "ex_calls = \<lparr>r_sigaction_int = 0, r_sigaction_pipe = 0, r_socket = 3, r_getaddrinfo = 0, r_bind = 0,
     r_listen = 0, r_epoll_create = 4, r_epoll_ctl = 0, r_mkdtemp = Some ''./master_tempAbCdEf''\<rparr>"

lemma ex_process:
  obtains p where "master_main ex_calls os = Inr p" "keep_update p" "listener p = Running"
    "event_loop p = M_tests" "\<not> close_master p"
proof -
  obtain m where "initial_master os = Inr m" by (rule initial_master_ok[of os])
  then show thesis using that
    by (simp add: master_main_def setSignalHandlers_def setUpGlobals_def set_up_server_def ex_calls_def)
qed

text \<open>The socket of the heartbeats fails at once.\<close>

lemma ex_deaf:
  assumes "listener p = Running" "event_loop p \<noteq> M_returned"
  shows "master_process_step p (p\<lparr>keep_update := False, listener := Left\<rparr>)"
proof -
  have "read_number [NUL] = Inr []" by (simp add: read_number_def number_char_def is_digit_def)
  then have "listener_turn (\<lambda>_. NaN) [NUL] None (Num 0) p = Inr (p\<lparr>keep_update := False, listener := Left\<rparr>)"
    by (simp add: listener_turn_def listen_turn_def)
  then show ?thesis using assms master_process_step.listens by blast
qed

section \<open>The old programs\<close>

definition ex_wire :: "(int \<Rightarrow> arrival list) \<Rightarrow> osys" where
  "ex_wire arr = (ex_os arr (\<lambda>_. []))\<lparr>fds := [3 \<mapsto> Sock True]\<rparr>"

definition ex_end :: "int \<Rightarrow> old_node" where
  "ex_end no = (ex_node 1)\<lparr>n_taskNo := no\<rparr>"

definition ex_hand :: handshake where
  "ex_hand = \<lparr>master_os = ex_wire (\<lambda>_. []), master_node = ex_end 1, worker_os = ex_wire (\<lambda>_. []),
     worker_node = ex_end 0, to_master = 0, to_worker = 0\<rparr>"

lemmas ex_old_defs = ex_hand_def ex_end_def ex_node_def ex_wire_def ex_os_def

lemma ex_hand_start: "handshake_start ex_hand"
  by (simp add: handshake_start_def node_ok_def master_sent_def worker_sent_def ex_old_defs)

lemma ex_hand_completes:
  obtains h where "handshake_reach ex_hand h" "n_taskNo (master_node h) = 5" "n_taskNo (worker_node h) = 4"
  by (rule handshake_completes[of ex_hand]) (simp_all add: quiet_end_def ex_old_defs)

section \<open>The deprecated processes\<close>

lemma ex_old_connected:
  obtains p where "old_master_reach (old_master_main (3, 0, 0, 0) (4, 0, 0, 0) (ex_wire (\<lambda>_. []))) p"
    "workerList (p_old_master p) \<noteq> NULL"
proof -
  define p0 where "p0 = old_master_main (3, 0, 0, 0) (4, 0, 0, 0) (ex_wire (\<lambda>_. []))"
  have p0: "\<not> p_returned p0" "p_fd_worker p0 = 3" "p_fd_client p0 = 4"
    "p_old_master p0 = old_master_start (ex_wire (\<lambda>_. []))"
    by (simp_all add: p0_def old_master_main_def setUpMaster_def)
  have "\<exists>m. old_master_turn (ex_node 1) (Some (5, ''10.0.0.1'')) None 3 4 (old_master_start (ex_wire (\<lambda>_. [])))
      = Inr (None, m) \<and> workerList m = 1"
    by (simp add: old_master_turn_def old_master_start_def addAnyIncomingConnections_def addNode_def Let_def
        getBinaryFile_def getFdForWriteFile_def add_file_fd_def receive_file_loop.simps sys_read_def
        scheduler_def manageTaskMaster.simps[of _ _ "Suc 0"] manageTaskMaster.simps[of _ _ 0] manage_node_def
        ex_wire_def ex_os_def)
  then obtain m where "old_master_turn (ex_node 1) (Some (5, ''10.0.0.1'')) None (p_fd_worker p0) (p_fd_client p0)
      (p_old_master p0) = Inr (None, m)" "workerList m = 1" using p0 by auto
  then have "old_master_step p0 (p0\<lparr>p_old_master := m, p_returned := False\<rparr>)" "workerList m \<noteq> NULL"
    using old_master_step.turn[OF p0(1)] by fastforce+
  then show thesis
    using that[of "p0\<lparr>p_old_master := m, p_returned := False\<rparr>"] old_master_reach.intros p0_def by fastforce
qed

lemma ex_old_worker:
  obtains w0 w os' task' where
    "server_main ''master'' (Some [NEWLINE]) (\<lambda>_. (3, 0, 0, False, [])) (replicate 4096 NUL) (ex_wire (\<lambda>_. []))
      = Inr (Some w0)" "old_worker_reach w0 w"
    "handleTaskThreeWorker (ow_os w) (curTask w) = Inr (0, os', task')"
proof -
  define w0 where "w0 = \<lparr>ow_os = ex_wire (\<lambda>_. []), curTask = setupNode (replicate 4096 NUL) 3 static_node,
    runningC = True\<rparr>"
  define w where "w = w0\<lparr>ow_os := feed (ow_os w0) 3 [Chunk (''job'' @ NUL # ''program'')]\<rparr>"
  have m: "server_main ''master'' (Some [NEWLINE]) (\<lambda>_. (3, 0, 0, False, [])) (replicate 4096 NUL) (ex_wire (\<lambda>_. []))
      = Inr (Some w0)"
    by (simp add: server_main_def worker_address_def setUpWorker_def w0_def)
  have r: "old_worker_reach w0 w"
    unfolding w_def by (intro old_worker_reach.step[OF old_worker_reach.start] old_worker_step.arrives)
  have defs: "curTask w = setupNode (replicate 4096 NUL) 3 static_node"
    "ow_os w = feed (ex_wire (\<lambda>_. [])) 3 [Chunk (''job'' @ NUL # ''program'')]"
    by (simp_all add: w_def w0_def)
  show thesis
  proof (rule late_piece_is_lost[of "ow_os w" "curTask w" "''job''" "''program''"])
    fix os' task'
    assume "handleTaskThreeWorker (ow_os w) (curTask w) = Inr (0, os', task')"
    then show thesis by (rule that[OF m r])
  qed (simp_all add: defs setupNode_def static_node_def feed_def ex_wire_def ex_os_def)
qed

end
