(* ===== verification/Spec2Isabelle.thy ===== *)
theory Spec2Isabelle
  imports Examples
begin

text \<open>
  A verification development for the cluster in \<^verbatim>\<open>src/\<close>: a master that takes programs from an
  interface, gives each to the worker with the least load and passes the results back.

  \<^item> The programs. \<^verbatim>\<open>master.c\<close> serves all connections from one \<^verbatim>\<open>epoll\<close> loop; two more threads
    receive heartbeats and look for dead workers. \<^verbatim>\<open>worker.c\<close> has a thread that takes in programs, five
    that run them, one that sends results and one that sends heartbeats, joined by the two queues of
    \<^verbatim>\<open>queue.c\<close>. \<^verbatim>\<open>interface.c\<close> reads names from the terminal, sends the programs, and prints what comes
    back in a second thread. \<^verbatim>\<open>vector.c\<close> is the master's container. All three programs speak one format:
    a line (verb, space, name), eight bytes of size, the contents.

  \<^item> Conventions (\<open>Prelude\<close>). A call without a defined result is \<open>Inl\<close> of a fault; pointers are
    numbers into an explicit store; \<^verbatim>\<open>size_t\<close> is a word of 64 bits; a result that an error code gives in C
    is that code here. \<open>Doubles\<close> has the three operations on \<^verbatim>\<open>double\<close> the scheduler uses, with NaN.

  \<^item> System calls (\<open>Sys_IO\<close>, \<open>Framing\<close>). A system state lists, for each descriptor, what will
    arrive and how the next writes will end, so that a theorem about a function covers every short
    read, short write, interruption and error of a finite run. The locales \<open>full_writer\<close> and
    \<open>full_reader\<close> are the contracts of the loops that write a whole buffer and read a given number of
    bytes; each program has its own loops, and each is an interpretation (\<^verbatim>\<open>write_all_to_socket\<close> in
    \<open>Master_Net\<close>, \<^verbatim>\<open>write_to_socket\<close> and \<^verbatim>\<open>read_from_socket\<close> in \<open>Worker_Net\<close>, \<^verbatim>\<open>my_write\<close> and \<^verbatim>\<open>my_read\<close> in
    \<open>Interface\<close>).

  \<^item> \<^verbatim>\<open>vector.c\<close> (\<open>Vector\<close>). Every function, over an array of cells with \<^verbatim>\<open>size_t\<close> arithmetic;
    the locale \<open>sequence\<close> says that the vector is a list, and \<open>ptrs\<close> interprets it.

  \<^item> \<^verbatim>\<open>master.c\<close>. \<open>Master_Net\<close>: the readers of header, size and body, which keep their place in the
    worker struct, and \<^verbatim>\<open>do_put\<close>. \<open>Resumption\<close>: stopping for want of data and going on later is the same
    as having had the data (locale \<open>resumable\<close>, one interpretation for each reader). \<open>Master_Transfer\<close>:
    whole messages. \<open>Master_Sched\<close>: the global state and the scheduler, heartbeats, failure detector and
    recovery; \<open>Sched_Props\<close> their lemmas. \<open>Master_Events\<close>: \<^verbatim>\<open>accept_connections\<close>, \<^verbatim>\<open>handle_data\<close>
    block by block and the step relation \<open>master_step\<close>; \<open>Master_Inv\<close>: the invariant of every reachable
    state; \<open>Master_Message\<close>: one complete message through \<^verbatim>\<open>handle_data\<close>. \<open>Heartbeats\<close>: the text of a
    load as \<^verbatim>\<open>worker.c\<close> prints it and \<^verbatim>\<open>atof\<close> reads it, one turn of \<^verbatim>\<open>listen_to_heartbeat\<close>. \<open>Master_Process\<close>:
    start-up, the three threads and SIGINT as \<open>master_process_step\<close>, which refines \<open>master_step\<close>.
    Over whole runs: \<open>Master_Fate\<close>, what serving one connection does to the workers and to the ledger of
    outstanding tasks; \<open>Master_Steps\<close>, the same for the monitor, heartbeats and new connections;
    \<open>Master_Runs\<close>, what follows for every run: each task is outstanding at most once, a dead worker is
    frozen until a heartbeat from its address (\<open>unheard\<close>), a dead interface for ever, and of two
    connections of one host only the first is monitored.

  \<^item> \<^verbatim>\<open>queue.c\<close> (\<open>Task_Queue\<close>). The operations on the linked nodes, the list a queue stands for, the
    locale \<open>fifo\<close> with its interpretation \<open>queue\<close>; the mutex and the condition variable as the step
    relation \<open>monitor_step\<close> over any number of threads.

  \<^item> \<^verbatim>\<open>worker.c\<close>. \<open>Worker_Net\<close>, \<open>Worker_Tasks\<close>: the transfers, one request, one result, one run of a
    task; \<open>Worker_Props\<close> their lemmas. \<open>Worker_Process\<close>: the threads over the two queues, one step for
    what a thread does between two synchronisation points; \<open>Worker_Inv\<close>: where every task is in every
    reachable state; \<open>Worker_Shutdown\<close>: the clean-up ends under every schedule.

  \<^item> \<^verbatim>\<open>main.c\<close> and what each program does before its loops (\<open>Process_Start\<close>; for the master in
    \<open>Master_Process\<close>): the calls in their order, with their results as arguments, and the exit or the
    return at each failure.

  \<^item> \<^verbatim>\<open>interface.c\<close>. \<open>Interface\<close>: its transfer loops; \<open>Interface_Turns\<close>: one turn of the main loop and
    one of the printing thread, with their fixed buffers.

  \<^item> \<^verbatim>\<open>src/deprecated/\<close>, an earlier version that the Makefile does not build. \<open>Old_Cluster\<close>: \<^verbatim>\<open>node.c\<close>, its
    \<^verbatim>\<open>queue.c\<close> (an interpretation of \<open>fifo\<close> too) and the list operations of \<^verbatim>\<open>scheduler.c\<close>. \<open>Old_Transfers\<close>: the
    loops that move whole files. \<open>Old_Tasks\<close>: \<^verbatim>\<open>taskManager.c\<close>, one definition for each \<^verbatim>\<open>case\<close> of a handler
    over the buffer in the node that the handlers share; \<open>Old_Messages\<close> its lemmas; \<open>Old_Handshake\<close>: the
    two ends of its handshake composed, with the invariant that they agree. \<open>Old_Programs\<close>: the
    functions of its \<^verbatim>\<open>master.c\<close>, \<^verbatim>\<open>worker.c\<close>, \<^verbatim>\<open>interface.c\<close> and \<^verbatim>\<open>main.c\<close>; \<open>Old_Processes\<close>: their threads and
    loops as step relations, with what holds in every reachable state.

  \<^item> The whole (\<open>Cluster_Protocol\<close>). The three encoders of the frame agree with each other's
    decoders; the properties below compose them from the terminal to a worker and back. The network is
    the assumption that what is delivered on one end is what was sent on the other.

  Termination and bounds. Loops over a descriptor end because what will arrive and the planned writes
  are finite; they are total functions. Loops that may not end (\<^verbatim>\<open>read_file_from_socket\<close> at the end of
  the stream, \<^verbatim>\<open>write_file_to_socket\<close> on a descriptor that accepts nothing, the interface on a
  non-blocking socket, \<^verbatim>\<open>queue_destroy\<close> on a cyclic list) are partial functions into an option, and \<open>None\<close>
  becomes the fault \<open>Diverges\<close>; the properties that say they have a result prove it. There is no fuel.
  Vectors and task lists are assumed to have fewer than \<open>2^60\<close> elements, bodies fewer than \<open>2^63\<close> bytes
  or \<open>2^64\<close>; file names are at most 1000 characters where a buffer of 1024 bytes is involved.

  Parameters. The result of a system call that sets up a socket, a signal or a thread is an argument,
  as are the load average, what \<^verbatim>\<open>sendto\<close> returns and what the program run by \<^verbatim>\<open>system\<close> does. \<open>atof\<close> reads
  the numerals that \<^verbatim>\<open>printf("%f")\<close> writes, \<^verbatim>\<open>inf\<close> and \<^verbatim>\<open>nan\<close>; what it gives for any other text is its
  argument \<open>other\<close>, about which nothing is assumed.

  Not modelled. Allocation does not fail, and what is printed for diagnosis is left out. The temporary
  directory, the clock, \<^verbatim>\<open>cleanGlobals\<close> and \<^verbatim>\<open>execlp\<close> act on nothing that is in the state. In the worker the
  names in a task are values, so \<^verbatim>\<open>free\<close> of a name is not visible. Handlers of the master are atomic: the
  races between its threads outside the mutex are not visible. In \<open>Old_Processes\<close> a turn of a loop is
  one step, so what another thread does in the middle of a turn is not visible there, and how those
  processes close their sockets at the end is left out. \<^verbatim>\<open>utils.c\<close> is empty and \<^verbatim>\<open>newTest.c\<close> only sleeps
  and prints.
\<close>

section \<open>The master\<close>

text \<open>C1: Every state the master reaches from its start, through any arrivals, new connections,
  messages, heartbeats and monitor passes that do not crash it, satisfies its invariant: lists and
  heap are well formed, the mutex is free, each listed worker has an open descriptor of its own, and
  the interface is outside the list, known by another descriptor.\<close>

theorem master_reachable_invariant:
  assumes "initial_master os = Inr m0" "master_reach m0 m"
  shows "master_inv m"
  using master_reach_inv[OF assms(2)] initial_master_inv[OF assms(1)] by blast

lemma master_reachable_invariant_witness:
  "\<exists>m0 m. initial_master (ex_os (\<lambda>_. []) (\<lambda>_. [])) = Inr m0 \<and> master_reach m0 m
    \<and> length (vlist (worker_list m)) = 1 \<and> master_inv m"
proof -
  let ?os = "ex_os (\<lambda>_. []) (\<lambda>_. [])"
  obtain m0 m p where m0: "initial_master ?os = Inr m0" "master_step m0 m" "vlist (worker_list m) = [p]"
    by (rule ex_first_worker)
  then have r: "master_reach m0 m" using master_reach.intros by blast
  from master_reachable_invariant[OF m0(1) r] r m0(1,3) show ?thesis by (intro exI[of _ m0] exI[of _ m]) simp
qed





section \<open>From the terminal to a worker and back\<close>

text \<open>C4: A program typed at the interface reaches a worker unchanged: the bytes the interface sends are
  a request for the master; the master sends them on to a live worker with the least load; that
  worker stores the same program under the same name and has a task for it.\<close>

theorem program_reaches_worker:
  assumes "\<forall>c\<in>set ws. isspace c" "name \<noteq> []" "\<forall>c\<in>set name. \<not> isspace c" "isspace d"
    "NUL \<notin> set name" "length name \<le> 1000" "disk osi name = Some body" "\<not> denied osi name"
    "length body < 2 ^ 63" "fds osi fdi = Some (Sock nbi)"
    "willing retried_by_interface (wplan osi fdi)" "sent osi fdi = []"
    "interface_turn osi fdi (ws @ name @ d # later) = Inr (later', osi')"
    "stream (\<lambda>e. e = EINTR) (incoming (m_os m) (worker_fd w)) = sent osi' fdi"
    "master_inv m" "get_worker m (interface m) = Inr w" "alive w \<noteq> 0"
    "worker_fd w = interface_fd m" "ready w" "fds (m_os m) (worker_fd w) = Some (Sock nb)"
    "\<not> denied (m_os m) name" "fds (m_os m) (next_fd (m_os m)) = None"
    "\<forall>q v. runs m q v \<longrightarrow> q \<in> set (vlist (worker_list m)) \<longrightarrow> (\<exists>nb. fds (m_os m) (worker_fd v)
        = Some (Sock nb)) \<and> willing retried_by_master (wplan (m_os m) (worker_fd v))
        \<and> sent (m_os m) (worker_fd v) = []"
    "length (vlist (task_list m)) < 2 ^ 60"
    "\<forall>p w. m_workers m p = Some w \<longrightarrow> length (vlist (tasks w)) < 2 ^ 60"
    "\<exists>q v. q \<in> set (vlist (worker_list m)) \<and> runs m q v \<and> load_factor v < Num 100000000"
  shows "\<exists>m' b v. handle_data (worker_fd w) m = Inr m' \<and> b \<in> set (vlist (worker_list m)) \<and> runs m b v
    \<and> (\<forall>q\<in>set (vlist (worker_list m)). \<forall>u. runs m q u \<longrightarrow> \<not> load_factor u < load_factor v)
    \<and> (\<forall>osw fd nb raw. fds osw fd = Some (Sock nb)
        \<longrightarrow> stream (\<lambda>e. e = EINTR) (incoming osw fd) = sent (m_os m') (worker_fd v)
        \<longrightarrow> \<not> denied osw name \<longrightarrow> \<not> denied osw (name @ OUTPUT_FILE_FORMAT)
        \<longrightarrow> fd < next_fd osw \<longrightarrow> 0 \<le> next_fd osw
        \<longrightarrow> (\<exists>t osw'. worker_request False osw fd raw = Inr (New_task t, osw')
             \<and> input_filename t = Some name \<and> disk osw' name = Some body))"
proof -
  have name: "length name \<le> 1008" using assms(6) by simp
  have good: "good_name name" using assms(2,3,5,6) by (rule good_name_word)
  have "sent osi' fdi = message INTERFACE_PUT name body"
    using interface_turn_sends[OF assms(1-5) name assms(7,8,10,11), of later] assms(12,13)
    by (simp add: request_is_message)
  then have str: "stream (\<lambda>e. e = EINTR) (incoming (m_os m) (worker_fd w))
      = message INTERFACE_PUT name body @ []" using assms(14) by simp
  have plans: "\<forall>q v. runs m q v \<longrightarrow> q \<in> set (vlist (worker_list m)) \<longrightarrow> (\<exists>nb. fds (m_os m) (worker_fd v)
      = Some (Sock nb)) \<and> willing retried_by_master (wplan (m_os m) (worker_fd v))"
    using assms(23) by blast
  have len: "length body < 2 ^ 64" using assms(9) by simp
  obtain m' b v where m': "handle_data (worker_fd w) m = Inr m'" "b \<in> set (vlist (worker_list m))"
    "runs m b v" "\<forall>q\<in>set (vlist (worker_list m)). \<forall>u. runs m q u \<longrightarrow> \<not> load_factor u < load_factor v"
    "sent (m_os m') (worker_fd v) = sent (m_os m) (worker_fd v) @ put_frame name body"
    using request_scheduled[OF assms(15) refl assms(16-19) good len assms(20-22) str plans
        assms(24-26)] by metis
  have "sent (m_os m') (worker_fd v) = put_frame name body @ []" using m'(2,3,5) assms(23) by auto
  with m' show ?thesis using frame_accepted[OF _ assms(9) good, of _ _ _ "[]"] by metis
qed

lemma program_reaches_worker_witness:
  "\<exists>osi' m' t osw'. interface_turn (ex_client (\<lambda>_. [])) 4 ('' '' @ ''job'' @ NEWLINE # []) = Inr ([], osi')
    \<and> handle_data 4 (ex_master (ex_os (\<lambda>fd. if fd = 4 then [Chunk (sent osi' 4)] else []) (\<lambda>_. [])))
        = Inr m'
    \<and> worker_request False (ex_client (\<lambda>_. [Chunk (sent (m_os m') 5)])) 4 0 = Inr (New_task t, osw')
    \<and> disk osw' ''job'' = Some ''xy''"
proof -
  let ?m = "\<lambda>osi'. ex_master (ex_os (\<lambda>fd. if fd = 4 then [Chunk (sent osi' 4)] else []) (\<lambda>_. []))"
  obtain osi' where turn: "interface_turn (ex_client (\<lambda>_. [])) 4 ('' '' @ ''job'' @ NEWLINE # []) = Inr ([], osi')"
    using interface_turn_sends[of "'' ''" "''job''" NEWLINE "ex_client (\<lambda>_. [])" "''xy''" 4 True "[]"]
    by (auto simp: isspace_def)
  have "\<exists>m' b v. handle_data (worker_fd (ex_worker 4 [])) (?m osi') = Inr m'
    \<and> b \<in> set (vlist (worker_list (?m osi'))) \<and> runs (?m osi') b v
    \<and> (\<forall>q\<in>set (vlist (worker_list (?m osi'))). \<forall>u. runs (?m osi') q u \<longrightarrow> \<not> load_factor u < load_factor v)
    \<and> (\<forall>osw fd nb raw. fds osw fd = Some (Sock nb)
        \<longrightarrow> stream (\<lambda>e. e = EINTR) (incoming osw fd) = sent (m_os m') (worker_fd v)
        \<longrightarrow> \<not> denied osw ''job'' \<longrightarrow> \<not> denied osw (''job'' @ OUTPUT_FILE_FORMAT)
        \<longrightarrow> fd < next_fd osw \<longrightarrow> 0 \<le> next_fd osw
        \<longrightarrow> (\<exists>t osw'. worker_request False osw fd raw = Inr (New_task t, osw')
             \<and> input_filename t = Some ''job'' \<and> disk osw' ''job'' = Some ''xy''))"
    by (rule program_reaches_worker[OF _ _ _ _ _ _ _ _ _ _ _ _ turn _ ex_master_inv, where nb = True])
      (use ex_worker_ready ex_worker_load[of "[3]" 5] in \<open>auto simp: isspace_def get_worker_def ex_os_def
        ex_master_runs ex_vector_ok split: if_splits\<close>)
  then obtain m' b v where m': "handle_data 4 (?m osi') = Inr m'" "b \<in> {2}" "runs (?m osi') b v"
    "\<forall>osw fd nb raw. fds osw fd = Some (Sock nb)
        \<longrightarrow> stream (\<lambda>e. e = EINTR) (incoming osw fd) = sent (m_os m') (worker_fd v)
        \<longrightarrow> \<not> denied osw ''job'' \<longrightarrow> \<not> denied osw (''job'' @ OUTPUT_FILE_FORMAT)
        \<longrightarrow> fd < next_fd osw \<longrightarrow> 0 \<le> next_fd osw
        \<longrightarrow> (\<exists>t osw'. worker_request False osw fd raw = Inr (New_task t, osw')
             \<and> input_filename t = Some ''job'' \<and> disk osw' ''job'' = Some ''xy'')" by auto
  have "worker_fd v = 5" using m'(2,3) by (auto simp: ex_master_runs)
  then show ?thesis using turn m'(1)
      m'(4)[rule_format, of "ex_client (\<lambda>_. [Chunk (sent (m_os m') 5)])" 4 True 0] by auto
qed



section \<open>What the master keeps and what it loses\<close>

text \<open>C6: An answer without output silences its worker: it is marked dead in the middle of the message,
  the task stays on its list, nothing is sent to anybody, further data on the connection is ignored,
  and it all stays so until a heartbeat comes from its address.\<close>

theorem empty_answer_silences_worker:
  assumes "master_inv m" "p \<in> set (vlist (worker_list m))" "get_worker m p = Inr w" "alive w \<noteq> 0"
    "ready w" "good_name name" "fds (m_os m) (worker_fd w) = Some (Sock nb)" "\<not> denied (m_os m) name"
    "fds (m_os m) (next_fd (m_os m)) = None"
    "stream (\<lambda>e. e = EINTR) (incoming (m_os m) (worker_fd w)) = message PUT name [] @ rest"
  shows "\<exists>m' w'. handle_data (worker_fd w) m = Inr m' \<and> get_worker m' p = Inr w'
    \<and> alive w' = 0 \<and> status w' = FORWARD_DATA \<and> tasks w' = tasks w \<and> sent (m_os m') = sent (m_os m)
    \<and> handle_data (worker_fd w) m' = Inr m' \<and> (\<forall>m''. unheard (IP w) m' m'' \<longrightarrow> m_workers m'' p = Some w')"
proof -
  obtain m' w' where m': "handle_data (worker_fd w) m = Inr m'" "get_worker m' p = Inr w'"
    "alive w' = 0" "status w' = FORWARD_DATA" "tasks w' = tasks w" "sent (m_os m') = sent (m_os m)"
    "worker_fd w' = worker_fd w" "worker_list m' = worker_list m" "IP w' = IP w"
    by (rule empty_answer[OF assms])
  have inv: "master_inv m'" using master_step_inv[OF master_step.data[OF m'(1)] assms(1)] .
  have w': "m_workers m' p = Some w'" using m'(2) by (simp add: get_worker_def deref_Inr)
  have "m_workers m'' p = Some w'" if "unheard (IP w) m' m''" for m''
    by (rule unheard_frozen[OF _ inv w' m'(3)]) (use that m'(9) in simp)
  with handle_data_found[OF inv _ m'(2)] m' assms(2) show ?thesis by auto
qed

lemma empty_answer_silences_worker_witness:
  "\<exists>m' w'. handle_data 5 (ex_master (ex_os (\<lambda>_. [Chunk (message PUT ''job'' [])]) (\<lambda>_. []))) = Inr m'
    \<and> get_worker m' 2 = Inr w' \<and> alive w' = 0 \<and> handle_data 5 m' = Inr m'"
proof -
  have "stream (\<lambda>e. e = EINTR) [Chunk (message PUT ''job'' [])] = message PUT ''job'' [] @ []" by simp
  with empty_answer_silences_worker[OF ex_master_inv[of "\<lambda>_. [Chunk (message PUT ''job'' [])]" "\<lambda>_. []"],
      of 2 "ex_worker 5 [3]" "''job''" True "[]"] ex_worker_ready[of 5 "[3]"]
  show ?thesis by (auto simp: get_worker_def ex_os_def good_name_def)
qed

text \<open>C7: In every state the master reaches from its start, every task it has made is outstanding at most
  once, parked or on the list of one worker, and nothing else is; and a step either leaves the
  outstanding tasks as they are, however it moves them, or adds one new task, or takes away one that
  was on the list of a live worker.\<close>

theorem master_tasks_conserved:
  assumes "initial_master os = Inr m0" "master_reach m0 m" "master_step m m'"
  shows "(\<forall>t. count (ledger m) t \<le> (if m_tasks m t = None then 0 else 1))
    \<and> (ledger m' = ledger m
      \<or> (\<exists>t. m_tasks m t = None \<and> m_tasks m' t \<noteq> None \<and> ledger m' = add_mset t (ledger m))
      \<or> (\<exists>p w t. m_workers m p = Some w \<and> alive w \<noteq> 0 \<and> t \<in> set (vlist (tasks w))
           \<and> ledger m = add_mset t (ledger m')))"
proof -
  have "master_inv m0" by (rule initial_master_inv[OF assms(1)])
  then show ?thesis
    using reach_once[OF assms(2) _ initial_once[OF assms(1)]]
      step_accounts[OF assms(3) master_reach_inv[OF assms(2)]]
    by (simp add: tasks_once_def accounts_def)
qed

lemma master_tasks_conserved_witness:
  "\<exists>m0 m. initial_master (ex_os (\<lambda>_. []) (\<lambda>_. [])) = Inr m0 \<and> master_step m0 m
    \<and> length (vlist (worker_list m)) = 1 \<and> (\<forall>t. count (ledger m0) t \<le> (if m_tasks m0 t = None then 0 else 1))"
proof -
  obtain m0 m p where m0: "initial_master (ex_os (\<lambda>_. []) (\<lambda>_. [])) = Inr m0" "master_step m0 m"
    "vlist (worker_list m) = [p]" by (rule ex_first_worker)
  from master_tasks_conserved[OF m0(1) master_reach.start m0(2)] show ?thesis using m0 by auto
qed



text \<open>C9: A worker that closes its connection between two messages strands its tasks: it is marked dead,
  and as long as no heartbeat comes from its address, whatever else happens, its struct stays as it
  is with its tasks on its list, and none of them is parked or given to another worker, by a pass of
  the monitor as little as by any other step.\<close>

theorem hang_up_strands_tasks:
  assumes "master_inv m" "tasks_once m" "p \<in> set (vlist (worker_list m))" "get_worker m p = Inr w"
    "alive w \<noteq> 0" "status w = START" "fds (m_os m) (worker_fd w) = Some (Sock nb)"
    "incoming (m_os m) (worker_fd w) = Eof # es"
  shows "\<exists>m'. handle_data (worker_fd w) m = Inr m'
    \<and> (\<forall>m''. unheard (IP w) m' m'' \<longrightarrow> m_workers m'' p = Some (w\<lparr>alive := 0\<rparr>)
         \<and> (\<forall>t\<in>set (vlist (tasks w)). t \<notin> set (vlist (task_list m''))
              \<and> (\<forall>q v. q \<noteq> p \<longrightarrow> m_workers m'' q = Some v \<longrightarrow> t \<notin> set (vlist (tasks v)))))"
proof -
  let ?w = "w\<lparr>alive := 0\<rparr>" and ?m = "put_worker p (w\<lparr>alive := 0\<rparr>) m"
  have run: "handle_data (worker_fd w) m = Inr ?m" by (rule hang_up[OF assms(1,3-8)])
  note step = master_step.data[OF run]
  have m: "master_inv ?m" "tasks_once ?m" "m_workers ?m p = Some ?w" "alive ?w = 0"
    using master_step_inv[OF step assms(1)] step_once[OF step assms(1,2)] by simp_all
  have "m_workers m'' p = Some ?w \<and> (\<forall>t\<in>set (vlist (tasks w)). t \<notin> set (vlist (task_list m''))
      \<and> (\<forall>q v. q \<noteq> p \<longrightarrow> m_workers m'' q = Some v \<longrightarrow> t \<notin> set (vlist (tasks v))))"
    if r: "unheard (IP w) ?m m''" for m''
  proof -
    have r': "unheard (IP ?w) ?m m''" using r by simp
    have t: "t \<in> set (vlist (tasks w)) \<Longrightarrow> t \<in> set (vlist (tasks ?w))" for t by simp
    from unheard_frozen[OF r' m(1,3,4)] stranded_tasks[OF r' m(1-4) t] show ?thesis by blast
  qed
  then show ?thesis using run by blast
qed

lemma hang_up_strands_tasks_witness:
  "\<exists>m'. handle_data 5 (ex_master (ex_os (\<lambda>_. [Eof]) (\<lambda>_. []))) = Inr m'
    \<and> (\<forall>m''. unheard ''10.0.0.1'' m' m'' \<longrightarrow> m_workers m'' 2 = Some ((ex_worker 5 [3])\<lparr>alive := 0\<rparr>)
         \<and> 3 \<notin> set (vlist (task_list m'')))"
  using hang_up_strands_tasks[OF ex_master_inv[of "\<lambda>_. [Eof]" "\<lambda>_. []"] ex_master_once, of 2 "ex_worker 5 [3]"
      True "[]"]
  by (simp add: get_worker_def ex_os_def ex_vector_ok) blast



text \<open>C11: Of two connections of one host only the first on the list is monitored: while it is listed, a
  later one that had no heartbeat has none in any reachable state, since a heartbeat goes to the first
  worker with its address, and no pass of the monitor changes whether it is alive, however long it has
  been silent.\<close>

theorem second_connection_unmonitored:
  assumes "master_inv m" "vlist (worker_list m) = xs @ q # ys" "p \<in> set ys"
    "get_worker m q = Inr v" "get_worker m p = Inr w" "IP v = IP w" "last_beat_received w = Num 0"
    "master_reach m m'" "q \<in> set (vlist (worker_list m'))"
  shows "\<exists>w'. m_workers m' p = Some w' \<and> IP w' = IP w \<and> \<not> Num 0 < last_beat_received w'
    \<and> (\<forall>raw t m''. detect_pass raw t m' = Inr m'' \<longrightarrow> (\<exists>w''. m_workers m'' p = Some w'' \<and> alive w'' = alive w'))"
proof -
  have dist: "distinct (vlist (worker_list m))"
    using assms(1) by (simp add: master_inv_def master_ok_def iface_ok_def)
  have "\<not> subseq [p, q] (xs @ q # ys)"
  proof
    assume "subseq [p, q] (xs @ q # ys)"
    then obtain as bs where "xs @ q # ys = as @ p # bs" "subseq [q] bs" by (auto dest!: list_emb_ConsD)
    then show False using dist assms(2,3)
      by (auto simp: subseq_singleton_left append_eq_append_conv2 append_eq_Cons_conv Cons_eq_append_conv)
  qed
  moreover have "\<not> Num 0 < Num 0" by simp
  ultimately have "shadowed p q (IP w) m"
    using assms(2-7) dist by (auto simp: shadowed_def worker_is_def get_worker_def deref_Inr)
  with shadowed_reach[OF assms(8,1)] assms(9) have s: "shadowed p q (IP w) m'" by blast
  then obtain w' where w': "m_workers m' p = Some w'" "IP w' = IP w" "\<not> Num 0 < last_beat_received w'"
    by (cases "m_workers m' p") (simp_all add: shadowed_def worker_is_def)
  then show ?thesis
    using shadowed_monitor[OF s master_reach_inv[OF assms(8,1)]] by blast
qed

lemma second_connection_unmonitored_witness:
  "\<exists>m p. master_step (ex_master (ex_os (\<lambda>_. []) (\<lambda>_. []))) m \<and> vlist (worker_list m) = [2, p]
    \<and> (\<forall>m'. master_reach m m' \<longrightarrow> 2 \<in> set (vlist (worker_list m')) \<longrightarrow>
         (\<exists>w. m_workers m' p = Some w \<and> \<not> Num 0 < last_beat_received w))"
proof -
  let ?m = "ex_master (ex_os (\<lambda>_. []) (\<lambda>_. []))"
  have "fds (m_os ?m) 9 = None" "(0 :: int) \<le> 9" "length (vlist (worker_list ?m)) < 10"
    by (simp_all add: ex_os_def)
  from ex_accept[OF ex_master_inv this, of "''10.0.0.1''"] obtain m p w where
    m: "master_step ?m m" "vlist (worker_list m) = vlist (worker_list ?m) @ [p]"
    "m_workers m = (m_workers ?m)(p \<mapsto> w)" "p = next_ptr ?m" "IP w = ''10.0.0.1''"
    "last_beat_received w = Num 0" by blast
  have p: "p = 4" using m(4) by (simp add: ex_master_def)
  have l: "vlist (worker_list m) = [] @ 2 # [p]" using m(2) by simp
  have w: "get_worker m 2 = Inr (ex_worker 5 [3])" "get_worker m p = Inr w"
    using m(3) p by (simp_all add: get_worker_def)
  have "\<exists>w. m_workers m' p = Some w \<and> \<not> Num 0 < last_beat_received w"
    if "master_reach m m'" "2 \<in> set (vlist (worker_list m'))" for m'
    using second_connection_unmonitored[OF master_step_inv[OF m(1) ex_master_inv] l _ w _ m(6) that]
      m(5) by auto
  then show ?thesis using m(1) l by (intro exI[of _ m] exI[of _ p]) simp
qed

section \<open>The worker\<close>

text \<open>C12: In every state the worker process reaches, each task it took in is in exactly one place:
  about to be queued, queued, in the hands of a tasking thread, finished, in the hands of the sending
  thread, or returned. None is invented, lost or returned twice.\<close>

theorem worker_tasks_conserved:
  assumes "worker_reach (worker_start os fd) w" "main_thread w \<noteq> Ended"
  shows "\<exists>tq fq. queue_holds (task_queue w) tq \<and> queue_holds (finished_task_queue w) fq
    \<and> mset (received w) =
       (if main_thread w = Has_task then named (p_heap w) new_task else {#})
       + total (named (p_heap w)) tq + over_threads (carried (p_heap w)) (tasking_threads w)
       + total (named (p_heap w)) fq + carried (p_heap w) (sending_thread w) + mset (returned w)"
proof -
  obtain tq fq where "worker_holds w tq fq"
    using worker_reach_inv[OF assms(1) worker_start_inv] assms(2) by (auto simp: worker_inv_def)
  then have "queues_ok w tq fq" "conserved w tq fq" by (simp_all add: worker_holds_def)
  then show ?thesis unfolding queues_ok_def conserved_def by blast
qed

lemma worker_tasks_conserved_witness:
  "\<exists>tq. queue_holds (task_queue (worker_start (ex_client (\<lambda>_. [])) 4)) tq"
  using worker_tasks_conserved[OF worker_reach.start, of "ex_client (\<lambda>_. [])" 4]
  by (auto simp: worker_start_def)





text \<open>C15: The clean-up can lose results: the sentinel for the sending thread is pushed before the
  tasking threads are joined, so when a thread still has a result to hand over, the sending thread may
  leave first, and then nothing is returned any more.\<close>

theorem shutdown_may_lose_result:
  assumes "worker_inv w" "main_thread w = Ending 0" "sending_thread w = Pulls"
    "q_size (finished_task_queue w) = 0" "tasking_threads w i = Ran p"
  shows "\<exists>w'. worker_reach w w' \<and> tasking_threads w' i = Ran p
    \<and> (\<forall>w''. worker_reach w' w'' \<longrightarrow> returned w'' = returned w)"
proof -
  obtain tq fq where h: "worker_holds w tq fq" using assms(1,2) by (auto simp: worker_inv_def)
  then have "fq = []"
    using assms(4) queue_holds_size[of "finished_task_queue w" fq]
    by (auto simp: worker_holds_def queues_ok_def)
  then obtain w' where w': "worker_reach w w'" "sending_thread w' = Exited"
    "returned w' = returned w" "tasking_threads w' = tasking_threads w"
    using sentinel_overtakes[OF _ assms(2,3), of tq] h by auto
  then show ?thesis using sent_no_more[of w'] assms(5) by auto
qed

lemma shutdown_may_lose_result_witness:
  "\<exists>w w'. worker_reach w w' \<and> tasking_threads w' 0 = Ran 2
    \<and> (\<forall>w''. worker_reach w' w'' \<longrightarrow> returned w'' = [])"
proof -
  obtain w tq where w: "worker_holds w tq []" "main_thread w = Ending 0" "sending_thread w = Pulls"
    "tasking_threads w 0 = Ran 2" "returned w = []" by (rule ex_late_ending)
  have "worker_inv w" using w(1) by (auto simp: worker_inv_def)
  moreover have "q_size (finished_task_queue w) = 0"
    using w(1) queue_holds_size[of "finished_task_queue w" "[]"]
    by (simp add: worker_holds_def queues_ok_def)
  ultimately show ?thesis using shutdown_may_lose_result[of w 0 2] w(2-5) by auto
qed







section \<open>Heartbeats and the threads of the master\<close>

text \<open>C19: A heartbeat carries the worker's load to the master: the datagram of \<^verbatim>\<open>send_heartbeat\<close>, heard by
  \<^verbatim>\<open>listen_to_heartbeat\<close> with whatever was in its buffer, sets the load of the first worker with the
  sender's address to the load of the worker, to six decimal places, and revives it if it was marked
  dead.\<close>

theorem heartbeat_carries_load:
  assumes "sched_ok m" "List.find (worker_is m (\<lambda>w. IP w = addr)) (vlist (worker_list m)) = Some p"
    "m_workers m p = Some w" "length raw = HEARTBEAT_SIZE" "\<bar>r\<bar> \<le> 10 ^ 20"
  shows "\<exists>datagram r'. \<bar>r' - r\<bar> \<le> 1 / 2000000
    \<and> (\<forall>sendto. send_heartbeat (print_f sign) sendto raw (Num r)
        = Inr (if sendto datagram < 0 then - 1 else 0))
    \<and> (\<forall>other raw'. listen_turn other raw' (Some (addr, datagram)) t m
        = Inr (True, put_worker p (w\<lparr>CPU_usage := Num r', last_beat_received := t,
            alive := (if alive w = 0 then 1 else alive w)\<rparr>) m))"
proof -
  let ?text = "print_f sign (Num r)"
  obtain r' where r': "\<bar>r' - r\<bar> \<le> 1 / 2000000" "\<And>other. atof other ?text = Num r'"
    using atof_print_f[of sign r] by blast
  have short: "length ?text < HEARTBEAT_SIZE" using length_print_f[OF assms(5), of sign] by simp
  note heard = heartbeat_heard[OF print_f_number_chars short assms(4), unfolded r'(2)]
  show ?thesis
    using r'(1) heartbeat_sent[where format = "print_f sign", OF short] heard report_heartbeat_ok[OF assms(1), of addr "Num r'" t] assms(2,3)
    by (intro exI[of _ "heartbeat_datagram ?text raw"] exI[of _ r']) simp
qed

lemma heartbeat_carries_load_witness:
  "\<exists>datagram r'. \<bar>r' - 1 / 3\<bar> \<le> 1 / 2000000
    \<and> send_heartbeat (print_f False) (\<lambda>_. 30) (replicate 30 NUL) (Num (1 / 3)) = Inr 0
    \<and> listen_turn (\<lambda>_. NaN) [] (Some (''10.0.0.1'', datagram)) (Num 7) (ex_master (ex_os (\<lambda>_. []) (\<lambda>_. [])))
      = Inr (True, put_worker 2 ((ex_worker 5 [3])\<lparr>CPU_usage := Num r', last_beat_received := Num 7\<rparr>)
          (ex_master (ex_os (\<lambda>_. []) (\<lambda>_. []))))"
proof -
  let ?m = "ex_master (ex_os (\<lambda>_. []) (\<lambda>_. []))"
  have ok: "sched_ok ?m" using ex_master_inv by (simp add: master_inv_def master_ok_def)
  have w: "List.find (worker_is ?m (\<lambda>w. IP w = ''10.0.0.1'')) (vlist (worker_list ?m)) = Some 2"
    "m_workers ?m 2 = Some (ex_worker 5 [3])"
    by (simp_all add: worker_is_def ex_worker_def)
  have "length (replicate 30 NUL) = HEARTBEAT_SIZE" "\<bar>1 / 3 :: rat\<bar> \<le> 10 ^ 20" by simp_all
  from heartbeat_carries_load[OF ok w this, of False "Num 7"] obtain datagram r' where
    "\<bar>r' - 1 / 3\<bar> \<le> 1 / 2000000"
    "\<And>sendto. send_heartbeat (print_f False) sendto (replicate 30 NUL) (Num (1 / 3))
      = Inr (if sendto datagram < 0 then - 1 else 0)"
    "\<And>other raw'. listen_turn other raw' (Some (''10.0.0.1'', datagram)) (Num 7) ?m
      = Inr (True, put_worker 2 ((ex_worker 5 [3])\<lparr>CPU_usage := Num r', last_beat_received := Num 7,
          alive := (if alive (ex_worker 5 [3]) = 0 then 1 else alive (ex_worker 5 [3]))\<rparr>) ?m)" by metis
  then show ?thesis by (intro exI[of _ datagram] exI[of _ r']) (simp add: ex_worker_def)
qed






section \<open>The scheduler and the monitor\<close>

text \<open>C22: \<^verbatim>\<open>schedule\<close> gives the task to a live worker such that no live worker's load is below its
  load, appends it to that worker's list and returns its descriptor; with no live worker under the
  limit the task goes to \<^verbatim>\<open>task_list\<close> and the result is -1. Nothing else changes.\<close>

theorem schedule_picks_least_loaded:
  assumes "sched_ok m" "task_ptr m t" "length (vlist (task_list m)) < 2 ^ 60"
    "\<forall>p w. m_workers m p = Some w \<longrightarrow> length (vlist (tasks w)) < 2 ^ 60"
  shows "(\<exists>l. schedule t m = Inr (- 1, m\<lparr>task_list := l\<rparr>) \<and> vlist l = vlist (task_list m) @ [t]
      \<and> (\<forall>p\<in>set (vlist (worker_list m)). \<forall>w. runs m p w \<longrightarrow> \<not> load_factor w < Num 100000000))
    \<or> (\<exists>b w l. schedule t m = Inr (worker_fd w, put_worker b (w\<lparr>tasks := l\<rparr>) m)
      \<and> b \<in> set (vlist (worker_list m)) \<and> runs m b w \<and> load_factor w < Num 100000000
      \<and> (\<forall>p\<in>set (vlist (worker_list m)). \<forall>v. runs m p v \<longrightarrow> \<not> load_factor v < load_factor w)
      \<and> vlist l = vlist (tasks w) @ [t])"
  using assms by (rule schedule_cases) blast+

lemma schedule_picks_least_loaded_witness:
  "\<exists>l. schedule 3 (ex_master (ex_os (\<lambda>_. []) (\<lambda>_. [])))
      = Inr (5, put_worker 2 ((ex_worker 5 [3])\<lparr>tasks := l\<rparr>) (ex_master (ex_os (\<lambda>_. []) (\<lambda>_. []))))
    \<and> vlist l = [3, 3]"
proof -
  let ?m = "ex_master (ex_os (\<lambda>_. []) (\<lambda>_. []))"
  have "sched_ok ?m" using ex_master_inv by (simp add: master_inv_def master_ok_def)
  from schedule_picks_least_loaded[OF this, of 3] show ?thesis
    by (auto simp: task_ptr_def ex_vector_ok ex_master_runs ex_worker_load split: if_splits)
qed

text \<open>C23: A pass of the failure detector over workers without tasks marks dead exactly those whose
  last heartbeat is more than three seconds old, and does nothing else.\<close>

theorem monitor_marks_expired:
  assumes "ptr_vector_ok (worker_list m)" "\<not> mutex m"
    "\<forall>p\<in>set (vlist (worker_list m)). p \<noteq> NULL \<and> (\<exists>w. m_workers m p = Some w
       \<and> ptr_vector_ok (tasks w) \<and> vlist (tasks w) = [])"
  shows "detect_pass raw t m = Inr (fold (mark_expired t) (vlist (worker_list m)) m)"
  using detect_loop_idle[of m "[]" "vlist (worker_list m)" 0 raw t] assms
  by (simp add: detect_pass_def)

lemma monitor_marks_expired_witness:
  "\<exists>m'. detect_pass (ex_worker 0 []) (Num 5) (ex_idle (Num 1)) = Inr m'
    \<and> worker_is m' (\<lambda>w. alive w = 0) 2"
proof -
  have "detect_pass (ex_worker 0 []) (Num 5) (ex_idle (Num 1))
    = Inr (fold (mark_expired (Num 5)) (vlist (worker_list (ex_idle (Num 1)))) (ex_idle (Num 1)))"
    by (rule monitor_marks_expired) (simp_all add: ex_idle_def ex_vector_ok)
  then show ?thesis
    by (simp add: ex_idle_def ex_vector_ok mark_expired_def expired_def worker_is_def)
qed

text \<open>C24: \<^verbatim>\<open>reschedule\<close> never returns for a dead worker with two tasks or more: its second loop erases
  at 0, 1, 2, ... from the shrinking vector, and \<^verbatim>\<open>vector_erase\<close> past the end moves memory outside
  the array.\<close>

theorem reschedule_crashes_on_two_tasks:
  assumes "m_workers m p = Some w" "alive w = 0" "ptr_vector_ok (tasks w)"
    "2 \<le> length (vlist (tasks w))"
  shows "reschedule raw p m \<noteq> Inr m'"
  by (rule reschedule_many[OF assms])

lemma reschedule_crashes_on_two_tasks_witness:
  "\<forall>m'. reschedule (ex_worker 0 []) 2 (ex_dead [3, 3] (ex_os (\<lambda>_. []) (\<lambda>_. []))) \<noteq> Inr m'"
  using reschedule_crashes_on_two_tasks[of "ex_dead [3, 3] (ex_os (\<lambda>_. []) (\<lambda>_. []))" 2
      "(ex_worker 5 [3, 3])\<lparr>alive := 0\<rparr>"]
  by (simp add: ex_dead_def ex_vector_ok)

text \<open>C25: \<^verbatim>\<open>reschedule\<close> with one task opens the stored file with \<^verbatim>\<open>O_TRUNC\<close> before sending it: the new
  worker receives an empty file under the task's name.\<close>

theorem reschedule_sends_empty_file:
  assumes "sched_ok m" "p \<noteq> NULL" "m_workers m p = Some w" "alive w = 0"
    "vlist (tasks w) = [t]" "ptr_vector_ok (tasks w)" "m_tasks m t = Some x" "t \<noteq> NULL"
    "length (vlist (task_list m)) < 2 ^ 60"
    "\<forall>p w. m_workers m p = Some w \<longrightarrow> length (vlist (tasks w)) < 2 ^ 60"
    "q \<in> set (vlist (worker_list m))" "runs m q u" "load_factor u < Num 100000000"
    "\<forall>v \<in> ran (m_workers m). \<exists>nb. fds (m_os m) (worker_fd v) = Some (Sock nb)
       \<and> next_fd (m_os m) \<noteq> worker_fd v \<and> willing retried_by_master (wplan (m_os m) (worker_fd v))"
    "\<not> denied (m_os m) (file_name x)" "length (file_name x) + 6 \<le> 4096"
  shows "\<exists>m' v. reschedule raw p m = Inr m' \<and> v \<in> ran (m_workers m) \<and> alive v \<noteq> 0
    \<and> sent (m_os m') (worker_fd v) = sent (m_os m) (worker_fd v) @ put_frame (file_name x) []"
  by (rule reschedule_one[OF assms]) blast

lemma reschedule_sends_empty_file_witness:
  "\<exists>m'. reschedule (ex_worker 0 []) 2
      (ex_dead [3] (ex_os (\<lambda>_. []) (\<lambda>_. [])\<lparr>disk := [''job'' \<mapsto> ''data'']\<rparr>)) = Inr m'
    \<and> sent (m_os m') 6 = put_frame ''job'' []"
proof -
  let ?m = "ex_dead [3] (ex_os (\<lambda>_. []) (\<lambda>_. [])\<lparr>disk := [''job'' \<mapsto> ''data'']\<rparr>)"
  have "\<exists>m' v. reschedule (ex_worker 0 []) 2 ?m = Inr m' \<and> v \<in> ran (m_workers ?m) \<and> alive v \<noteq> 0
    \<and> sent (m_os m') (worker_fd v) = sent (m_os ?m) (worker_fd v) @ put_frame (file_name ex_task) []"
  proof (rule reschedule_sends_empty_file[where t = 3 and q = 4 and u = "ex_worker 6 []"
        and w = "(ex_worker 5 [3])\<lparr>alive := 0\<rparr>"])
    show "sched_ok ?m" by (rule ex_dead_ok) simp
  qed (auto simp: ex_dead_def ex_vector_ok runs_def ex_worker_load ex_os_def ex_task_def ran_def
      split: if_splits)
  then show ?thesis by (auto simp: ex_dead_def ran_def ex_os_def ex_task_def split: if_splits)
qed


section \<open>Transfers of the master\<close>

text \<open>C26: The body of a message ends with the same worker struct, the same files and the same result
  whether it arrives at once or in any pieces, with a call of \<^verbatim>\<open>get_binary_data\<close> after each.\<close>

theorem body_in_pieces:
  assumes "deliver NOT_DONE_SENDING get_binary_data w os ess = Inr x"
    "fds os (worker_fd w) = Some (Sock True)" "no_false_empty os (worker_fd w)" "temp_apart w os"
    "\<forall>es\<in>set ess. Fail EAGAIN \<notin> set es"
  shows "get_binary_data w (feed os (worker_fd w) (concat ess)) = Inr x"
  by (rule body.pieces[OF assms])

lemma body_in_pieces_witness:
  "\<exists>x. get_binary_data (ex_receiving 3) (feed (ex_os (\<lambda>_. []) (\<lambda>_. [])) 5
      (concat [[Chunk ''a''], [Fail EINTR, Chunk ''bc'']])) = Inr x \<and> fst x = DONE_SENDING"
proof -
  let ?os = "ex_os (\<lambda>_. []) (\<lambda>_. [])" and ?ess = "[[Chunk ''a''], [Fail EINTR, Chunk ''bc'']]"
  have "\<exists>x. deliver NOT_DONE_SENDING get_binary_data (ex_receiving 3) ?os ?ess = Inr x
      \<and> fst x = DONE_SENDING"
    by (simp add: get_binary_data_def receive_loop.simps ex_receiving_def ex_worker_def ex_os_def
        open_with_all_permission_def sys_open_trunc_def sys_read_def block_size_def feed_def
        write_all_to_socket_def write_all_loop.simps sys_write_def accept_bytes_def
        set_incoming_def file_bytes_def overwrite_def Let_def)
  then obtain x where x: "deliver NOT_DONE_SENDING get_binary_data (ex_receiving 3) ?os ?ess = Inr x"
    "fst x = DONE_SENDING" by blast
  have fd: "worker_fd (ex_receiving 3) = 5" by (simp add: ex_receiving_def)
  have "get_binary_data (ex_receiving 3)
      (feed ?os (worker_fd (ex_receiving 3)) (concat ?ess)) = Inr x"
    by (rule body_in_pieces[OF x(1)])
      (simp_all add: ex_receiving_def ex_os_def no_false_empty_def temp_apart_def)
  with x(2) fd show ?thesis by (simp only:) blast
qed

text \<open>C27: The same for the header line: what \<^verbatim>\<open>get_command\<close> stored before it ran out of data is kept,
  and the next call goes on behind it.\<close>

theorem header_in_pieces:
  assumes "deliver NOT_DONE_SENDING get_command w os ess = Inr x"
    "fds os (worker_fd w) = Some (Sock True)" "no_false_empty os (worker_fd w)"
    "\<forall>es\<in>set ess. Fail EAGAIN \<notin> set es"
  shows "get_command w (feed os (worker_fd w) (concat ess)) = Inr x"
  by (rule header.pieces[OF assms(1-3) _ assms(4)]) simp

lemma header_in_pieces_witness:
  "\<exists>x. get_command (ex_worker 5 []) (feed (ex_os (\<lambda>_. []) (\<lambda>_. [])) 5
      (concat [[Chunk ''PU''], [Chunk (''T a'' @ [NEWLINE])]])) = Inr x \<and> fst x = DONE_SENDING"
proof -
  let ?os = "ex_os (\<lambda>_. []) (\<lambda>_. [])" and ?ess = "[[Chunk ''PU''], [Chunk (''T a'' @ [NEWLINE])]]"
  have "\<exists>x. deliver NOT_DONE_SENDING get_command (ex_worker 5 []) ?os ?ess = Inr x
      \<and> fst x = DONE_SENDING"
    by (simp add: get_command_def get_command_loop.simps ex_worker_def ex_os_def sys_read_def
        feed_def set_incoming_def parse_header_def c_string_def cstr_def Let_def numeral_eq_Suc)
  then obtain x where x: "deliver NOT_DONE_SENDING get_command (ex_worker 5 []) ?os ?ess = Inr x"
    "fst x = DONE_SENDING" by blast
  have "get_command (ex_worker 5 []) (feed ?os (worker_fd (ex_worker 5 [])) (concat ?ess)) = Inr x"
    by (rule header_in_pieces[OF x(1)]) (simp_all add: ex_os_def no_false_empty_def)
  with x(2) show ?thesis by (simp only: ex_worker_simps) blast
qed

text \<open>C28: A header line of 1024 bytes or more makes the master access memory outside the command
  buffer: the guard compares with 1025, after the store.\<close>

theorem long_header_overflows:
  assumes "fds os (worker_fd w) = Some (Sock nb)" "command_ok w" "command_size w = 0"
    "stream (\<lambda>e. e = EINTR) (incoming os (worker_fd w)) = line @ NEWLINE # rest"
    "NEWLINE \<notin> set line" "NUL \<notin> set line" "COMMAND_BUF_SIZE \<le> length line"
  shows "get_command w os = Inl Out_of_bounds"
  by (rule get_command_long_line[OF assms])

lemma long_header_overflows_witness:
  "get_command (ex_worker 5 []) (ex_os (\<lambda>_. [Chunk (replicate 2000 (CHR ''a'')), Chunk [NEWLINE]])
      (\<lambda>_. [])) = Inl Out_of_bounds"
  by (rule long_header_overflows[where nb = True and line = "replicate 2000 (CHR ''a'')"
        and rest = "[]"])
    (simp_all add: ex_os_def command_ok_def ex_worker_def)

text \<open>C29: Whatever the kernel does to its reads and writes, \<^verbatim>\<open>do_put\<close> sends a prefix of the frame of
  the stored file and nothing else, all of it when it returns \<^verbatim>\<open>DONE_SENDING\<close>, and it leaves the
  mutex free on every path.\<close>

theorem do_put_sends_a_prefix:
  assumes "do_put dst w (mu, os) = Inr (r, mu', os')" "temp_file_name w = Some name"
    "fds os (temp_fd w) = Some (File name off)" "fds os dst = Some (Sock nb)"
    "disk os name = Some c" "length c < 2 ^ 64"
  shows "(\<exists>n. sent os' dst = sent os dst @ take n (put_frame name c)
      \<and> (r = DONE_SENDING \<longrightarrow> length (put_frame name c) \<le> n))
    \<and> (r = DONE_SENDING \<or> r = BIG_FAILURE) \<and> \<not> mu'"
  using do_put_sent[OF assms] do_put_unlocked[OF assms(1)] by blast

lemma do_put_sends_a_prefix_witness:
  "\<exists>r os'. do_put 4 ex_stored (False, ex_stored_os [Accept 2, Refuse EPIPE]) = Inr (r, False, os')
    \<and> (\<exists>n. sent os' 4 = take n (put_frame ''f'' ''xy''))"
proof -
  let ?os = "ex_stored_os [Accept 2, Refuse EPIPE]"
  have s: "temp_file_name ex_stored = Some ''f''" "fds ?os (temp_fd ex_stored) = Some (File ''f'' 2)"
    "fds ?os 4 = Some (Sock True)" "disk ?os ''f'' = Some ''xy''" "sent ?os 4 = []"
    by (simp_all add: ex_stored_def ex_stored_os_def ex_os_def)
  have w: "\<exists>os1. write_all_to_socket ?os 4 (put_header ''f'') = (- 1, os1)"
    by (simp add: write_all_to_socket_def write_all_loop.simps sys_write_def ex_stored_os_def
        ex_os_def put_header_def accept_bytes_def set_wplan_def)
  then obtain r os' where r: "do_put 4 ex_stored (False, ?os) = Inr (r, False, os')"
    using s(1) by (auto simp: do_put_def Let_def put_header_def)
  from do_put_sends_a_prefix[OF r s(1-4)] s(5) r show ?thesis by auto
qed

text \<open>C30: When the peer goes on accepting and the stored file can be read, \<^verbatim>\<open>do_put\<close> sends the whole
  frame and returns \<^verbatim>\<open>DONE_SENDING\<close>, whatever the sizes of the partial writes.\<close>

theorem do_put_sends_everything:
  assumes "temp_file_name w = Some name" "length name + 6 \<le> 4096"
    "fds os (temp_fd w) = Some (File name off)" "fds os dst = Some (Sock nb)"
    "disk os name = Some c" "length c < 2 ^ 64" "willing retried_by_master (wplan os dst)"
    "\<forall>a\<in>set (incoming os (temp_fd w)). a = Fail EINTR"
  shows "\<exists>os'. do_put dst w (False, os) = Inr (DONE_SENDING, False, os')
    \<and> sent os' dst = sent os dst @ put_frame name c"
  by (rule do_put_whole[OF assms])

lemma do_put_sends_everything_witness:
  "\<exists>os'. do_put 4 ex_stored (False, ex_stored_os [Accept 2, Refuse EAGAIN, Accept 5])
      = Inr (DONE_SENDING, False, os')
    \<and> sent os' 4 = put_frame ''f'' ''xy''"
  using do_put_sends_everything[of ex_stored "''f''"
      "ex_stored_os [Accept 2, Refuse EAGAIN, Accept 5]" 2 4 True "''xy''"]
  by (simp add: ex_stored_def ex_stored_os_def ex_os_def)

section \<open>The vector\<close>

text \<open>C31: \<^verbatim>\<open>vector_erase\<close> removes exactly the element at the position, destroys it, and closes the
  gap.\<close>

theorem erase_removes_one:
  assumes "vec_ok v" "vlist v = xs @ p # ys" "unat i = length xs"
  shows "\<exists>v'. vector_erase v i s = Inr (v', destructor v p s) \<and> vec_ok v' \<and> vlist v' = xs @ ys"
  by (rule vector_erase_ok[OF assms, of s]) blast

lemma erase_removes_one_witness:
  "\<exists>v'. vector_erase (ex_vector [4, 5, 6]) 1 () = Inr (v', ()) \<and> vlist v' = [4, 6]"
  using erase_removes_one[of "ex_vector [4, 5, 6]" "[4]" 5 "[6]" 1 "()"]
  by (simp add: ex_vector_ok) blast

text \<open>C32: \<^verbatim>\<open>get_new_capacity\<close> returns the least power of two that is not below the target, for targets
  up to \<open>2 ^ 63\<close>, and never ends for larger ones.\<close>

theorem new_capacity_is_least_power:
  "if unat target \<le> 2 ^ 63
   then \<exists>k. get_new_capacity target = Some (2 ^ k) \<and> k \<le> 63 \<and> unat target \<le> 2 ^ k
     \<and> (k = 0 \<or> 2 ^ (k - 1) < unat target)
   else get_new_capacity target = None"
  using get_new_capacity_least[of target] get_new_capacity_None[of target]
  by (auto simp: not_le)


section \<open>The queue and the interface\<close>

text \<open>C33: The linked queue refines the list of what it holds: a push waits exactly when the queue is at
  its limit and otherwise appends the copy the client's constructor made; a pull waits exactly when
  the list is empty and otherwise takes its head.\<close>

theorem queue_refines_list:
  assumes "queue_holds q ds"
  shows "(if 0 < max_size q \<and> int (length ds) = max_size q then queue_push q d s = Inl Blocks
     else \<exists>q'. queue_push q d s = Inr (q', snd (q_copy q d s))
       \<and> queue_holds q' (ds @ [fst (q_copy q d s)]) \<and> max_size q' = max_size q)
    \<and> (case ds of [] \<Rightarrow> queue_pull q = Inl Blocks
       | e # es \<Rightarrow> \<exists>q'. queue_pull q = Inr (e, q') \<and> queue_holds q' es \<and> max_size q' = max_size q)"
proof -
  have full: "queue_full q \<longleftrightarrow> 0 < max_size q \<and> int (length ds) = max_size q"
    using queue_holds_size[OF assms] by (simp add: queue_full_def)
  have push: "\<exists>q'. queue_push q d s = Inr (q', snd (q_copy q d s))
      \<and> queue_holds q' (ds @ [fst (q_copy q d s)]) \<and> max_size q' = max_size q" if "\<not> queue_full q"
    using queue_push_ok[OF assms that, of d s "fst (q_copy q d s)" "snd (q_copy q d s)"] by auto
  have pull: "\<exists>q'. queue_pull q = Inr (e, q') \<and> queue_holds q' es \<and> max_size q' = max_size q"
    if "ds = e # es" for e es using queue_pull_ok[OF assms[unfolded that]] by blast
  have "queue_pull q = Inl Blocks" if "ds = []"
    using that queue_holds_size[OF assms] by (simp add: queue_pull_def)
  moreover have "queue_push q d s = Inl Blocks" if "queue_full q" using that by (simp add: queue_push_def)
  ultimately show ?thesis using full push pull by (auto split: list.split)
qed

lemma queue_refines_list_witness:
  "\<exists>q'. queue_push (ex_queue 15) 7 () = Inr (q', ()) \<and> queue_holds q' [7]"
  using queue_refines_list[OF queue_create_holds, of 15 Pair "\<lambda>_ s. s" 7 "()"]
  by (auto simp: ex_queue_def queue_create_def)

text \<open>C34: No thread waits on a queue for a condition that holds: in every reachable state of the
  monitor, under every schedule and with spurious wakeups, a thread that waits to pull waits on an
  empty queue and one that waits to push on a full one; the limit is kept, and the pulls are the
  pushes in order.\<close>

theorem monitor_loses_no_wakeup:
  assumes "monitor_reach (initial_monitor limit copy destr s) m"
  shows "\<exists>ds. queue_holds (mon_queue m) ds \<and> mon_pushed m = mon_pulled m @ ds
    \<and> (0 < max_size (mon_queue m) \<longrightarrow> int (length ds) \<le> max_size (mon_queue m))
    \<and> (\<forall>t. mon_threads m t = Pull_waits \<longrightarrow> ds = [])
    \<and> (\<forall>t d. mon_threads m t = Push_waits d \<longrightarrow> queue_full (mon_queue m))"
  using monitor_reach_ok[OF assms initial_monitor_ok] by (simp add: monitor_ok_def)

lemma monitor_loses_no_wakeup_witness:
  "\<exists>m :: unit monitor. mon_threads m 0 = Pull_waits \<and> queue_holds (mon_queue m) []"
proof -
  let ?m0 = "initial_monitor 15 Pair (\<lambda>_ s. s) ()"
  let ?m1 = "?m0\<lparr>mon_threads := (mon_threads ?m0)(0 := Pulling)\<rparr>"
  let ?m2 = "?m1\<lparr>mon_threads := (mon_threads ?m1)(0 := Pull_waits)\<rparr>"
  have "monitor_step ?m0 ?m1"
    by (rule monitor_step.call_pull) (simp add: initial_monitor_def)
  moreover have "monitor_step ?m1 ?m2"
    by (rule monitor_step.pull_waits) (simp_all add: initial_monitor_def queue_create_def queue_pull_def)
  ultimately have "monitor_reach ?m0 ?m2"
    by (blast intro: monitor_reach.intros)
  from monitor_loses_no_wakeup[OF this] show ?thesis by (intro exI[of _ ?m2]) auto
qed

text \<open>C35: A turn of the interface skips white space, takes one name from the terminal and sends one
  request: the verb and the name, the size of the file, its contents.\<close>

theorem interface_sends_request:
  assumes "\<forall>c\<in>set ws. isspace c" "name \<noteq> []" "\<forall>c\<in>set name. \<not> isspace c" "isspace d"
    "NUL \<notin> set name" "length name \<le> 1008" "disk os name = Some body" "\<not> denied os name"
    "fds os fd = Some (Sock nb)" "willing retried_by_interface (wplan os fd)"
  shows "\<exists>os'. interface_turn os fd (ws @ name @ d # rest) = Inr (rest, os')
    \<and> sent os' fd = sent os fd @ request_frame name body"
  using assms by (rule interface_turn_sends)

lemma interface_sends_request_witness:
  "\<exists>os'. interface_turn (ex_client (\<lambda>_. [])) 4 (''  '' @ ''job'' @ NEWLINE # ''next'') = Inr (''next'', os')
    \<and> sent os' 4 = request_frame ''job'' ''xy''"
  using interface_sends_request[of "''  ''" "''job''" NEWLINE "ex_client (\<lambda>_. [])" "''xy''" 4 True "''next''"]
  by (simp add: isspace_def)



text \<open>C37: When the master closes the connection, the thread that prints the results overflows its
  buffer: it ignores that nothing was read and stores the last byte again and again.\<close>

theorem receiver_overflows_at_end:
  assumes "fds os fd = Some (Sock nb)" "incoming os fd = Eof # es" "b \<noteq> NEWLINE"
  shows "output_reciever os fd b n = Inl Out_of_bounds"
  using skip_header_eof[OF assms, of "[]"] by (simp add: output_reciever_def)

lemma receiver_overflows_at_end_witness:
  "output_reciever (ex_client (\<lambda>_. [Eof])) 4 NUL 0 = Inl Out_of_bounds"
  using receiver_overflows_at_end[of "ex_client (\<lambda>_. [Eof])" 4 True "[]" NUL 0] by simp


section \<open>The earlier version\<close>





text \<open>C40: The deprecated worker never runs a program: in every state it reaches, its loop goes on and it is
  still at its first program; and when the handler reports that the program is complete, the next
  thing is an access to an array of a function that has returned.\<close>

theorem old_worker_runs_nothing:
  assumes "server_main defaultMaster line calls raw os = Inr (Some w0)" "old_worker_reach w0 w"
  shows "runningC w \<and> n_taskNo (curTask w) = 0
    \<and> (\<forall>os' task'. handleTaskThreeWorker (ow_os w) (curTask w) = Inr (0, os', task') \<longrightarrow>
         manageTaskWorker (ow_os w) (curTask w) = Inl Out_of_bounds)"
  using old_worker_reach_startup[OF assms(2) server_main_startup[OF assms(1)]] whole_program_crashes
  by (auto simp: at_startup_def)

lemma old_worker_runs_nothing_witness:
  "\<exists>w0 w. server_main ''master'' (Some [NEWLINE]) (\<lambda>_. (3, 0, 0, False, [])) (replicate 4096 NUL) (ex_wire (\<lambda>_. []))
      = Inr (Some w0) \<and> old_worker_reach w0 w \<and> manageTaskWorker (ow_os w) (curTask w) = Inl Out_of_bounds"
proof -
  obtain w0 w os' task' where w:
    "server_main ''master'' (Some [NEWLINE]) (\<lambda>_. (3, 0, 0, False, [])) (replicate 4096 NUL) (ex_wire (\<lambda>_. []))
      = Inr (Some w0)" "old_worker_reach w0 w"
    "handleTaskThreeWorker (ow_os w) (curTask w) = Inr (0, os', task')" by (rule ex_old_worker)
  then show ?thesis using old_worker_runs_nothing[OF w(1,2)] by blast
qed


section \<open>Further facts\<close>

text \<open>\<^verbatim>\<open>scheduler_remove_task\<close> removes the first task of that name from the first worker on that
  descriptor, and changes nothing when there is no such worker.\<close>

theorem finished_task_is_removed:
  assumes "sched_ok m"
  shows "case List.find (worker_is m (\<lambda>w. worker_fd w = fd)) (vlist (worker_list m)) of
      None \<Rightarrow> scheduler_remove_task fd f m = Inr m
    | Some p \<Rightarrow> \<exists>w l. m_workers m p = Some w
        \<and> scheduler_remove_task fd f m = Inr (put_worker p (w\<lparr>tasks := l\<rparr>) m)
        \<and> vlist l = remove_first (task_named m f) (vlist (tasks w))"
  using scheduler_remove_task_ok[OF assms, of fd f] by (auto split: option.splits)

lemma finished_task_is_removed_witness:
  "\<exists>l. scheduler_remove_task 5 ''job'' (ex_master (ex_os (\<lambda>_. []) (\<lambda>_. [])))
      = Inr (put_worker 2 ((ex_worker 5 [3])\<lparr>tasks := l\<rparr>) (ex_master (ex_os (\<lambda>_. []) (\<lambda>_. []))))
    \<and> vlist l = []"
proof -
  let ?m = "ex_master (ex_os (\<lambda>_. []) (\<lambda>_. []))"
  have "sched_ok ?m" using ex_master_inv by (simp add: master_inv_def master_ok_def)
  from finished_task_is_removed[OF this, of 5 "''job''"] show ?thesis
    by (auto simp: worker_is_def task_named_def ex_task_def ex_vector_ok)
qed

text \<open>A worker that closes its connection in the middle of a message, where the size is expected, is not
  noticed: the event changes nothing, and the worker counts as live.\<close>

theorem hang_up_in_message_unnoticed:
  assumes "master_inv m" "p \<in> set (vlist (worker_list m))" "get_worker m p = Inr w" "alive w \<noteq> 0"
    "status w = NEED_SIZE" "fds (m_os m) (worker_fd w) = Some (Sock nb)"
    "incoming (m_os m) (worker_fd w) = Eof # es"
  shows "handle_data (worker_fd w) m = Inr m"
proof -
  have p: "p \<noteq> NULL" "m_workers m p = Some w"
    using assms(3) by (simp_all add: get_worker_def deref_Inr)
  then have same: "put_worker p w m = m" by (simp add: put_worker_def fun_upd_idem)
  have "sys_read (m_os m) (worker_fd w) 1 = (RData [], m_os m)"
    using assms(6,7) by (simp add: sys_read_def set_incoming_def fun_upd_idem)
  then have "get_size w (m_os m) = Inr (BIG_FAILURE, w, m_os m)"
    by (simp add: get_size.simps[of w])
  from m_read_run[of m p w get_size, OF assms(3) this]
  have "m_read get_size p m = Inr (BIG_FAILURE, m)" using same by simp
  then have "handle_need_size p m = Inr (Go_on m)" using assms(3,5) by (simp add: handle_need_size_def)
  then show ?thesis
    using handle_data_listed[OF assms(1-4)] assms(3,5)
    by (simp add: run_blocks_def andthen_def handle_start_def handle_recieving_def handle_forward_def
        handle_forwarding_def)
qed

lemma hang_up_in_message_unnoticed_witness:
  "\<exists>m. master_inv m \<and> handle_data 5 m = Inr m \<and> incoming (m_os m) 5 = [Eof]"
proof -
  let ?m = "ex_master (ex_os (\<lambda>_. [Eof]) (\<lambda>_. []))" and ?w = "(ex_worker 5 [3])\<lparr>status := NEED_SIZE\<rparr>"
  let ?n = "put_worker 2 ?w ?m"
  have "get_worker ?m 2 = Inr (ex_worker 5 [3])" by (simp add: get_worker_def)
  from master_put[OF _ this, of ?w] have inv: "master_inv ?n"
    using ex_master_inv[of "\<lambda>_. [Eof]" "\<lambda>_. []"]
    by (intro master_inv_shape[OF ex_master_inv[of "\<lambda>_. [Eof]" "\<lambda>_. []"]]) (simp add: master_inv_def)
  have "handle_data (worker_fd ?w) ?n = Inr ?n"
    by (rule hang_up_in_message_unnoticed[OF inv, of 2 _ True "[]"]) (simp_all add: get_worker_def ex_os_def)
  then show ?thesis using inv by (intro exI[of _ ?n]) (simp add: ex_os_def)
qed

text \<open>A heartbeat updates the first worker with the sender's address, and revives it if it was
  marked dead; no other worker changes.\<close>

theorem heartbeat_updates_first_with_address:
  assumes "sched_ok m"
  shows "report_heartbeat a u t m = Inr
    (case List.find (worker_is m (\<lambda>w. IP w = a)) (vlist (worker_list m)) of
       None \<Rightarrow> m
     | Some p \<Rightarrow> put_worker p ((the (m_workers m p))\<lparr>CPU_usage := u, last_beat_received := t,
         alive := (if alive (the (m_workers m p)) = 0 then 1 else alive (the (m_workers m p)))\<rparr>) m)"
  by (rule report_heartbeat_ok[OF assms])

lemma heartbeat_updates_first_with_address_witness:
  "report_heartbeat ''10.0.0.1'' (Num 1) (Num 7) (ex_master (ex_os (\<lambda>_. []) (\<lambda>_. [])))
    = Inr (put_worker 2 ((ex_worker 5 [3])\<lparr>CPU_usage := Num 1, last_beat_received := Num 7\<rparr>)
        (ex_master (ex_os (\<lambda>_. []) (\<lambda>_. []))))"
proof -
  let ?m = "ex_master (ex_os (\<lambda>_. []) (\<lambda>_. []))"
  have "sched_ok ?m" using ex_master_inv by (simp add: master_inv_def master_ok_def)
  from heartbeat_updates_first_with_address[OF this, of "''10.0.0.1''" "Num 1" "Num 7"]
  show ?thesis by (simp add: worker_is_def ex_worker_def)
qed

text \<open>\<^verbatim>\<open>reset_worker_for_parsing\<close> closes nothing: the descriptor of the temporary file is set to -1
  before it is tested, so each message leaks one.\<close>

theorem reset_never_closes_temp_file:
  "snd (reset_worker_for_parsing w os) = os \<and> temp_fd (fst (reset_worker_for_parsing w os)) = - 1"
  using reset_never_closes[of w os] by (metis prod.collapse)

text \<open>The master reads exactly the eight bytes of a size, in the byte order they were written in,
  and leaves the rest of the stream.\<close>

theorem size_is_read_back:
  assumes "fds os (worker_fd w) = Some (Sock nb)" "size_buffer_pos w = 0"
    "stream (\<lambda>e. e = EINTR) (incoming os (worker_fd w)) = size_bytes n @ rest"
  shows "\<exists>es. get_size w os = Inr (DONE_SENDING, w\<lparr>file_size := n, size_buffer_pos := 8\<rparr>,
      set_incoming os (worker_fd w) es) \<and> stream (\<lambda>e. e = EINTR) es = rest"
  by (rule get_size_whole[OF assms]) blast

lemma size_is_read_back_witness:
  "\<exists>os'. get_size (ex_worker 5 []) (ex_os (\<lambda>_. [Chunk (size_bytes 300), Chunk ''x'']) (\<lambda>_. []))
    = Inr (DONE_SENDING, (ex_worker 5 [])\<lparr>file_size := 300, size_buffer_pos := 8\<rparr>, os')"
proof -
  let ?os = "ex_os (\<lambda>_. [Chunk (size_bytes 300), Chunk ''x'']) (\<lambda>_. [])"
  have "\<exists>es. get_size (ex_worker 5 []) ?os = Inr (DONE_SENDING,
      (ex_worker 5 [])\<lparr>file_size := 300, size_buffer_pos := 8\<rparr>,
      set_incoming ?os (worker_fd (ex_worker 5 [])) es) \<and> stream (\<lambda>e. e = EINTR) es = ''x''"
    by (rule size_is_read_back[where nb = True]) (simp_all add: ex_os_def)
  then show ?thesis by blast
qed

text \<open>\<^verbatim>\<open>vector_insert\<close> puts the copied element at the position and moves the others up.\<close>

theorem insert_makes_room:
  assumes "vec_ok v" "vlist v = xs @ ys" "unat i = length xs" "length (vlist v) < 2 ^ 60"
    "copy_constructor v e s = (q, s')"
  shows "\<exists>v'. vector_insert v i e s = Inr (v', s') \<and> vec_ok v' \<and> vlist v' = xs @ q # ys"
  by (rule vector_insert_ok[OF assms]) blast

lemma insert_makes_room_witness:
  "\<exists>v'. vector_insert (ex_vector [4, 6]) 1 5 () = Inr (v', ()) \<and> vlist v' = [4, 5, 6]"
  using insert_makes_room[of "ex_vector [4, 6]" "[4]" "[6]" 1 5 "()" 5 "()"]
  by (simp add: ex_vector_ok) (auto simp: ex_vector_def shallow_copy_constructor_def)

text \<open>What is pushed comes out in the same order, and leaves the queue empty.\<close>

theorem queue_is_first_in_first_out:
  assumes "queue_holds q []"
  shows "\<exists>q'. bindr (queue.add_all q ds) (queue.remove_n (length ds)) = Inr (ds, q')
    \<and> queue_holds q' []"
  using assms by (rule queue.in_order)

lemma queue_is_first_in_first_out_witness:
  "\<exists>q'. bindr (queue.add_all (ex_queue 0) [3, 1, 2]) (queue.remove_n (length [3, 1, 2 :: ptr]))
      = Inr ([3, 1, 2], q') \<and> queue_holds q' []"
  unfolding ex_queue_def by (rule queue_is_first_in_first_out[OF queue_create_holds])

text \<open>Destroying a queue runs the client's destructor once on each element, in order, and touches no
  node after freeing it.\<close>

theorem queue_destroy_runs_destructors:
  assumes "queue_holds q ds"
  shows "queue_destroy q s = Inr (fold (q_destr q) ds s)"
  using assms by (rule queue_destroy_ok)

lemma queue_destroy_runs_destructors_witness:
  "queue_destroy (queue_create 15 task_copy_constructor task_destructor) \<lparr>w_tasks = [2 \<mapsto> ex_done], w_next = 3\<rparr>
    = Inr \<lparr>w_tasks = [2 \<mapsto> ex_done], w_next = 3\<rparr>"
  using queue_destroy_runs_destructors[OF queue_create_holds, of 15 task_copy_constructor task_destructor]
  by simp

text \<open>The type of a message of the deprecated protocol is the highest of the bits 1 to 7 that is set,
  0 when none is, and -1 when one is and bit 0 is not. That exactly two bits are set, as the comments
  of the headers ask, is not tested.\<close>

theorem message_type_is_highest_bit:
  "getMessageType w = (let ts = {t. 1 \<le> t \<and> t \<le> 7 \<and> bit w t} in
     if ts = {} then 0 else if bit w 0 then int (Max ts) else - 1)"
  by (rule getMessageType_spec)

text \<open>A file sent by the deprecated \<^verbatim>\<open>sendBinaryFile\<close> and received by \<^verbatim>\<open>getBinaryFile\<close> arrives: the bytes
  sent are the contents, and a connection that delivers them, in any pieces, and then ends, leaves them
  in the file. When the file was there and longer, its tail stays: it is not truncated.\<close>

theorem old_file_round_trip:
  assumes "fds os sock = Some (Sock nb)" "willing never (wplan os sock)" "disk os name = Some body"
    "\<not> denied os name" "next_fd os \<noteq> - 1" "sock \<noteq> next_fd os"
    "fds os2 sock2 = Some (Sock nb2)" "ends (incoming os2 sock2)" "\<not> denied os2 name2"
    "next_fd os2 \<noteq> - 1" "sock2 \<noteq> next_fd os2"
  shows "\<exists>os'. sendBinaryFile os sock name = Inr (0, os') \<and> sent os' sock = sent os sock @ body
    \<and> (stream never (incoming os2 sock2) = body \<longrightarrow>
       (\<exists>os2'. getBinaryFile os2 sock2 name2 = Inr (Some name2, os2')
          \<and> disk os2' name2 = Some (body @ drop (length body) (file_bytes os2 name2))))"
  using sendBinaryFile_sends[OF assms(1-6)] getBinaryFile_stores[OF assms(7-9) assms(10,11)]
  by (auto simp: overwrite_def)

lemma old_file_round_trip_witness:
  "\<exists>os' os2'. sendBinaryFile ((ex_wire (\<lambda>_. []))\<lparr>disk := [''a'' \<mapsto> ''xyz'']\<rparr>) 3 ''a'' = Inr (0, os')
    \<and> sent os' 3 = ''xyz''
    \<and> getBinaryFile (ex_wire (\<lambda>_. [Chunk ''x'', Chunk ''yz'', Eof])) 3 ''b'' = Inr (Some ''b'', os2')
    \<and> disk os2' ''b'' = Some ''xyz''"
  using old_file_round_trip[of "(ex_wire (\<lambda>_. []))\<lparr>disk := [''a'' \<mapsto> ''xyz'']\<rparr>" 3 True "''a''" "''xyz''"
      "ex_wire (\<lambda>_. [Chunk ''x'', Chunk ''yz'', Eof])" 3 True "''b''"]
  by (auto simp: ex_wire_def ex_os_def ends_def file_bytes_def)

text \<open>\<^verbatim>\<open>find_worker_pos\<close> and with it \<^verbatim>\<open>handle_data\<close> find the connection an event is for: a listed
  worker's descriptor is nobody else's, so the event is handled for that worker.\<close>

theorem event_reaches_its_worker:
  assumes "master_inv m" "p \<in> set (vlist (worker_list m))" "get_worker m p = Inr w" "alive w \<noteq> 0"
  shows "handle_data (worker_fd w) m = run_blocks (worker_fd w) p m"
  by (rule handle_data_listed[OF assms])

lemma event_reaches_its_worker_witness:
  "handle_data 5 (ex_master (ex_os (\<lambda>_. []) (\<lambda>_. [])))
    = run_blocks 5 2 (ex_master (ex_os (\<lambda>_. []) (\<lambda>_. [])))"
  using event_reaches_its_worker[OF ex_master_inv, of 2 _ _ "ex_worker 5 [3]"]
  by (simp add: get_worker_def)

text \<open>\<^verbatim>\<open>vector_push_back\<close> appends the copied element and keeps the vector well formed, growing the
  array when it is full.\<close>

theorem push_back_appends:
  assumes "vec_ok v" "length (vlist v) < 2 ^ 60"
  shows "\<exists>v'. vector_push_back v x s = Inr (v', snd (copy_constructor v x s)) \<and> vec_ok v'
    \<and> vlist v' = vlist v @ [fst (copy_constructor v x s)]"
  by (rule vector_push_back_ok[OF assms, of x s]) blast

lemma push_back_appends_witness:
  "\<exists>v'. vector_push_back (ex_vector [1..<11]) 7 () = Inr (v', ()) \<and> vlist v' = [1..<11] @ [7]"
  using push_back_appends[of "ex_vector [1..<11]" 7 "()"]
  by (auto simp: ex_vector_ok) (auto simp: ex_vector_def shallow_copy_constructor_def)

text \<open>\<^verbatim>\<open>vector_resize\<close> to 0 destroys no element: the bound \<^verbatim>\<open>n-1\<close> of its loop wraps around.\<close>

theorem resize_to_zero_destroys_nothing:
  "vector_resize v 0 s = Inr (v\<lparr>v_size := 0\<rparr>, s)"
  by (rule vector_resize_zero)

text \<open>The scheduler of the deprecated version never gives a task to a node. Whenever it returns, no
  node has changed and the first task of the queue has moved to its end; and when the first node of the
  list is alive and a task waits, it does not return.\<close>

theorem old_scheduler_assigns_nothing:
  assumes "o_queue s = Some q" "queue_holds q (t # ds)"
  shows "(\<forall>s'. get_task_from_queue_onto_nodes s workers = Inr s' \<longrightarrow>
       o_nodes s' = o_nodes s \<and> (\<exists>q'. o_queue s' = Some q' \<and> queue_holds q' (ds @ [t])))
    \<and> (\<forall>n. o_nodes s workers = Some n \<and> workers \<noteq> NULL \<and> n_alive n \<noteq> 0 \<and> \<not> o_mutex s \<longrightarrow>
       get_task_from_queue_onto_nodes s workers = Inl Diverges)"
  using assign_requeues[OF _ assms] assign_spins[OF assms] by simp

lemma old_scheduler_assigns_nothing_witness:
  "\<exists>q s'. queue_holds q [7, 8] \<and> get_task_from_queue_onto_nodes (ex_old 0 q) 1 = Inr s'
    \<and> o_nodes s' = o_nodes (ex_old 0 q) \<and> (\<exists>q'. o_queue s' = Some q' \<and> queue_holds q' [8, 7])
    \<and> get_task_from_queue_onto_nodes (ex_old 1 q) 1 = Inl Diverges"
proof -
  obtain q :: old_queue where q: "queue_holds q [7, 8]" using ex_old_queue .
  moreover obtain s' where "get_task_from_queue_onto_nodes (ex_old 0 q) 1 = Inr s'"
    using ex_old_returns[OF q] .
  ultimately show ?thesis
    using old_scheduler_assigns_nothing[of "ex_old 0 q" q 7 "[8]" 1]
      old_scheduler_assigns_nothing[of "ex_old 1 q" q 7 "[8]" 1]
    by (intro exI[of _ q] exI[of _ s']) (simp add: ex_old_def ex_node_def)
qed

text \<open>In the deprecated worker a piece of a program that is late is lost: with only the name and the
  first piece on the connection, the file gets that piece, the worker reports that it is ready, and
  the dispatcher then runs the program by a name in an array of a function that has returned.\<close>

theorem late_piece_is_not_received:
  assumes "fds os (n_socket_fd task) = Some (Sock True)" "n_socket_fd task \<noteq> next_fd os"
    "incoming os (n_socket_fd task) = [Chunk (name @ NUL # piece)]" "wplan os (n_socket_fd task) = []"
    "n_taskNo task = 0" "n_taskPos task = 0" "n_bufPos task = 0" "n_bufWIP task = 0"
    "length (n_buf task) = n_bufSize task" "17 \<le> n_bufSize task"
    "NUL \<notin> set name" "3 \<le> length name" "length name < 1024" "\<not> denied os name"
    "length name + 1 + length piece \<le> n_bufSize task"
  shows "(\<exists>os' task'. handleTaskThreeWorker os task = Inr (0, os', task') \<and> n_taskNo task' = 4
      \<and> disk os' name = Some (overwrite (file_bytes os name) 0 piece)
      \<and> sent os' (n_socket_fd task) = sent os (n_socket_fd task) @ iStatus # READY @ [NUL])
    \<and> manageTaskWorker os task = Inl Out_of_bounds"
  by (rule late_piece_is_lost[OF assms]) (use late_piece_runs_dead_name[OF assms(5)] in blast)

lemma late_piece_is_not_received_witness:
  "manageTaskWorker (ex_wire (\<lambda>_. [Chunk (''job'' @ NUL # ''first half'')])) (ex_end 0) = Inl Out_of_bounds"
  using late_piece_is_not_received[of "ex_wire (\<lambda>_. [Chunk (''job'' @ NUL # ''first half'')])" "ex_end 0"
      "''job''" "''first half''"]
  by (simp add: ex_old_defs)

end
